(* ===== verification/Prelude.thy ===== *)
theory Prelude
  imports Main "HOL-Library.Word" "HOL-Library.Char_ord" "HOL-Library.List_Lexorder"
begin

text \<open>
  Shared vocabulary of the development: the machine integers of the adaptor, the errno
  values its C++ code returns, the faults of C++ code that dereferences or indexes without
  a check, the fact collections the component theories fill, and generic lemmas on lists,
  options and words.

  Conventions used everywhere.
  \<^item> \<open>int\<close>, \<open>int32_t\<close> and \<open>int64_t\<close> return codes and pool identifiers are \<open>int\<close>;
    unsigned counters and lengths whose wrap-around matters are words of their width.
  \<^item> A \<open>char\<close> buffer, a \<open>std::string\<close> and a Ceph \<open>bufferlist\<close> are byte strings, that is
    HOL \<open>string\<close>s; the order on them (theory \<open>List_Lexorder\<close> over \<open>Char_ord\<close>) is the
    unsigned bytewise order of \<open>std::string::compare\<close>.
  \<^item> Undefined behaviour that the code does not guard against (a null or dangling
    dereference, an index out of range, a division by zero) is a value of type \<open>fault\<close>
    on the left of a sum, so that a theorem about a normal result also says that no fault occurs.
\<close>

section \<open>Machine integers, buffers, return codes\<close>

type_synonym u8 = "8 word"
type_synonym u16 = "16 word"
type_synonym u32 = "32 word"
type_synonym u64 = "64 word"

type_synonym bytes = string
type_synonym retcode = int

text \<open>The errno values of Linux that the sources name.\<close>

abbreviation EPERM :: int where "EPERM \<equiv> 1"
abbreviation ENOENT :: int where "ENOENT \<equiv> 2"
abbreviation EIO :: int where "EIO \<equiv> 5"
abbreviation ENOMEM :: int where "ENOMEM \<equiv> 12"
abbreviation EACCES :: int where "EACCES \<equiv> 13"
abbreviation EINVAL :: int where "EINVAL \<equiv> 22"
abbreviation ERANGE :: int where "ERANGE \<equiv> 34"
abbreviation ENOSYS :: int where "ENOSYS \<equiv> 38"
abbreviation EOPNOTSUPP :: int where "EOPNOTSUPP \<equiv> 95"

text \<open>Narrowing a 64-bit signed value to \<open>int\<close> (two's complement).\<close>

definition to_i32 :: "int \<Rightarrow> int" where
  "to_i32 x = (x + 2 ^ 31) mod 2 ^ 32 - 2 ^ 31"

text \<open>What unguarded C++ code can run into.\<close>

datatype fault =
    NullDeref
  | OutOfBounds
  | DivByZero
  | UncaughtException
  | UseAfterFree
  | SelfDeadlock
  | UninitRead
  | AssertFailed
  | WrongCast

section \<open>Fact collections\<close>

named_theorems inv_intros \<open>preservation of component invariants\<close>
named_theorems op_defs \<open>defining equations of the component operations\<close>

section \<open>Lists, options and words\<close>

lemma take_append_le [simp]: "n \<le> length xs \<Longrightarrow> take n (xs @ ys) = take n xs"
  by simp

lemma to_i32_id [simp]: "- (2 ^ 31) \<le> x \<Longrightarrow> x < 2 ^ 31 \<Longrightarrow> to_i32 x = x"
  by (simp add: to_i32_def)

lemma to_i32_range: "- (2 ^ 31) \<le> to_i32 x \<and> to_i32 x < 2 ^ 31"
  using pos_mod_bound [of "2 ^ 32" "x + 2 ^ 31"] pos_mod_sign [of "2 ^ 32" "x + 2 ^ 31"]
  by (simp add: to_i32_def del: pos_mod_bound pos_mod_sign)

lemma min_nat_diff_sum:
  fixes a b :: nat
  shows "min a b + (b - min a b) = b"
  by simp

lemma take_take_drop:
  "take n xs @ take m (drop n xs) = take (n + m) xs"
  by (metis take_add)

lemma bind_eq_Inr_conv:
  "(case x of Inl e \<Rightarrow> Inl e | Inr y \<Rightarrow> f y) = Inr z \<longleftrightarrow> (\<exists>y. x = Inr y \<and> f y = Inr z)"
  by (cases x) auto

lemma list_update_frame:
  "j \<noteq> i \<Longrightarrow> (xs[i := x]) ! j = xs ! j"
  by simp

lemma foldl_snoc_map: "foldl (\<lambda>acc x. acc @ [f x]) acc xs = acc @ map f xs"
  by (induction xs arbitrary: acc) auto

lemma foldl_append_concat: "foldl (\<lambda>acc x. acc @ f x) acc xs = acc @ concat (map f xs)"
  by (induction xs arbitrary: acc) auto

lemma unat_min_word:
  fixes a b :: "'a::len word"
  shows "unat (min a b) = min (unat a) (unat b)"
  by (simp add: min_def word_le_nat_alt)

lemma unat_sub_min:
  fixes a b :: "'a::len word"
  shows "unat (b - min a b) = unat b - min (unat a) (unat b)"
proof -
  have "min a b \<le> b" by simp
  then show ?thesis by (simp add: unat_sub unat_min_word)
qed

lemma unat_ucast_u64_u32: "unat (ucast (x :: u64) :: u32) = unat x mod 2 ^ 32"
  by (simp add: unsigned_ucast_eq take_bit_eq_mod)

lemma list_all_upd: "list_all P xs \<Longrightarrow> P x \<Longrightarrow> list_all P (xs[i := x])"
  by (auto simp: list_all_iff dest: set_update_subset_insert [THEN subsetD])

end
