(* ===== verification/Std_Map.thy ===== *)
theory Std_Map
  imports Prelude
begin

text \<open>
  The ordered associative container of the C++ standard library as the sources use it:
  \<open>find\<close>, \<open>m[k] = v\<close>, \<open>insert\<close> (which keeps an existing entry), \<open>erase\<close>, \<open>clear\<close> and iteration
  in ascending key order. A \<open>std::map\<close> is the list of its entries in iteration order, so that
  loops over the container are recursions over that list.

  The locale \<open>ordered_map\<close> is the contract the client components rely on; it is interpreted
  on the operations below, and the clients use the interpretation's facts.
\<close>

section \<open>Operations\<close>

type_synonym ('k, 'v) std_map = "('k \<times> 'v) list"

definition map_find :: "('k, 'v) std_map \<Rightarrow> 'k \<Rightarrow> 'v option" where
  "map_find m k = map_of m k"

fun map_put :: "'k::linorder \<Rightarrow> 'v \<Rightarrow> ('k, 'v) std_map \<Rightarrow> ('k, 'v) std_map" where
  "map_put k v [] = [(k, v)]"
| "map_put k v ((k', v') # m) =
     (if k < k' then (k, v) # (k', v') # m
      else if k = k' then (k, v) # m
      else (k', v') # map_put k v m)"

fun map_erase :: "'k \<Rightarrow> ('k, 'v) std_map \<Rightarrow> ('k, 'v) std_map" where
  "map_erase k [] = []"
| "map_erase k ((k', v') # m) = (if k = k' then m else (k', v') # map_erase k m)"

text \<open>\<open>std::map::insert\<close> keeps the entry that is already there.\<close>

definition map_insert_new :: "'k::linorder \<Rightarrow> 'v \<Rightarrow> ('k, 'v) std_map \<Rightarrow> ('k, 'v) std_map" where
  "map_insert_new k v m = (case map_find m k of None \<Rightarrow> map_put k v m | Some _ \<Rightarrow> m)"

definition map_wf :: "('k::linorder, 'v) std_map \<Rightarrow> bool" where
  "map_wf m \<longleftrightarrow> sorted_wrt (<) (map fst m)"

text \<open>A \<open>std::set\<close> is the ascending list of its elements.\<close>

fun set_put :: "'k::linorder \<Rightarrow> 'k list \<Rightarrow> 'k list" where
  "set_put k [] = [k]"
| "set_put k (k' # s) = (if k < k' then k # k' # s else if k = k' then k' # s else k' # set_put k s)"

definition std_set_of :: "'k::linorder list \<Rightarrow> 'k list" where
  "std_set_of ks = foldl (\<lambda>s k. set_put k s) [] ks"

section \<open>The contract\<close>

locale ordered_map =
  fixes find :: "'m \<Rightarrow> 'k::linorder \<Rightarrow> 'v option"
    and put :: "'k \<Rightarrow> 'v \<Rightarrow> 'm \<Rightarrow> 'm"
    and erase :: "'k \<Rightarrow> 'm \<Rightarrow> 'm"
    and entries :: "'m \<Rightarrow> ('k \<times> 'v) list"
    and wf :: "'m \<Rightarrow> bool"
  assumes find_put: "wf m \<Longrightarrow> find (put k v m) = (find m)(k \<mapsto> v)"
    and find_erase: "wf m \<Longrightarrow> find (erase k m) = (find m)(k := None)"
    and find_entries: "wf m \<Longrightarrow> find m = map_of (entries m)"
    and entries_ascending: "wf m \<Longrightarrow> sorted_wrt (<) (map fst (entries m))"
    and wf_put: "wf m \<Longrightarrow> wf (put k v m)"
    and wf_erase: "wf m \<Longrightarrow> wf (erase k m)"
begin

lemma find_put_same: "wf m \<Longrightarrow> find (put k v m) k = Some v"
  by (simp add: find_put)

lemma find_put_other: "wf m \<Longrightarrow> k' \<noteq> k \<Longrightarrow> find (put k v m) k' = find m k'"
  by (simp add: find_put)

lemma entries_distinct: "wf m \<Longrightarrow> distinct (map fst (entries m))"
  using entries_ascending strict_sorted_iff by blast

lemma find_Some_iff: "wf m \<Longrightarrow> find m k = Some v \<longleftrightarrow> (k, v) \<in> set (entries m)"
  by (simp add: find_entries entries_distinct)

lemma dom_find: "wf m \<Longrightarrow> dom (find m) = fst ` set (entries m)"
  by (simp add: find_entries dom_map_of_conv_image_fst)

lemma same_find_same_entries:
  assumes "wf m" and "wf m'" and "find m = find m'"
  shows "entries m = entries m'"
proof (rule map_sorted_distinct_set_unique [where f = fst])
  show "inj_on fst (set (entries m) \<union> set (entries m'))"
  proof (rule inj_onI)
    fix x y
    assume "x \<in> set (entries m) \<union> set (entries m')" and "y \<in> set (entries m) \<union> set (entries m')"
      and eq: "fst x = fst y"
    then have "find m (fst x) = Some (snd x)" and "find m (fst y) = Some (snd y)"
      using assms find_Some_iff by (metis Un_iff prod.collapse)+
    with eq show "x = y" by (simp add: prod_eq_iff)
  qed
  show "sorted (map fst (entries m))" "distinct (map fst (entries m))"
    using assms(1) entries_ascending strict_sorted_iff by blast+
  show "sorted (map fst (entries m'))" "distinct (map fst (entries m'))"
    using assms(2) entries_ascending strict_sorted_iff by blast+
  show "set (entries m) = set (entries m')"
    using assms find_Some_iff by (metis subrelI subset_antisym)
qed

end

section \<open>The operations meet the contract\<close>

lemma map_wf_Cons:
  "map_wf ((k, v) # m) \<longleftrightarrow> (\<forall>x \<in> fst ` set m. k < x) \<and> map_wf m"
  by (simp add: map_wf_def)

lemma map_wf_Nil [simp]: "map_wf []"
  by (simp add: map_wf_def)

lemma map_find_Nil [simp]: "map_find [] k = None"
  by (simp add: map_find_def)

lemma keys_map_put: "fst ` set (map_put k v m) = insert k (fst ` set m)"
  by (induction k v m rule: map_put.induct) auto

lemma keys_map_erase: "fst ` set (map_erase k m) \<subseteq> fst ` set m"
  by (induction k m rule: map_erase.induct) auto

lemma map_wf_put [simp, inv_intros]: "map_wf m \<Longrightarrow> map_wf (map_put k v m)"
  by (induction k v m rule: map_put.induct) (auto simp: map_wf_Cons keys_map_put)

lemma map_wf_erase [simp, inv_intros]: "map_wf m \<Longrightarrow> map_wf (map_erase k m)"
  by (induction k m rule: map_erase.induct) (use keys_map_erase in \<open>fastforce simp: map_wf_Cons\<close>)+

lemma map_of_map_put: "map_wf m \<Longrightarrow> map_of (map_put k v m) = (map_of m)(k \<mapsto> v)"
  by (induction k v m rule: map_put.induct) (auto simp: map_wf_Cons fun_upd_twist)

lemma map_of_map_erase: "map_wf m \<Longrightarrow> map_of (map_erase k m) = (map_of m)(k := None)"
proof (induction k m rule: map_erase.induct)
  case (2 k k' v' m)
  have "k \<notin> fst ` set m" if "k = k'"
    using 2 that by (auto simp: map_wf_Cons)
  with 2 show ?case
    by (auto simp: map_wf_Cons fun_upd_twist map_of_eq_None_iff fun_eq_iff)
qed simp

interpretation smap: ordered_map map_find map_put map_erase "\<lambda>m. m" map_wf
  by unfold_locales
    (auto simp: map_find_def map_of_map_put map_of_map_erase, simp add: map_wf_def)

lemmas smap_simps [simp] = smap.find_put smap.find_erase

lemma map_insert_new_find:
  "map_wf m \<Longrightarrow>
   map_find (map_insert_new k v m) =
     (case map_find m k of None \<Rightarrow> (map_find m)(k \<mapsto> v) | Some _ \<Rightarrow> map_find m)"
  by (simp add: map_insert_new_def split: option.splits)

lemma map_wf_insert_new [simp, inv_intros]: "map_wf m \<Longrightarrow> map_wf (map_insert_new k v m)"
  by (simp add: map_insert_new_def split: option.splits)

section \<open>Sets\<close>

lemma set_set_put: "set (set_put k s) = insert k (set s)"
  by (induction k s rule: set_put.induct) auto

lemma sorted_set_put: "sorted_wrt (<) s \<Longrightarrow> sorted_wrt (<) (set_put k s)"
  by (induction k s rule: set_put.induct) (auto simp: set_set_put)

lemma foldl_set_put:
  "sorted_wrt (<) s \<Longrightarrow>
   set (foldl (\<lambda>s k. set_put k s) s ks) = set s \<union> set ks \<and>
   sorted_wrt (<) (foldl (\<lambda>s k. set_put k s) s ks)"
  by (induction ks arbitrary: s) (auto simp: set_set_put sorted_set_put)

lemma set_std_set_of [simp]: "set (std_set_of ks) = set ks"
  using foldl_set_put [of "[]" ks] by (simp add: std_set_of_def)

lemma sorted_std_set_of: "sorted_wrt (<) (std_set_of ks)"
  using foldl_set_put [of "[]" ks] by (simp add: std_set_of_def)

end
