(* ===== verification/C_String.thy ===== *)
theory C_String
  imports Prelude
begin

text \<open>
  The C string functions the sources call, on byte strings: \<open>c_str\<close> (a \<open>std::string\<close> seen as a
  NUL-terminated string, which is also what \<open>strcpy\<close> copies), the \<open>strtok\<close>/\<open>strtok_r\<close> loop over
  one delimiter, \<open>strtoull\<close>/\<open>strtoul\<close>, \<open>atoi\<close> and \<open>std::to_string\<close> of an unsigned number.

  The lemmas give the round trip of splitting and joining, and the reason why the adaptor puts
  a digit \<open>1\<close> before an image identifier before it reads it as a hexadecimal number: with that
  digit in front, the value determines the identifier, leading zeros included.
\<close>

section \<open>Operations\<close>

definition c_str :: "string \<Rightarrow> string" where
  "c_str s = takeWhile (\<lambda>c. c \<noteq> CHR 0x00) s"

lemma length_dropWhile_token:
  assumes "dropWhile (\<lambda>c. c = d) s \<noteq> []"
  shows "length (dropWhile (\<lambda>c. c \<noteq> d) (dropWhile (\<lambda>c. c = d) s)) < length s"
proof -
  let ?s = "dropWhile (\<lambda>c. c = d) s"
  obtain x xs where s: "?s = x # xs" using assms by (cases ?s) auto
  then have "x \<noteq> d" using hd_dropWhile [of "\<lambda>c. c = d" s] assms by simp
  then have "length (dropWhile (\<lambda>c. c \<noteq> d) ?s) < length ?s"
    using s by (simp add: le_imp_less_Suc length_dropWhile_le)
  also have "\<dots> \<le> length s" by (rule length_dropWhile_le)
  finally show ?thesis .
qed

text \<open>The tokens that successive calls of \<open>strtok\<close> return, in order.\<close>

function strtok :: "char \<Rightarrow> string \<Rightarrow> string list" where
  "strtok d s =
     (let s' = dropWhile (\<lambda>c. c = d) s in
      if s' = [] then []
      else takeWhile (\<lambda>c. c \<noteq> d) s' # strtok d (dropWhile (\<lambda>c. c \<noteq> d) s'))"
  by pat_completeness auto
termination
  by (relation "measure (\<lambda>(d, s). length s)") (auto simp del: dropWhile_eq_Nil_conv intro: length_dropWhile_token)

declare strtok.simps [simp del]

definition isspace_c :: "char \<Rightarrow> bool" where
  "isspace_c c \<longleftrightarrow> (let n = of_char c :: nat in n = 32 \<or> 9 \<le> n \<and> n \<le> 13)"

definition digit_val :: "nat \<Rightarrow> char \<Rightarrow> nat option" where
  "digit_val b c =
     (let n = of_char c :: nat;
          v = (if 48 \<le> n \<and> n \<le> 57 then n - 48
               else if 97 \<le> n \<and> n \<le> 122 then n - 87
               else if 65 \<le> n \<and> n \<le> 90 then n - 55
               else b)
      in if v < b then Some v else None)"

fun digits_acc :: "nat \<Rightarrow> nat \<Rightarrow> string \<Rightarrow> nat" where
  "digits_acc b a [] = a"
| "digits_acc b a (c # s) =
     (case digit_val b c of None \<Rightarrow> a | Some v \<Rightarrow> digits_acc b (a * b + v) s)"

fun skip_0x :: "string \<Rightarrow> string" where
  "skip_0x (z # x # c # s) =
     (if z = CHR ''0'' \<and> (x = CHR ''x'' \<or> x = CHR ''X'') \<and> digit_val 16 c \<noteq> None
      then c # s else z # x # c # s)"
| "skip_0x s = s"

definition split_sign :: "string \<Rightarrow> bool \<times> string" where
  "split_sign s =
     (case s of
        [] \<Rightarrow> (False, [])
      | c # s' \<Rightarrow> if c = CHR ''-'' then (True, s') else if c = CHR ''+'' then (False, s') else (False, s))"

text \<open>\<open>strtoull\<close> (and \<open>strtoul\<close>, equally wide here): saturates at \<open>ULLONG_MAX\<close>.\<close>

definition strtoull :: "nat \<Rightarrow> string \<Rightarrow> u64" where
  "strtoull b s =
     (let (neg, s') = split_sign (dropWhile isspace_c (c_str s));
          v = digits_acc b 0 (if b = 16 then skip_0x s' else s')
      in if v \<ge> 2 ^ 64 then - 1 else if neg then - of_nat v else of_nat v)"

text \<open>\<open>sscanf(s, "%u", p)\<close>: the converted value, or nothing when there is no number to convert.\<close>

definition sscanf_u :: "string \<Rightarrow> u32 option" where
  "sscanf_u s =
     (let (neg, s') = split_sign (dropWhile isspace_c (c_str s))
      in case s' of
           [] \<Rightarrow> None
         | c # _ \<Rightarrow> if digit_val 10 c = None then None else Some (ucast (strtoull 10 s)))"

text \<open>\<open>atoi\<close> as the C library computes it: \<open>strtol\<close> clamped to 64 bits, then cut to \<open>int\<close>.\<close>

definition atoi :: "string \<Rightarrow> int" where
  "atoi s =
     (let (neg, s') = split_sign (dropWhile isspace_c (c_str s));
          v = int (digits_acc 10 0 s');
          l = (if neg then max (- (2 ^ 63)) (- v) else min (2 ^ 63 - 1) v)
      in sint (word_of_int l :: 32 word))"

definition digit_char :: "nat \<Rightarrow> char" where
  "digit_char n = char_of (48 + n)"

fun to_string :: "nat \<Rightarrow> string" where
  "to_string n = (if n < 10 then [digit_char n] else to_string (n div 10) @ [digit_char (n mod 10)])"

declare to_string.simps [simp del]

definition is_lower_hex :: "string \<Rightarrow> bool" where
  "is_lower_hex s \<longleftrightarrow>
     list_all (\<lambda>c. let n = of_char c :: nat in 48 \<le> n \<and> n \<le> 57 \<or> 97 \<le> n \<and> n \<le> 102) s"

fun join_with :: "char \<Rightarrow> string list \<Rightarrow> string" where
  "join_with d [] = []"
| "join_with d [t] = t"
| "join_with d (t # ts) = t @ d # join_with d ts"

section \<open>Splitting and joining\<close>

definition is_token :: "char \<Rightarrow> string \<Rightarrow> bool" where
  "is_token d t \<longleftrightarrow> t \<noteq> [] \<and> d \<notin> set t"

lemma is_token_Cons: "is_token d t \<Longrightarrow> \<exists>c t'. t = c # t' \<and> c \<noteq> d"
  by (cases t) (auto simp: is_token_def)

lemma takeWhile_token: "is_token d t \<Longrightarrow> takeWhile (\<lambda>c. c \<noteq> d) (t @ d # r) = t"
  unfolding is_token_def by (subst takeWhile_append2) auto

lemma dropWhile_token: "is_token d t \<Longrightarrow> dropWhile (\<lambda>c. c \<noteq> d) (t @ d # r) = d # r"
  unfolding is_token_def by (subst dropWhile_append2) auto

lemma strtok_Nil [simp]: "strtok d [] = []"
  by (simp add: strtok.simps)

lemma strtok_delim [simp]: "strtok d (d # s) = strtok d s"
  by (subst (1 2) strtok.simps) simp

lemma strtok_token_only: "is_token d t \<Longrightarrow> strtok d t = [t]"
proof -
  assume t: "is_token d t"
  then have tw: "takeWhile (\<lambda>c. c \<noteq> d) t = t" and dw: "dropWhile (\<lambda>c. c \<noteq> d) t = []"
    by (auto simp: is_token_def)
  have dl: "dropWhile (\<lambda>c. c = d) t = t" using is_token_Cons [OF t] by auto
  from t have "t \<noteq> []" by (simp add: is_token_def)
  then show ?thesis by (subst strtok.simps) (simp only: Let_def dl tw dw if_False strtok_Nil)
qed

lemma strtok_token_delim: "is_token d t \<Longrightarrow> strtok d (t @ d # r) = t # strtok d r"
proof -
  assume t: "is_token d t"
  then have "dropWhile (\<lambda>c. c = d) (t @ d # r) = t @ d # r" using is_token_Cons by fastforce
  then show ?thesis
    using t takeWhile_token [OF t] dropWhile_token [OF t] is_token_Cons [OF t]
    by (subst strtok.simps) (simp add: Let_def)
qed

lemma strtok_join:
  "list_all (is_token d) ts \<Longrightarrow> strtok d (join_with d ts) = ts"
  by (induction d ts rule: join_with.induct) (auto simp: strtok_token_only strtok_token_delim)

lemma strtok_tokens: "t \<in> set (strtok d s) \<Longrightarrow> is_token d t"
proof (induction d s rule: strtok.induct)
  case (1 d s)
  let ?s = "dropWhile (\<lambda>c. c = d) s"
  show ?case
  proof (cases "?s = []")
    case True
    with "1.prems" show ?thesis by (simp add: strtok.simps [of d s])
  next
    case False
    then have hd: "hd ?s \<noteq> d" by (rule hd_dropWhile)
    have "is_token d (takeWhile (\<lambda>c. c \<noteq> d) ?s)"
      using False hd by (cases ?s) (auto simp: is_token_def dest: set_takeWhileD)
    moreover from "1.prems" False have
      "t = takeWhile (\<lambda>c. c \<noteq> d) ?s \<or> t \<in> set (strtok d (dropWhile (\<lambda>c. c \<noteq> d) ?s))"
      by (simp only: strtok.simps [of d s] Let_def if_False list.set insert_iff)
    ultimately show ?thesis using "1.IH" False by auto
  qed
qed

section \<open>Digits\<close>

lemma digit_val_less: "digit_val b c = Some v \<Longrightarrow> v < b"
  by (auto simp: digit_val_def Let_def split: if_splits)

lemma digits_acc_shift:
  "list_all (\<lambda>c. digit_val b c \<noteq> None) s \<Longrightarrow>
   digits_acc b a s = a * b ^ length s + digits_acc b 0 s"
proof (induction s arbitrary: a)
  case (Cons c s)
  then obtain v where v: "digit_val b c = Some v" and s: "list_all (\<lambda>c. digit_val b c \<noteq> None) s"
    by auto
  have "digits_acc b (a * b + v) s = (a * b + v) * b ^ length s + digits_acc b 0 s"
    by (rule Cons.IH [OF s])
  moreover have "digits_acc b v s = v * b ^ length s + digits_acc b 0 s"
    by (rule Cons.IH [OF s])
  ultimately show ?case using v by (simp add: algebra_simps)
qed simp

lemma digits_acc_less:
  "list_all (\<lambda>c. digit_val b c \<noteq> None) s \<Longrightarrow> digits_acc b 0 s < b ^ length s"
proof (induction s)
  case (Cons c s)
  then obtain v where v: "digit_val b c = Some v" and s: "list_all (\<lambda>c. digit_val b c \<noteq> None) s"
    by auto
  have "digits_acc b 0 (c # s) = v * b ^ length s + digits_acc b 0 s"
    using v digits_acc_shift [OF s, of v] by simp
  also have "\<dots> < v * b ^ length s + b ^ length s" using Cons.IH [OF s] by simp
  also have "\<dots> = Suc v * b ^ length s" by simp
  also have "\<dots> \<le> b * b ^ length s" using digit_val_less [OF v] by (simp only: mult_le_mono1 Suc_leI)
  finally show ?case by simp
qed simp

lemma lower_hex_digit:
  "is_lower_hex (c # s) \<Longrightarrow>
   is_lower_hex s \<and>
   (\<exists>v. digit_val 16 c = Some v \<and> c = (if v < 10 then char_of (48 + v) else char_of (87 + v)))"
  by (auto simp: is_lower_hex_def digit_val_def Let_def)

lemma lower_hex_digits: "is_lower_hex s \<Longrightarrow> list_all (\<lambda>c. digit_val 16 c \<noteq> None) s"
  by (induction s) (use lower_hex_digit in fastforce)+

lemma hex_value_inj_same_length:
  "length s = length t \<Longrightarrow> is_lower_hex s \<Longrightarrow> is_lower_hex t \<Longrightarrow>
   digits_acc 16 0 s = digits_acc 16 0 t \<Longrightarrow> s = t"
proof (induction s t rule: list_induct2)
  case (Cons c s d t)
  obtain v where v: "digit_val 16 c = Some v" and c: "c = (if v < 10 then char_of (48 + v) else char_of (87 + v))"
    and s: "is_lower_hex s" using lower_hex_digit [OF Cons.prems(1)] by blast
  obtain w where w: "digit_val 16 d = Some w" and d: "d = (if w < 10 then char_of (48 + w) else char_of (87 + w))"
    and t: "is_lower_hex t" using lower_hex_digit [OF Cons.prems(2)] by blast
  let ?p = "(16::nat) ^ length s"
  have vs: "digits_acc 16 0 (c # s) = v * ?p + digits_acc 16 0 s"
    using v digits_acc_shift [OF lower_hex_digits [OF s], of v] by simp
  have wt: "digits_acc 16 0 (d # t) = w * ?p + digits_acc 16 0 t"
    using w digits_acc_shift [OF lower_hex_digits [OF t], of w] Cons.hyps by simp
  have ls: "digits_acc 16 0 s < ?p" by (rule digits_acc_less [OF lower_hex_digits [OF s]])
  have lt: "digits_acc 16 0 t < ?p"
    using digits_acc_less [OF lower_hex_digits [OF t]] Cons.hyps by simp
  have eq: "v * ?p + digits_acc 16 0 s = w * ?p + digits_acc 16 0 t"
    using Cons.prems(3) vs wt by simp
  have "v = (v * ?p + digits_acc 16 0 s) div ?p" using ls by simp
  also have "\<dots> = w" unfolding eq using lt by simp
  finally have "v = w" .
  moreover with eq have "digits_acc 16 0 s = digits_acc 16 0 t" by simp
  ultimately show ?case using Cons.IH s t c d by simp
qed simp

text \<open>A hexadecimal numeral with a digit 1 in front.\<close>

definition hex1 :: "string \<Rightarrow> nat" where
  "hex1 s = 16 ^ length s + digits_acc 16 0 s"

lemma hex1_bounds:
  assumes "is_lower_hex s"
  shows "16 ^ length s \<le> hex1 s" and "hex1 s < 2 * 16 ^ length s"
  using digits_acc_less [OF lower_hex_digits [OF assms]] by (simp_all add: hex1_def)

lemma hex1_inj:
  assumes s: "is_lower_hex s" and t: "is_lower_hex t" and eq: "hex1 s = hex1 t"
  shows "s = t"
proof -
  have pow: "a \<le> b" if "(16::nat) ^ a < 2 * 16 ^ b" for a b
  proof (rule ccontr)
    assume "\<not> a \<le> b"
    then have "(16::nat) ^ Suc b \<le> 16 ^ a" by (intro power_increasing) auto
    with that have "(16::nat) * 16 ^ b < 2 * 16 ^ b" by simp
    then show False by simp
  qed
  have "length s \<le> length t" using hex1_bounds(1) [OF s] hex1_bounds(2) [OF t] eq pow by simp
  moreover have "length t \<le> length s" using hex1_bounds(1) [OF t] hex1_bounds(2) [OF s] eq pow by simp
  ultimately have "length s = length t" by simp
  with eq have "digits_acc 16 0 s = digits_acc 16 0 t" by (simp add: hex1_def)
  with \<open>length s = length t\<close> s t show ?thesis by (rule hex_value_inj_same_length)
qed

lemma lower_hex_no_nul: "is_lower_hex s \<Longrightarrow> takeWhile (\<lambda>c. c \<noteq> CHR 0x00) s = s"
proof -
  assume "is_lower_hex s"
  then have "c \<in> set s \<Longrightarrow> 48 \<le> (of_char c :: nat)" for c
    by (auto simp: is_lower_hex_def list_all_iff Let_def)
  then have "c \<in> set s \<Longrightarrow> c \<noteq> CHR 0x00" for c by fastforce
  then show ?thesis by simp
qed

lemma strtoull_hex1:
  assumes s: "is_lower_hex s" and len: "length s \<le> 15"
  shows "unat (strtoull 16 (CHR ''1'' # s)) = hex1 s"
proof -
  have c: "c_str (CHR ''1'' # s) = CHR ''1'' # s"
    using s by (simp add: c_str_def lower_hex_no_nul)
  have "\<not> isspace_c (CHR ''1'')" by (simp add: isspace_c_def Let_def)
  then have sp: "dropWhile isspace_c (CHR ''1'' # s) = CHR ''1'' # s" by simp
  have sg: "split_sign (CHR ''1'' # s) = (False, CHR ''1'' # s)"
    by (simp add: split_sign_def)
  have ox: "skip_0x (CHR ''1'' # s) = CHR ''1'' # s"
    by (cases "CHR ''1'' # s" rule: skip_0x.cases) auto
  have "digits_acc 16 0 (CHR ''1'' # s) = hex1 s"
    using digits_acc_shift [OF lower_hex_digits [OF s], of 1]
    by (simp add: hex1_def digit_val_def Let_def)
  moreover have "hex1 s < 2 ^ 64"
  proof -
    have "hex1 s < 2 * 16 ^ length s" by (rule hex1_bounds(2) [OF s])
    also have "\<dots> \<le> 2 * 16 ^ 15" using len by (intro mult_left_mono power_increasing) auto
    also have "\<dots> < (2::nat) ^ 64" by simp
    finally show ?thesis .
  qed
  ultimately show ?thesis
    by (simp add: strtoull_def c sp sg ox unat_of_nat take_bit_nat_eq_self
        del: dropWhile.simps digits_acc.simps)
qed

section \<open>Decimal printing\<close>

lemma to_string_not_Nil [simp]: "to_string n \<noteq> []"
  by (subst to_string.simps) simp

lemma digit_val_digit_char: "n < 10 \<Longrightarrow> digit_val 10 (digit_char n) = Some n"
  by (simp add: digit_char_def digit_val_def Let_def)

lemma digits_acc_snoc:
  "list_all (\<lambda>c. digit_val b c \<noteq> None) s \<Longrightarrow> digit_val b c = Some v \<Longrightarrow>
   digits_acc b a (s @ [c]) = digits_acc b a s * b + v"
  by (induction s arbitrary: a) auto

lemma to_string_digits:
  "list_all (\<lambda>c. digit_val 10 c \<noteq> None) (to_string n) \<and> digits_acc 10 0 (to_string n) = n"
proof (induction n rule: to_string.induct)
  case (1 n)
  show ?case
  proof (cases "n < 10")
    case True
    then show ?thesis by (simp add: to_string.simps [of n] digit_val_digit_char)
  next
    case False
    with 1 have IH: "list_all (\<lambda>c. digit_val 10 c \<noteq> None) (to_string (n div 10))"
      "digits_acc 10 0 (to_string (n div 10)) = n div 10" by auto
    have d: "digit_val 10 (digit_char (n mod 10)) = Some (n mod 10)"
      by (simp add: digit_val_digit_char)
    show ?thesis
      using False IH d digits_acc_snoc [OF IH(1) d, of 0]
      by (simp add: to_string.simps [of n])
  qed
qed

lemma to_string_inj: "to_string m = to_string n \<Longrightarrow> m = n"
  by (metis to_string_digits)

end
