(* ===== verification/Rados_Client.thy ===== *)
theory Rados_Client
  imports Std_Map C_String
begin

text \<open>
  The client half of \<open>ceph_proxy/RadosWrapper.cc\<close>: creating and shutting down the
  librados client, creating and releasing I/O contexts, the pool and cluster queries, and the
  binding of messenger threads to cores.

  librados itself is not part of the repository. Its answers are the fields of the record
  \<open>rados_env\<close>, an argument of every operation that calls it; the calls whose order matters
  are collected as a list of events. A \<open>librados::IoCtx\<close> object is a handle of the heap
  \<open>ctx_heap\<close>, so that a leak (a live handle nobody holds) and a release of a dead handle
  are visible in the model.
\<close>

section \<open>The librados interface\<close>

record cluster_stat_t =
  kb :: u64
  kb_used :: u64
  kb_avail :: u64
  num_objects :: u64

record pool_stat_t =
  num_bytes :: u64
  num_kb :: u64
  ps_num_objects :: u64
  num_object_clones :: u64
  num_object_copies :: u64
  num_objects_missing_on_primary :: u64
  num_objects_unfound :: u64
  num_objects_degraded :: u64
  num_rd :: u64
  num_rd_kb :: u64
  num_wr :: u64
  num_wr_kb :: u64
  num_user_bytes :: u64
  compressed_bytes_orig :: u64
  compressed_bytes :: u64
  compressed_bytes_alloc :: u64

text \<open>How an I/O context was opened.\<close>

datatype pool_ref = ByName string | ById int

record rados_env =
  alloc_ok :: bool
  init_ret :: int
  conf_read_file_ret :: "string \<Rightarrow> int"
  conf_get :: "string \<Rightarrow> int \<times> string"
  conf_set_ret :: "string \<Rightarrow> string \<Rightarrow> int"
  connect_ret :: "nat \<Rightarrow> int"
  ioctx_create_ret :: "string \<Rightarrow> int"
  ioctx_create2_ret :: "int \<Rightarrow> int"
  get_id :: "pool_ref \<Rightarrow> int"
  get_pool_name :: "pool_ref \<Rightarrow> string"
  cluster_stat :: "int \<times> cluster_stat_t"
  get_pool_stats :: "string list \<Rightarrow> int \<times> (string, pool_stat_t) std_map"
  pool_reverse_lookup :: "u64 \<Rightarrow> int \<times> string"

datatype rados_event =
    EvConfReadFile string
  | EvConfSet string string
  | EvConnect
  | EvSleep nat
  | EvShutdown

section \<open>Creating and shutting down the client\<close>

abbreviation RADOS_CONNECT_RETRY :: nat where "RADOS_CONNECT_RETRY \<equiv> 5"
abbreviation CONNECT_WAIT_TIME :: nat where "CONNECT_WAIT_TIME \<equiv> 5"

text \<open>What \<open>RadosClientInit\<close> does to the caller's \<open>*client\<close>.\<close>

datatype client_slot = Untouched | ClientNull | ClientReady

function connect_loop :: "rados_env \<Rightarrow> nat \<Rightarrow> int \<Rightarrow> int \<times> rados_event list" where
  "connect_loop e retryCount ret =
     (if retryCount < RADOS_CONNECT_RETRY then
        (let r = connect_ret e retryCount in
         if r < 0 then
           (let retryCount' = retryCount + 1;
                (ret', evs) = connect_loop e retryCount' r
            in (ret', EvConnect # EvSleep (CONNECT_WAIT_TIME * 2 ^ retryCount') # evs))
         else (r, [EvConnect]))
      else (ret, []))"
  by pat_completeness auto
termination
  by (relation "measure (\<lambda>(e, n, r). RADOS_CONNECT_RETRY - n)") auto

declare connect_loop.simps [simp del]

text \<open>The options of \<open>ConfigRead.cc\<close> that the initialisation reads.\<close>

record client_opts =
  opt_ceph_conf :: string
  opt_keyring :: string
  opt_mon_timeout :: u64
  opt_osd_timeout :: u64

definition client_init_out :: "int \<Rightarrow> rados_event list \<Rightarrow> int \<times> client_slot \<times> rados_event list" where
  "client_init_out ret evs = (ret, ClientNull, evs @ [EvShutdown])"

definition RadosClientInit ::
    "rados_env \<Rightarrow> client_opts \<Rightarrow> int \<times> client_slot \<times> rados_event list" where
  "RadosClientInit e o1 =
     (if \<not> alloc_ok e then (-1, Untouched, [])
      else if init_ret e < 0 then (init_ret e, Untouched, [])
      else
        let t1 = [EvConfReadFile (opt_ceph_conf o1)];
            r1 = conf_read_file_ret e (opt_ceph_conf o1)
        in if r1 < 0 then client_init_out r1 t1
      else
        let (r2, authCluster) = conf_get e ''auth_cluster_required''
        in if r2 \<noteq> 0 then client_init_out r2 t1
      else
        let cephx = (c_str authCluster = ''cephx'');
            r3 = (if cephx then conf_set_ret e ''keyring'' (opt_keyring o1) else 0);
            t3 = (if cephx then t1 @ [EvConfSet ''keyring'' (opt_keyring o1)] else t1)
        in if r3 \<noteq> 0 then client_init_out r3 t3
      else
        let mon = to_string (unat (opt_mon_timeout o1));
            r4 = conf_set_ret e ''rados_mon_op_timeout'' mon;
            t4 = t3 @ [EvConfSet ''rados_mon_op_timeout'' mon]
        in if r4 \<noteq> 0 then client_init_out r4 t4
      else
        let osd = to_string (unat (opt_osd_timeout o1));
            r5 = conf_set_ret e ''rados_osd_op_timeout'' osd;
            t5 = t4 @ [EvConfSet ''rados_osd_op_timeout'' osd]
        in if r5 \<noteq> 0 then client_init_out r5 t5
      else
        let (r6, t6) = connect_loop e 0 r5
        in if r6 < 0 then client_init_out r6 (t5 @ t6)
           else (0, ClientReady, t5 @ t6))"

definition RadosSetConf :: "rados_env \<Rightarrow> string \<Rightarrow> string \<Rightarrow> int" where
  "RadosSetConf e opt value =
     (let ret = conf_set_ret e opt value in if ret \<noteq> 0 then ret else 0)"

definition RadosClientShutdown :: "bool \<Rightarrow> rados_event list" where
  "RadosClientShutdown client_nonnull = (if client_nonnull then [EvShutdown] else [])"

section \<open>I/O contexts\<close>

type_synonym rados_ioctx_t = "nat option"

record ctx_heap =
  fresh :: nat
  live :: "(nat \<times> pool_ref) list"

definition new_ioctx :: "pool_ref \<Rightarrow> ctx_heap \<Rightarrow> nat \<times> ctx_heap" where
  "new_ioctx p h = (fresh h, h\<lparr>fresh := Suc (fresh h), live := (fresh h, p) # live h\<rparr>)"

text \<open>
  Both constructors allocate the context first; when librados refuses the pool they return its
  code without deleting the object, which stays live.
\<close>

definition RadosCreateIoCtx ::
    "rados_env \<Rightarrow> string \<Rightarrow> ctx_heap \<Rightarrow> int \<times> rados_ioctx_t \<times> ctx_heap" where
  "RadosCreateIoCtx e poolname h =
     (if \<not> alloc_ok e then (-1, None, h)
      else let (p, h') = new_ioctx (ByName (c_str poolname)) h;
               ret = ioctx_create_ret e (c_str poolname)
           in if ret < 0 then (ret, None, h') else (0, Some p, h'))"

definition RadosCreateIoCtx2 ::
    "rados_env \<Rightarrow> int \<Rightarrow> ctx_heap \<Rightarrow> int \<times> rados_ioctx_t \<times> ctx_heap" where
  "RadosCreateIoCtx2 e poolId h =
     (if \<not> alloc_ok e then (-1, None, h)
      else let (p, h') = new_ioctx (ById poolId) h;
               ret = ioctx_create2_ret e poolId
           in if ret < 0 then (ret, None, h') else (0, Some p, h'))"

definition RadosReleaseIoCtx :: "rados_ioctx_t \<Rightarrow> ctx_heap \<Rightarrow> fault + ctx_heap" where
  "RadosReleaseIoCtx ctx h =
     (case ctx of
        None \<Rightarrow> Inr h
      | Some p \<Rightarrow>
          if p \<in> fst ` set (live h)
          then Inr (h\<lparr>live := filter (\<lambda>x. fst x \<noteq> p) (live h)\<rparr>)
          else Inl UseAfterFree)"

definition deref_ioctx :: "rados_ioctx_t \<Rightarrow> ctx_heap \<Rightarrow> fault + pool_ref" where
  "deref_ioctx ctx h =
     (case ctx of
        None \<Rightarrow> Inl NullDeref
      | Some p \<Rightarrow> (case map_of (live h) p of None \<Rightarrow> Inl UseAfterFree | Some r \<Rightarrow> Inr r))"

definition RadosGetPoolId :: "rados_env \<Rightarrow> rados_ioctx_t \<Rightarrow> ctx_heap \<Rightarrow> fault + int" where
  "RadosGetPoolId e ctx h =
     (case deref_ioctx ctx h of Inl f \<Rightarrow> Inl f | Inr r \<Rightarrow> Inr (get_id e r))"

text \<open>
  The caller's buffer is \<open>buf\<close>, as many bytes as are allocated there. \<open>strcpy\<close> writes the name
  and its terminating NUL.
\<close>

definition strcpy_c :: "bytes \<Rightarrow> string \<Rightarrow> fault + bytes" where
  "strcpy_c buf s =
     (let w = c_str s @ [CHR 0x00] in
      if length w \<le> length buf then Inr (w @ drop (length w) buf) else Inl OutOfBounds)"

definition RadosGetPoolName ::
    "rados_env \<Rightarrow> rados_ioctx_t \<Rightarrow> bytes \<Rightarrow> u32 \<Rightarrow> ctx_heap \<Rightarrow> fault + int \<times> bytes" where
  "RadosGetPoolName e ctx buf maxLen h =
     (case deref_ioctx ctx h of
        Inl f \<Rightarrow> Inl f
      | Inr r \<Rightarrow>
          let poolName = get_pool_name e r in
          if unat maxLen \<le> length poolName then Inr (- ERANGE, buf)
          else (case strcpy_c buf poolName of Inl f \<Rightarrow> Inl f | Inr buf' \<Rightarrow> Inr (0, buf')))"

section \<open>Queries\<close>

definition get_min_alloc_size :: "string \<Rightarrow> rados_env \<Rightarrow> u32 \<Rightarrow> int \<times> u32" where
  "get_min_alloc_size dev_name e minAllocSize =
     (let (ret, val) = conf_get e ''bluestore_min_alloc_size'' in
      if ret < 0 then (ret, minAllocSize)
      else
        let m1 = (case sscanf_u val of None \<Rightarrow> minAllocSize | Some n \<Rightarrow> n) in
        if m1 = 0 then
          (let (ret2, val2) = conf_get e dev_name in
           if ret2 < 0 then (ret2, m1)
           else (0, case sscanf_u val2 of None \<Rightarrow> m1 | Some n \<Rightarrow> n))
        else (0, m1))"

definition RadosGetMinAllocSizeHDD :: "rados_env \<Rightarrow> u32 \<Rightarrow> int \<times> u32" where
  "RadosGetMinAllocSizeHDD = get_min_alloc_size ''bluestore_min_alloc_size_hdd''"

definition RadosGetMinAllocSizeSSD :: "rados_env \<Rightarrow> u32 \<Rightarrow> int \<times> u32" where
  "RadosGetMinAllocSizeSSD = get_min_alloc_size ''bluestore_min_alloc_size_ssd''"

record CephClusterStat =
  cs_kb :: u64
  cs_kbUsed :: u64
  cs_kbAvail :: u64
  cs_numObjects :: u64

definition RadosGetClusterStat :: "rados_env \<Rightarrow> CephClusterStat \<Rightarrow> int \<times> CephClusterStat" where
  "RadosGetClusterStat e stat =
     (let (ret, result) = cluster_stat e in
      if ret < 0 then (ret, stat)
      else (0, stat\<lparr>cs_kb := kb result, cs_kbAvail := kb_avail result,
                   cs_kbUsed := kb_used result, cs_numObjects := num_objects result\<rparr>))"

record CephPoolStat =
  numBytes :: u64
  numKb :: u64
  numObjects :: u64
  numObjectClones :: u64
  numObjectCopies :: u64
  numObjectsMissingOnPrimary :: u64
  numObjectsUnfound :: u64
  numObjectsDegraded :: u64
  numRd :: u64
  numRdKb :: u64
  numWr :: u64
  numWrKb :: u64
  numUserBytes :: u64
  compressedBytesOrig :: u64
  compressedBytes :: u64
  compressedBytesAlloc :: u64

text \<open>The value-initialised entry that \<open>rawresult[name]\<close> creates for a missing name.\<close>

definition zero_pool_stat :: pool_stat_t where
  "zero_pool_stat =
     \<lparr>num_bytes = 0, num_kb = 0, ps_num_objects = 0, num_object_clones = 0,
      num_object_copies = 0, num_objects_missing_on_primary = 0, num_objects_unfound = 0,
      num_objects_degraded = 0, num_rd = 0, num_rd_kb = 0, num_wr = 0, num_wr_kb = 0,
      num_user_bytes = 0, compressed_bytes_orig = 0, compressed_bytes = 0,
      compressed_bytes_alloc = 0\<rparr>"

definition raw_lookup :: "(string, pool_stat_t) std_map \<Rightarrow> string \<Rightarrow> pool_stat_t" where
  "raw_lookup raw name = (case map_find raw name of None \<Rightarrow> zero_pool_stat | Some s \<Rightarrow> s)"

definition RadosGetPoolStat ::
    "rados_env \<Rightarrow> bool \<Rightarrow> rados_ioctx_t \<Rightarrow> ctx_heap \<Rightarrow> CephPoolStat \<Rightarrow> fault + int \<times> CephPoolStat" where
  "RadosGetPoolStat e client_nonnull ctx h stat =
     (if ctx = None \<or> \<not> client_nonnull then Inr (- EINVAL, stat)
      else case deref_ioctx ctx h of
        Inl f \<Rightarrow> Inl f
      | Inr r \<Rightarrow>
          let pool_name = get_pool_name e r;
              (ret, rawresult) = get_pool_stats e [pool_name]
          in if ret \<noteq> 0 then Inr (ret, stat)
             else
               let stats = raw_lookup rawresult pool_name in
               Inr (0, \<lparr>numBytes = num_bytes stats, numKb = num_kb stats,
                        numObjects = ps_num_objects stats,
                        numObjectClones = num_object_clones stats,
                        numObjectCopies = num_object_copies stats,
                        numObjectsMissingOnPrimary = num_objects_missing_on_primary stats,
                        numObjectsUnfound = num_objects_unfound stats,
                        numObjectsDegraded = num_objects_degraded stats,
                        numRd = num_rd stats, numRdKb = num_rd_kb stats,
                        numWr = num_wr stats, numWrKb = num_wr_kb stats,
                        numUserBytes = num_user_bytes stats,
                        compressedBytesOrig = compressed_bytes_orig stats,
                        compressedBytes = compressed_bytes stats,
                        compressedBytesAlloc = compressed_bytes_alloc stats\<rparr>))"

text \<open>
  \<open>RadosGetPoolsStat\<close> on arrays of \<open>poolNum\<close> entries: the first loop resolves the names, marks
  an unknown pool with \<open>numBytes = -1\<close> and remembers index and name of the others; the second
  copies the two figures of each remembered index.
\<close>

fun resolve_pools ::
    "rados_env \<Rightarrow> nat \<Rightarrow> u64 list \<Rightarrow> CephPoolStat list
      \<Rightarrow> CephPoolStat list \<times> string list \<times> (nat, string) std_map" where
  "resolve_pools e i [] stat = (stat, [], [])"
| "resolve_pools e i (p # ps) stat =
     (let (ret, poolName) = pool_reverse_lookup e p in
      if ret < 0 then resolve_pools e (Suc i) ps (stat[i := (stat ! i)\<lparr>numBytes := - 1\<rparr>])
      else let (stat', ls, pm) = resolve_pools e (Suc i) ps stat
           in (stat', poolName # ls, (i, poolName) # pm))"

definition RadosGetPoolsStat ::
    "rados_env \<Rightarrow> CephPoolStat list \<Rightarrow> u64 list \<Rightarrow> int \<times> CephPoolStat list" where
  "RadosGetPoolsStat e stat poolId =
     (let (stat1, ls, poolMap) = resolve_pools e 0 poolId stat;
          (ret, rawresult) = get_pool_stats e ls
      in if ret \<noteq> 0 then (ret, stat1)
         else (0, foldl (\<lambda>st (i, name).
                   st[i := (st ! i)\<lparr>numKb := num_kb (raw_lookup rawresult name),
                                   numBytes := num_bytes (raw_lookup rawresult name)\<rparr>])
                   stat1 poolMap))"

section \<open>Binding messenger threads to cores\<close>

text \<open>
  A task of the process: its thread id as the directory entry names it, and the first line of
  its status file, if the file can be opened and read. \<open>RadosBindMsgrWorker\<close> returns the
  affinity requests it makes, in order.
\<close>

definition find_sub :: "string \<Rightarrow> string \<Rightarrow> bool" where
  "find_sub needle s \<longleftrightarrow> (\<exists>i < Suc (length s). take (length needle) (drop i s) = needle)"

definition RadosBindCore :: "u32 list \<Rightarrow> u64 \<Rightarrow> nat \<Rightarrow> fault + u64 \<times> u32" where
  "RadosBindCore coreId ii n =
     (if coreId = [] then Inl DivByZero else Inr (ii, coreId ! (n mod length coreId)))"

fun bind_all :: "u32 list \<Rightarrow> nat \<Rightarrow> u64 list \<Rightarrow> fault + (u64 \<times> u32) list" where
  "bind_all coreId n [] = Inr []"
| "bind_all coreId n (ii # iis) =
     (case RadosBindCore coreId ii n of
        Inl f \<Rightarrow> Inl f
      | Inr b \<Rightarrow> (case bind_all coreId (Suc n) iis of Inl f \<Rightarrow> Inl f | Inr bs \<Rightarrow> Inr (b # bs)))"

fun scan_tasks :: "(string \<times> string option) list \<Rightarrow> (u64 list \<times> u64 list) option" where
  "scan_tasks [] = Some ([], [])"
| "scan_tasks ((tid, line) # ts) =
     (case line of
        None \<Rightarrow> None
      | Some l \<Rightarrow>
          (case scan_tasks ts of
             None \<Rightarrow> None
           | Some (m, d) \<Rightarrow>
               Some (if find_sub ''msgr-worker-'' l then strtoull 10 tid # m else m,
                     if find_sub ''ms_dispatch'' l then strtoull 10 tid # d else d)))"

text \<open>Reading a directory: its names without the two dots, as a \<open>std::set\<close>; \<open>None\<close> when it cannot be opened.\<close>

definition easy_readdir :: "int \<Rightarrow> string list option \<Rightarrow> int \<times> string list" where
  "easy_readdir errno entries =
     (case entries of
        None \<Rightarrow> (- errno, [])
      | Some ds \<Rightarrow> (0, std_set_of (filter (\<lambda>d. d \<noteq> ''.'' \<and> d \<noteq> ''..'') ds)))"

lemma easy_readdir_names:
  "easy_readdir errno (Some ds) = (0, ls) \<Longrightarrow> set ls = set ds - {''.'', ''..''} \<and> sorted_wrt (<) ls"
  by (auto simp: easy_readdir_def sorted_std_set_of)


definition RadosBindMsgrWorker ::
    "u32 list \<Rightarrow> (string \<times> string option) list \<Rightarrow> fault + (u64 \<times> u32) list" where
  "RadosBindMsgrWorker coreId tasks =
     (case scan_tasks tasks of
        None \<Rightarrow> Inr []
      | Some (msgr, dispatch) \<Rightarrow>
          let vecBindMsgr = rev (sort msgr);
              vecBindDispatch = rev (sort dispatch)
          in case bind_all coreId 0 vecBindMsgr of
               Inl f \<Rightarrow> Inl f
             | Inr bs \<Rightarrow>
                 (case vecBindDispatch of
                    [] \<Rightarrow> Inr bs
                  | d # _ \<Rightarrow>
                      (case RadosBindCore coreId d (length vecBindMsgr) of
                         Inl f \<Rightarrow> Inl f
                       | Inr b \<Rightarrow> Inr (bs @ [b]))))"


section \<open>A cluster to evaluate the operations on\<close>

text \<open>
  One concrete instance of the librados parameter: two pools, a monitor that refuses the first two
  connection attempts, no authentication. The witnesses of the properties are evaluated on it.
\<close>

definition demo_env :: rados_env where
  "demo_env =
     \<lparr>alloc_ok = True, init_ret = 0, conf_read_file_ret = (\<lambda>_. 0),
      conf_get = (\<lambda>k. if k = ''auth_cluster_required'' then (0, ''none'') else (0, ''4096'')),
      conf_set_ret = (\<lambda>_ _. 0), connect_ret = (\<lambda>n. if n < 2 then -110 else 0),
      ioctx_create_ret = (\<lambda>n. if n = ''rbd'' \<or> n = ''ec'' then 0 else - ENOENT),
      ioctx_create2_ret = (\<lambda>i. if i = 1 \<or> i = 2 then 0 else - ENOENT),
      get_id = (\<lambda>r. if r = ByName ''rbd'' \<or> r = ById 1 then 1 else 2),
      get_pool_name = (\<lambda>r. if r = ByName ''rbd'' \<or> r = ById 1 then ''rbd'' else ''ec''),
      cluster_stat = (0, \<lparr>kb = 100, kb_used = 40, kb_avail = 60, num_objects = 7\<rparr>),
      get_pool_stats = (\<lambda>_. (0, [(''rbd'', zero_pool_stat\<lparr>num_bytes := 4096, num_kb := 4\<rparr>)])),
      pool_reverse_lookup = (\<lambda>i. if i = 1 then (0, ''rbd'') else (- ENOENT, []))\<rparr>"

definition demo_opts :: client_opts where
  "demo_opts = \<lparr>opt_ceph_conf = ''ceph.conf'', opt_keyring = ''kr'', opt_mon_timeout = 0, opt_osd_timeout = 0\<rparr>"

section \<open>Connecting\<close>

fun slept :: "rados_event list \<Rightarrow> nat" where
  "slept [] = 0"
| "slept (EvSleep n # evs) = n + slept evs"
| "slept (_ # evs) = slept evs"

lemma slept_append [simp]: "slept (xs @ ys) = slept xs + slept ys"
  by (induction xs rule: slept.induct) auto

lemma connect_loop_done: "5 \<le> n \<Longrightarrow> connect_loop e n r = (r, [])"
  by (simp add: connect_loop.simps)

lemma connect_loop_step:
  "n < 5 \<Longrightarrow> connect_loop e n r =
     (if connect_ret e n < 0
      then (fst (connect_loop e (Suc n) (connect_ret e n)),
            EvConnect # EvSleep (5 * 2 ^ Suc n) # snd (connect_loop e (Suc n) (connect_ret e n)))
      else (connect_ret e n, [EvConnect]))"
  by (subst connect_loop.simps) (simp add: Let_def split: prod.splits)

lemma connect_loop_events:
  "n \<le> 5 \<Longrightarrow>
   count_list (snd (connect_loop e n r)) EvConnect \<le> 5 - n \<and>
   slept (snd (connect_loop e n r)) \<le> 5 * (2 ^ 6 - 2 ^ Suc n) \<and>
   EvShutdown \<notin> set (snd (connect_loop e n r))"
proof (induction n arbitrary: r rule: inc_induct)
  case base
  then show ?case by (simp add: connect_loop_done)
next
  case (step n)
  have "(2::nat) ^ Suc (Suc n) \<le> 2 ^ 6"
    using step.hyps by (intro power_increasing) auto
  then show ?case
    using step.IH [of "connect_ret e n"] step.hyps
    by (auto simp: connect_loop_step)
qed

lemma connect_loop_success:
  "n \<le> 5 \<Longrightarrow> r < 0 \<or> n < 5 \<Longrightarrow>
   0 \<le> fst (connect_loop e n r) \<longleftrightarrow> (\<exists>i. n \<le> i \<and> i < 5 \<and> 0 \<le> connect_ret e i)"
proof (induction n arbitrary: r rule: inc_induct)
  case base
  then show ?case by (auto simp: connect_loop_done)
next
  case (step n)
  show ?case
  proof (cases "connect_ret e n < 0")
    case True
    have "0 \<le> fst (connect_loop e (Suc n) (connect_ret e n)) \<longleftrightarrow>
        (\<exists>i. Suc n \<le> i \<and> i < 5 \<and> 0 \<le> connect_ret e i)"
      using True by (intro step.IH) auto
    also have "\<dots> \<longleftrightarrow> (\<exists>i. n \<le> i \<and> i < 5 \<and> 0 \<le> connect_ret e i)"
      using True by (metis Suc_le_eq nat_less_le not_le)
    finally show ?thesis using True step.hyps by (simp add: connect_loop_step)
  next
    case False
    then show ?thesis using step.hyps by (auto simp: connect_loop_step)
  qed
qed

lemma count_shutdown_connect: "n \<le> 5 \<Longrightarrow> count_list (snd (connect_loop e n r)) EvShutdown = 0"
  using connect_loop_events [of n e r] by (simp add: count_list_0_iff)



section \<open>I/O contexts\<close>

definition heap_wf :: "ctx_heap \<Rightarrow> bool" where
  "heap_wf h \<longleftrightarrow> distinct (map fst (live h)) \<and> (\<forall>p \<in> fst ` set (live h). p < fresh h)"

lemma heap_wf_new [inv_intros]: "heap_wf h \<Longrightarrow> heap_wf (snd (new_ioctx p h))"
  by (auto simp: heap_wf_def new_ioctx_def less_Suc_eq)

lemma heap_wf_release [inv_intros]:
  "heap_wf h \<Longrightarrow> RadosReleaseIoCtx ctx h = Inr h' \<Longrightarrow> heap_wf h'"
  by (fastforce simp: heap_wf_def RadosReleaseIoCtx_def distinct_map_filter split: option.splits if_splits)

lemma RadosCreateIoCtx2_cases:
  "RadosCreateIoCtx2 e poolId h =
     (if \<not> alloc_ok e then (-1, None, h)
      else if ioctx_create2_ret e poolId < 0
        then (ioctx_create2_ret e poolId, None, snd (new_ioctx (ById poolId) h))
      else (0, Some (fresh h), snd (new_ioctx (ById poolId) h)))"
  by (simp add: RadosCreateIoCtx2_def new_ioctx_def)

lemma RadosCreateIoCtx_cases:
  "RadosCreateIoCtx e pool h =
     (if \<not> alloc_ok e then (-1, None, h)
      else if ioctx_create_ret e (c_str pool) < 0
        then (ioctx_create_ret e (c_str pool), None, snd (new_ioctx (ByName (c_str pool)) h))
      else (0, Some (fresh h), snd (new_ioctx (ByName (c_str pool)) h)))"
  by (simp add: RadosCreateIoCtx_def new_ioctx_def)

lemma live_new_ioctx [simp]:
  "live (snd (new_ioctx p h)) = (fresh h, p) # live h" "fresh (snd (new_ioctx p h)) = Suc (fresh h)"
  by (simp_all add: new_ioctx_def)

lemma RadosCreate_ret_iff:
  "fst (RadosCreateIoCtx2 e i h) = 0 \<longleftrightarrow> fst (snd (RadosCreateIoCtx2 e i h)) \<noteq> None"
  "fst (RadosCreateIoCtx e s h) = 0 \<longleftrightarrow> fst (snd (RadosCreateIoCtx e s h)) \<noteq> None"
  by (auto simp: RadosCreateIoCtx2_cases RadosCreateIoCtx_cases)

text \<open>
  \<open>RadosGetPoolName\<close> on a live context and a buffer of \<open>maxLen\<close> bytes never writes out of
  bounds. It returns \<open>-ERANGE\<close> and leaves the buffer alone exactly when the name does not fit with
  its terminator; otherwise the buffer then holds the name as a C string and keeps its size.
\<close>

theorem RadosGetPoolName_bounds:
  assumes "deref_ioctx ctx h = Inr r" and "length buf = unat maxLen"
  shows "\<exists>ret buf'.
     RadosGetPoolName e ctx buf maxLen h = Inr (ret, buf') \<and> length buf' = length buf \<and>
     (if length (get_pool_name e r) < unat maxLen
      then ret = 0 \<and> c_str buf' = c_str (get_pool_name e r)
      else ret = - ERANGE \<and> buf' = buf)"
proof -
  let ?n = "get_pool_name e r"
  have le: "length (c_str ?n) \<le> length ?n" by (simp add: c_str_def length_takeWhile_le)
  have nul: "takeWhile (\<lambda>c. c \<noteq> CHR 0x00) (c_str ?n @ CHR 0x00 # z) = c_str ?n" for z
    by (subst takeWhile_append2) (auto simp: c_str_def dest: set_takeWhileD)
  show ?thesis
    using assms le nul
    by (auto simp: RadosGetPoolName_def strcpy_c_def Let_def c_str_def [of "_ @ _"])
qed

theorem RadosGetPoolName_bounds_witness:
  "RadosGetPoolName demo_env (Some 0) (replicate 4 (CHR 0xFF)) 4 \<lparr>fresh = 1, live = [(0, ById 1)]\<rparr> =
     Inr (0, ''rbd'' @ [CHR 0x00]) \<and>
   (\<exists>buf'. RadosGetPoolName demo_env (Some 0) (replicate 4 (CHR 0xFF)) 4
      \<lparr>fresh = 1, live = [(0, ById 1)]\<rparr> = Inr (0, buf') \<and> c_str buf' = c_str ''rbd'')"
proof -
  have "RadosGetPoolName demo_env (Some 0) (replicate 4 (CHR 0xFF)) 4 \<lparr>fresh = 1, live = [(0, ById 1)]\<rparr> =
     Inr (0, ''rbd'' @ [CHR 0x00])" by code_simp
  then show ?thesis
    using RadosGetPoolName_bounds [of "Some 0" "\<lparr>fresh = 1, live = [(0, ById 1)]\<rparr>" "ById 1"
        "replicate 4 (CHR 0xFF)" 4 demo_env]
    by (auto simp: deref_ioctx_def demo_env_def)
qed

section \<open>Pool statistics\<close>

lemma resolve_pools_spec:
  "i + length ps \<le> length stat \<Longrightarrow> resolve_pools e i ps stat = (stat', ls, pm) \<Longrightarrow>
   length stat' = length stat \<and>
   (\<forall>j. stat' ! j = (if i \<le> j \<and> j < i + length ps \<and> fst (pool_reverse_lookup e (ps ! (j - i))) < 0
                     then (stat ! j)\<lparr>numBytes := - 1\<rparr> else stat ! j)) \<and>
   pm = map (\<lambda>j. (j, snd (pool_reverse_lookup e (ps ! (j - i)))))
          (filter (\<lambda>j. 0 \<le> fst (pool_reverse_lookup e (ps ! (j - i)))) [i ..< i + length ps]) \<and>
   ls = map snd pm"
proof (induction ps arbitrary: i stat stat' ls pm)
  case Nil
  then show ?case by auto
next
  case (Cons p ps)
  obtain ret name where l: "pool_reverse_lookup e p = (ret, name)" by fastforce
  let ?st = "if ret < 0 then stat[i := (stat ! i)\<lparr>numBytes := - 1\<rparr>] else stat"
  obtain st1 ls1 pm1 where rec: "resolve_pools e (Suc i) ps ?st = (st1, ls1, pm1)"
    by (metis prod.collapse)
  have IH: "length st1 = length ?st \<and>
     (\<forall>j. st1 ! j = (if Suc i \<le> j \<and> j < Suc i + length ps \<and> fst (pool_reverse_lookup e (ps ! (j - Suc i))) < 0
                     then (?st ! j)\<lparr>numBytes := - 1\<rparr> else ?st ! j)) \<and>
     pm1 = map (\<lambda>j. (j, snd (pool_reverse_lookup e (ps ! (j - Suc i)))))
          (filter (\<lambda>j. 0 \<le> fst (pool_reverse_lookup e (ps ! (j - Suc i)))) [Suc i ..< Suc i + length ps]) \<and>
     ls1 = map snd pm1"
    by (rule Cons.IH [OF _ rec]) (use Cons.prems in auto)
  have shift: "(p # ps) ! (j - i) = ps ! (j - Suc i)" if "Suc i \<le> j" for j
    using that by (simp add: nth_Cons' Suc_diff_le)
  have upt: "[i ..< i + length (p # ps)] = i # [Suc i ..< Suc i + length ps]"
    by (simp add: upt_rec)
  have res: "stat' = st1" "ls = (if ret < 0 then ls1 else name # ls1)"
     "pm = (if ret < 0 then pm1 else (i, name) # pm1)"
    using Cons.prems(2) rec l by (auto split: if_splits)
  have pm_eq: "map (\<lambda>j. (j, snd (pool_reverse_lookup e ((p # ps) ! (j - i)))))
          (filter (\<lambda>j. 0 \<le> fst (pool_reverse_lookup e ((p # ps) ! (j - i)))) [Suc i ..< Suc i + length ps]) = pm1"
  proof -
    let ?U = "[Suc i ..< Suc i + length ps]"
    have f: "filter (\<lambda>j. 0 \<le> fst (pool_reverse_lookup e ((p # ps) ! (j - i)))) ?U =
        filter (\<lambda>j. 0 \<le> fst (pool_reverse_lookup e (ps ! (j - Suc i)))) ?U"
      by (rule filter_cong) (auto simp: shift simp del: upt_Suc)
    show ?thesis
      unfolding f using IH by (auto simp: shift simp del: upt_Suc intro!: map_cong)
  qed
  have st1: "st1 ! j = (if i \<le> j \<and> j < i + length (p # ps) \<and> fst (pool_reverse_lookup e ((p # ps) ! (j - i))) < 0
                     then (stat ! j)\<lparr>numBytes := - 1\<rparr> else stat ! j)" for j
  proof (cases "Suc i \<le> j")
    case True
    then show ?thesis using IH shift [OF True] by auto
  next
    case False
    then show ?thesis using IH l Cons.prems(1) by (cases "j = i") auto
  qed
  show ?case
    unfolding res upt using IH pm_eq l st1 by (auto simp del: upt_Suc)
qed

lemma foldl_update_each:
  "distinct (map fst pm) \<Longrightarrow> (\<forall>(j, n) \<in> set pm. j < length st) \<Longrightarrow>
   foldl (\<lambda>st (i, name). st[i := f name (st ! i)]) st pm =
     map (\<lambda>j. case map_of pm j of None \<Rightarrow> st ! j | Some name \<Rightarrow> f name (st ! j)) [0 ..< length st]"
proof (induction pm arbitrary: st)
  case Nil
  then show ?case by (simp add: map_nth)
next
  case (Cons x pm)
  obtain i n where x: "x = (i, n)" by fastforce
  have "foldl (\<lambda>st (i, name). st[i := f name (st ! i)]) (st[i := f n (st ! i)]) pm =
     map (\<lambda>j. case map_of pm j of None \<Rightarrow> st[i := f n (st ! i)] ! j | Some name \<Rightarrow> f name (st[i := f n (st ! i)] ! j))
       [0 ..< length (st[i := f n (st ! i)])]"
    by (rule Cons.IH) (use Cons.prems x in auto)
  moreover have "map_of pm i = None" using Cons.prems x by (auto simp: map_of_eq_None_iff)
  ultimately show ?case
    using x Cons.prems by (auto simp: nth_list_update split: option.splits intro!: nth_equalityI)
qed

definition pools_stat_entry :: "rados_env \<Rightarrow> (string, pool_stat_t) std_map \<Rightarrow> u64 \<Rightarrow> CephPoolStat \<Rightarrow> CephPoolStat" where
  "pools_stat_entry e raw p st =
     (let (ret, name) = pool_reverse_lookup e p in
      if ret < 0 then st\<lparr>numBytes := - 1\<rparr>
      else st\<lparr>numKb := num_kb (raw_lookup raw name), numBytes := num_bytes (raw_lookup raw name)\<rparr>)"

text \<open>
  \<open>RadosGetPoolsStat\<close> is entrywise: when the statistics call succeeds, every requested index
  receives exactly the size figures of its own pool, an index whose pool id is unknown is marked
  with \<open>numBytes = -1\<close> (all ones), and nothing else of the caller's array changes.
\<close>

theorem RadosGetPoolsStat_entrywise:
  assumes len: "length poolId = length stat"
    and ok: "get_pool_stats e (map (\<lambda>p. snd (pool_reverse_lookup e p))
               (filter (\<lambda>p. 0 \<le> fst (pool_reverse_lookup e p)) poolId)) = (0, raw)"
  shows "RadosGetPoolsStat e stat poolId =
           (0, map2 (pools_stat_entry e raw) poolId stat)"
proof -
  obtain st1 ls pm where res: "resolve_pools e 0 poolId stat = (st1, ls, pm)" by (metis prod.collapse)
  let ?lk = "\<lambda>j. pool_reverse_lookup e (poolId ! j)"
  have spec: "length st1 = length stat"
     "\<And>j. st1 ! j = (if j < length poolId \<and> fst (?lk j) < 0 then (stat ! j)\<lparr>numBytes := - 1\<rparr> else stat ! j)"
     "pm = map (\<lambda>j. (j, snd (?lk j))) (filter (\<lambda>j. 0 \<le> fst (?lk j)) [0 ..< length poolId])"
     "ls = map snd pm"
    using resolve_pools_spec [OF _ res] len by auto
  have nths: "poolId = map ((!) poolId) [0 ..< length poolId]" by (simp add: map_nth)
  have "ls = map (\<lambda>p. snd (pool_reverse_lookup e p)) (filter (\<lambda>p. 0 \<le> fst (pool_reverse_lookup e p)) poolId)"
    unfolding spec(4,3) by (subst (3) nths) (simp add: filter_map comp_def)
  then have st: "get_pool_stats e ls = (0, raw)" using ok by simp
  have dist: "distinct (map fst pm)" unfolding spec(3) by (simp add: comp_def distinct_filter)
  have lt: "\<forall>(j, n) \<in> set pm. j < length st1" unfolding spec(3) using spec(1) len by auto
  have mo: "map_of pm j = (if j < length poolId \<and> 0 \<le> fst (?lk j) then Some (snd (?lk j)) else None)" for j
    unfolding spec(3) by (auto simp: map_of_map_restrict restrict_map_def)
  show ?thesis
    unfolding RadosGetPoolsStat_def res Let_def prod.case st
    by (simp add: foldl_update_each [OF dist lt,
          where f = "\<lambda>name s. s\<lparr>numKb := num_kb (raw_lookup raw name), numBytes := num_bytes (raw_lookup raw name)\<rparr>"])
       (use spec(1) len in \<open>auto simp: mo spec(2) pools_stat_entry_def case_prod_beta intro!: nth_equalityI\<close>)
qed

definition zero_CephPoolStat :: CephPoolStat where
  "zero_CephPoolStat =
     \<lparr>numBytes = 0, numKb = 0, numObjects = 0, numObjectClones = 0, numObjectCopies = 0,
      numObjectsMissingOnPrimary = 0, numObjectsUnfound = 0, numObjectsDegraded = 0, numRd = 0,
      numRdKb = 0, numWr = 0, numWrKb = 0, numUserBytes = 0, compressedBytesOrig = 0,
      compressedBytes = 0, compressedBytesAlloc = 0\<rparr>"

theorem RadosGetPoolsStat_entrywise_witness:
  "map numBytes (snd (RadosGetPoolsStat demo_env [zero_CephPoolStat, zero_CephPoolStat] [7, 1])) = [- 1, 4096]"
  using RadosGetPoolsStat_entrywise [of "[7, 1]" "[zero_CephPoolStat, zero_CephPoolStat]" demo_env
      "[(''rbd'', zero_pool_stat\<lparr>num_bytes := 4096, num_kb := 4\<rparr>)]"]
  by (simp add: demo_env_def pools_stat_entry_def raw_lookup_def map_find_def)

section \<open>Core binding\<close>

lemma bind_all_spec:
  "coreId \<noteq> [] \<Longrightarrow>
   bind_all coreId n tids = Inr (map (\<lambda>k. (tids ! k, coreId ! ((n + k) mod length coreId))) [0 ..< length tids])"
proof (induction tids arbitrary: n)
  case (Cons t ts)
  show ?case
    using Cons.prems Cons.IH [of "Suc n"]
    by (auto simp: RadosBindCore_def upt_conv_Cons map_Suc_upt [symmetric] simp del: upt_Suc)
qed simp

end
