(* ===== verification/Ioctx_Table.thy ===== *)
theory Ioctx_Table
  imports Rados_Client
begin

text \<open>
  \<open>ceph_proxy/PoolContext.h\<close>: the table of I/O contexts, one index by pool name (\<open>table1\<close>)
  and one by pool id (\<open>table2\<close>). Every method takes the table's spin lock for its whole body, so a
  method is one atomic step and the lock is not part of the state.

  The theory states the ownership invariant of the table (every context it stores is live and is
  stored once), shows that the operations keep it, that \<open>Clear\<close> and \<open>Delete\<close> release exactly what
  they drop without releasing anything twice, and what the two \<open>Insert\<close> overloads do when the
  key is already there: the one by id refuses, the one by name overwrites.
\<close>

section \<open>The table\<close>

record IOCtxTable =
  table1 :: "(string, rados_ioctx_t) std_map"
  table2 :: "(int, rados_ioctx_t) std_map"

definition IOCtxTable_Init :: "IOCtxTable \<Rightarrow> int \<times> IOCtxTable" where
  "IOCtxTable_Init t = (0, t\<lparr>table1 := [], table2 := []\<rparr>)"

definition Insert_name :: "string \<Rightarrow> rados_ioctx_t \<Rightarrow> IOCtxTable \<Rightarrow> int \<times> IOCtxTable" where
  "Insert_name poolname ioctx t =
     (let ret = (case map_find (table1 t) poolname of None \<Rightarrow> 0 | Some _ \<Rightarrow> -1)
      in (ret, t\<lparr>table1 := map_put poolname ioctx (table1 t)\<rparr>))"

definition Insert_id :: "int \<Rightarrow> rados_ioctx_t \<Rightarrow> IOCtxTable \<Rightarrow> int \<times> IOCtxTable" where
  "Insert_id poolId ioctx t =
     (case map_find (table2 t) poolId of
        Some _ \<Rightarrow> (-1, t)
      | None \<Rightarrow> (0, t\<lparr>table2 := map_put poolId ioctx (table2 t)\<rparr>))"

definition GetIoCtx_name :: "string \<Rightarrow> IOCtxTable \<Rightarrow> rados_ioctx_t" where
  "GetIoCtx_name poolname t =
     (case map_find (table1 t) poolname of None \<Rightarrow> None | Some ioctx \<Rightarrow> ioctx)"

definition GetIoCtx_id :: "int \<Rightarrow> IOCtxTable \<Rightarrow> rados_ioctx_t" where
  "GetIoCtx_id poolId t =
     (case map_find (table2 t) poolId of None \<Rightarrow> None | Some ioctx \<Rightarrow> ioctx)"

definition Delete_name ::
    "string \<Rightarrow> IOCtxTable \<Rightarrow> ctx_heap \<Rightarrow> fault + IOCtxTable \<times> ctx_heap" where
  "Delete_name poolname t h =
     (case map_find (table1 t) poolname of
        None \<Rightarrow> Inr (t, h)
      | Some ioctx \<Rightarrow>
          (case RadosReleaseIoCtx ioctx h of
             Inl f \<Rightarrow> Inl f
           | Inr h' \<Rightarrow> Inr (t\<lparr>table1 := map_erase poolname (table1 t)\<rparr>, h')))"

definition Delete_id ::
    "int \<Rightarrow> IOCtxTable \<Rightarrow> ctx_heap \<Rightarrow> fault + IOCtxTable \<times> ctx_heap" where
  "Delete_id poolId t h =
     (case map_find (table2 t) poolId of
        None \<Rightarrow> Inr (t, h)
      | Some ioctx \<Rightarrow>
          (case RadosReleaseIoCtx ioctx h of
             Inl f \<Rightarrow> Inl f
           | Inr h' \<Rightarrow> Inr (t\<lparr>table2 := map_erase poolId (table2 t)\<rparr>, h')))"

fun release_all :: "rados_ioctx_t list \<Rightarrow> ctx_heap \<Rightarrow> fault + ctx_heap" where
  "release_all [] h = Inr h"
| "release_all (c # cs) h =
     (case RadosReleaseIoCtx c h of Inl f \<Rightarrow> Inl f | Inr h' \<Rightarrow> release_all cs h')"

definition IOCtxTable_Clear :: "IOCtxTable \<Rightarrow> ctx_heap \<Rightarrow> fault + IOCtxTable \<times> ctx_heap" where
  "IOCtxTable_Clear t h =
     (case release_all (map snd (table1 t)) h of
        Inl f \<Rightarrow> Inl f
      | Inr h1 \<Rightarrow>
          (case release_all (map snd (table2 t)) h1 of
             Inl f \<Rightarrow> Inl f
           | Inr h2 \<Rightarrow> Inr (t\<lparr>table1 := [], table2 := []\<rparr>, h2)))"

section \<open>Ownership\<close>

text \<open>The context objects the table owns, in the order \<open>Clear\<close> releases them.\<close>

definition owned :: "IOCtxTable \<Rightarrow> nat list" where
  "owned t = concat (map (\<lambda>c. case c of None \<Rightarrow> [] | Some p \<Rightarrow> [p])
                      (map snd (table1 t) @ map snd (table2 t)))"

definition handles :: "rados_ioctx_t list \<Rightarrow> nat list" where
  "handles cs = concat (map (\<lambda>c. case c of None \<Rightarrow> [] | Some p \<Rightarrow> [p]) cs)"

definition table_inv :: "IOCtxTable \<Rightarrow> ctx_heap \<Rightarrow> bool" where
  "table_inv t h \<longleftrightarrow>
     map_wf (table1 t) \<and> map_wf (table2 t) \<and> heap_wf h \<and>
     distinct (owned t) \<and> set (owned t) \<subseteq> fst ` set (live h)"

lemma handles_simps [simp]:
  "handles [] = []" "handles (None # cs) = handles cs" "handles (Some p # cs) = p # handles cs"
  "handles (cs @ ds) = handles cs @ handles ds"
  by (simp_all add: handles_def)

lemma owned_handles: "owned t = handles (map snd (table1 t)) @ handles (map snd (table2 t))"
  by (simp add: owned_def handles_def)

lemma release_all_spec:
  assumes "distinct (handles cs)" and "set (handles cs) \<subseteq> fst ` set (live h)" and "heap_wf h"
  shows "\<exists>h'. release_all cs h = Inr h' \<and> heap_wf h' \<and> fresh h' = fresh h \<and>
    live h' = filter (\<lambda>x. fst x \<notin> set (handles cs)) (live h)"
  using assms
proof (induction cs arbitrary: h)
  case Nil
  then show ?case by simp
next
  case (Cons c cs)
  show ?case
  proof (cases c)
    case None
    then show ?thesis using Cons by (simp add: RadosReleaseIoCtx_def)
  next
    case (Some p)
    let ?h = "h\<lparr>live := filter (\<lambda>x. fst x \<noteq> p) (live h)\<rparr>"
    have rel: "RadosReleaseIoCtx c h = Inr ?h"
      using Some Cons.prems by (simp add: RadosReleaseIoCtx_def)
    have "set (handles cs) \<subseteq> fst ` set (live ?h)" using Some Cons.prems by force
    moreover have "heap_wf ?h" by (rule heap_wf_release [OF Cons.prems(3) rel])
    ultimately obtain h' where h': "release_all cs ?h = Inr h'" "heap_wf h'" "fresh h' = fresh ?h"
      "live h' = filter (\<lambda>x. fst x \<notin> set (handles cs)) (live ?h)"
      using Cons.IH [of ?h] Cons.prems(1) Some by auto
    then show ?thesis using rel Some by (auto intro!: exI [of _ h'] filter_cong)
  qed
qed

lemma handles_map_put_new:
  "map_wf m \<Longrightarrow> map_find m k = None \<Longrightarrow>
   set (handles (map snd (map_put k c m))) = set (handles [c]) \<union> set (handles (map snd m)) \<and>
   length (handles (map snd (map_put k c m))) = length (handles [c]) + length (handles (map snd m))"
proof (induction k c m rule: map_put.induct)
  case (2 k v k' v' m)
  then show ?case
    by (cases v'; cases v) (auto simp: map_wf_Cons map_find_def split: if_splits)
qed (auto split: option.splits)

lemma distinct_handles_put:
  assumes "map_wf m" "map_find m k = None" "distinct (handles (map snd m))"
    and "set (handles [c]) \<inter> set (handles (map snd m)) = {}"
  shows "distinct (handles (map snd (map_put k c m)))"
proof (rule card_distinct)
  have "length (handles [c]) = card (set (handles [c]))" by (cases c) auto
  then show "card (set (handles (map snd (map_put k c m)))) = length (handles (map snd (map_put k c m)))"
    using handles_map_put_new [OF assms(1,2)] assms(3,4)
    by (simp add: card_Un_disjoint distinct_card)
qed

lemma handle_stored:
  assumes "map_wf m" and "map_find m k = Some (Some q)"
  shows "q \<in> set (handles (map snd m))"
proof -
  have "Some q \<in> set (map snd m)" using assms smap.find_Some_iff by force
  then show ?thesis by (force simp: handles_def)
qed

lemma handles_map_put_old:
  "map_wf m \<Longrightarrow> map_find m k = Some (Some q) \<Longrightarrow> distinct (handles (map snd m)) \<Longrightarrow>
   set (handles (map snd (map_put k (Some p) m))) \<subseteq> insert p (set (handles (map snd m)) - {q})"
proof (induction m)
  case (Cons x m)
  obtain k' v' where x: "x = (k', v')" by fastforce
  consider "k < k'" | "k = k'" | "k' < k" by fastforce
  then show ?case
  proof cases
    case 1
    then have "k \<notin> fst ` set (x # m)" using Cons.prems(1) x by (auto simp: map_wf_Cons)
    then have "map_of (x # m) k = None" by (simp only: map_of_eq_None_iff not_False_eq_True)
    then show ?thesis using Cons.prems(2) by (simp add: map_find_def)
  next
    case 2
    then show ?thesis using Cons.prems x by (auto simp: map_find_def)
  next
    case 3
    have wf: "map_wf m" and old: "map_find m k = Some (Some q)"
      using less_imp_neq [OF 3] Cons.prems x by (auto simp: map_wf_Cons map_find_def)
    have "distinct (handles (map snd m))" using Cons.prems(3) x by (cases v') auto
    then show ?thesis
      using Cons.IH [OF wf old] Cons.prems(3) handle_stored [OF wf old] 3 x by (cases v') auto
  qed
qed simp

section \<open>Properties\<close>

lemma Insert_id_inv [inv_intros]:
  assumes inv: "table_inv t h" and new: "p \<in> fst ` set (live h)" "p \<notin> set (owned t)"
  shows "table_inv (snd (Insert_id k (Some p) t)) h"
proof (cases "map_find (table2 t) k")
  case None
  from inv have wf: "map_wf (table2 t)" by (simp add: table_inv_def)
  note put = handles_map_put_new [OF wf None, of "Some p"]
  have "distinct (handles (map snd (map_put k (Some p) (table2 t))))"
    by (rule distinct_handles_put [OF wf None]) (use inv new in \<open>auto simp: table_inv_def owned_handles\<close>)
  then show ?thesis
    using None inv new put by (auto simp: Insert_id_def table_inv_def owned_handles)
qed (use inv in \<open>simp add: Insert_id_def\<close>)

lemma Insert_name_new_inv [inv_intros]:
  assumes inv: "table_inv t h" and new: "p \<in> fst ` set (live h)" "p \<notin> set (owned t)"
    and None: "map_find (table1 t) k = None"
  shows "table_inv (snd (Insert_name k (Some p) t)) h"
proof -
  from inv have wf: "map_wf (table1 t)" by (simp add: table_inv_def)
  note put = handles_map_put_new [OF wf None, of "Some p"]
  have "distinct (handles (map snd (map_put k (Some p) (table1 t))))"
    by (rule distinct_handles_put [OF wf None]) (use inv new in \<open>auto simp: table_inv_def owned_handles\<close>)
  then show ?thesis
    using inv new put by (auto simp: Insert_name_def Let_def table_inv_def owned_handles)
qed

text \<open>
  The index by pool id never changes an entry; an absent id gets the new context.
\<close>

lemma Insert_id_lookup:
  assumes "map_wf (table2 t)"
  shows "map_find (table2 (snd (Insert_id k c t))) k' =
           (if k' = k \<and> map_find (table2 t) k = None then Some c else map_find (table2 t) k') \<and>
         (fst (Insert_id k c t) = 0 \<longleftrightarrow> map_find (table2 t) k = None) \<and>
         table1 (snd (Insert_id k c t)) = table1 t"
  using assms by (auto simp: Insert_id_def split: option.splits)

text \<open>
  \<open>Clear\<close> on a table that satisfies the ownership invariant releases every context the table
  owns exactly once (no fault), keeps every other context of the process, and leaves an
  empty table that satisfies the invariant again.
\<close>

theorem Clear_releases_all:
  assumes inv: "table_inv t h"
  shows "\<exists>t' h'. IOCtxTable_Clear t h = Inr (t', h') \<and> table1 t' = [] \<and> table2 t' = [] \<and>
     live h' = filter (\<lambda>x. fst x \<notin> set (owned t)) (live h) \<and> table_inv t' h'"
proof -
  let ?c1 = "map snd (table1 t)" and ?c2 = "map snd (table2 t)"
  have d: "distinct (handles ?c1)" "distinct (handles ?c2)" "set (handles ?c1) \<inter> set (handles ?c2) = {}"
    and s: "set (handles ?c1) \<subseteq> fst ` set (live h)" "set (handles ?c2) \<subseteq> fst ` set (live h)" and w: "heap_wf h"
    using inv by (auto simp: table_inv_def owned_handles)
  obtain h1 where h1: "release_all ?c1 h = Inr h1" "heap_wf h1"
    "live h1 = filter (\<lambda>x. fst x \<notin> set (handles ?c1)) (live h)"
    using release_all_spec [OF d(1) s(1) w] by blast
  have "set (handles ?c2) \<subseteq> fst ` set (live h1)" using d(3) s(2) h1(3) by force
  then obtain h2 where h2: "release_all ?c2 h1 = Inr h2" "heap_wf h2"
    "live h2 = filter (\<lambda>x. fst x \<notin> set (handles ?c2)) (live h1)"
    using release_all_spec [OF d(2) _ h1(2)] by blast
  then show ?thesis
    using h1 by (auto simp: IOCtxTable_Clear_def table_inv_def owned_handles intro!: filter_cong)
qed

definition demo_table :: IOCtxTable where
  "demo_table = \<lparr>table1 = [(''rbd'', Some 3)], table2 = [(1, Some 0), (2, Some 2)]\<rparr>"

definition demo_heap :: ctx_heap where
  "demo_heap = \<lparr>fresh = 4, live = [(3, ByName ''rbd''), (2, ById 2), (1, ById 9), (0, ById 1)]\<rparr>"

lemma demo_table_inv: "table_inv demo_table demo_heap"
  by (auto simp: table_inv_def demo_table_def demo_heap_def heap_wf_def owned_handles map_wf_def)

theorem Clear_releases_all_witness:
  "\<exists>t' h'. IOCtxTable_Clear demo_table demo_heap = Inr (t', h') \<and> live h' = [(1, ById 9)]"
  using Clear_releases_all [OF demo_table_inv]
  by (auto simp: demo_table_def demo_heap_def owned_handles)

text \<open>
  \<open>Insert\<close> by pool name does not refuse a name that is already there: it reports \<open>-1\<close> and still
  overwrites the entry. The context stored before stays live and is then owned by nobody, so no later
  \<open>Clear\<close> or \<open>Delete\<close> releases it.
\<close>

theorem Insert_name_overwrites_and_leaks:
  assumes inv: "table_inv t h" and old: "map_find (table1 t) k = Some (Some q)"
    and new: "p \<noteq> q"
  shows "\<exists>t'. Insert_name k (Some p) t = (-1, t') \<and> GetIoCtx_name k t' = Some p \<and>
     q \<in> fst ` set (live h) \<and> q \<notin> set (owned t')"
proof -
  let ?m = "table1 t"
  from inv have wf: "map_wf ?m" by (simp add: table_inv_def)
  have "q \<in> set (handles (map snd ?m))" by (rule handle_stored [OF wf old])
  then have "q \<in> fst ` set (live h)" and "q \<notin> set (handles (map snd (table2 t)))"
    using inv by (auto simp: table_inv_def owned_handles)
  moreover have "q \<notin> set (handles (map snd (map_put k (Some p) ?m)))"
    using handles_map_put_old [OF wf old] inv new by (auto simp: table_inv_def owned_handles)
  ultimately show ?thesis
    using old wf by (auto simp: Insert_name_def GetIoCtx_name_def Let_def owned_handles)
qed

theorem Insert_name_overwrites_and_leaks_witness:
  "\<exists>t'. Insert_name ''rbd'' (Some 1) demo_table = (-1, t') \<and> GetIoCtx_name ''rbd'' t' = Some 1 \<and>
     3 \<in> fst ` set (live demo_heap) \<and> 3 \<notin> set (owned t')"
  by (rule Insert_name_overwrites_and_leaks [OF demo_table_inv])
    (simp_all add: demo_table_def map_find_def)

end
