(* ===== verification/Proxy_Ctx.thy ===== *)
theory Proxy_Ctx
  imports Ioctx_Table
begin

text \<open>
  The pool-facing half of \<open>ceph_proxy/CephProxy.cc\<close>: finding or creating the I/O context
  of a pool, and the queries that open a temporary context. The state is the context
  table of \<open>Ioctx_Table\<close> together with the heap of live contexts.

  The locale \<open>ctx_provider\<close> states what the I/O workers rely on when they ask for a context (an id
  that is known keeps its context, the invariant is kept); it is interpreted on \<open>GetIoCtx2\<close>.
\<close>

section \<open>State and operations\<close>

record proxy_ctx =
  ptable :: IOCtxTable
  ctxs :: ctx_heap

definition GetIoCtx :: "rados_env \<Rightarrow> string \<Rightarrow> proxy_ctx \<Rightarrow> rados_ioctx_t \<times> proxy_ctx" where
  "GetIoCtx e pool s =
     (case GetIoCtx_name pool (ptable s) of
        Some p \<Rightarrow> (Some p, s)
      | None \<Rightarrow>
          (let (ret, ioctx, h) = RadosCreateIoCtx e pool (ctxs s) in
           if ret \<noteq> 0 then (None, s\<lparr>ctxs := h\<rparr>)
           else (ioctx, s\<lparr>ctxs := h, ptable := snd (Insert_name pool ioctx (ptable s))\<rparr>)))"

definition GetIoCtx2 :: "rados_env \<Rightarrow> int \<Rightarrow> proxy_ctx \<Rightarrow> rados_ioctx_t \<times> proxy_ctx" where
  "GetIoCtx2 e poolId s =
     (case GetIoCtx_id poolId (ptable s) of
        Some p \<Rightarrow> (Some p, s)
      | None \<Rightarrow>
          (let (ret, ioctx, h) = RadosCreateIoCtx2 e poolId (ctxs s) in
           if ret \<noteq> 0 then (None, s\<lparr>ctxs := h\<rparr>)
           else (ioctx, s\<lparr>ctxs := h, ptable := snd (Insert_id poolId ioctx (ptable s))\<rparr>)))"

definition GetIoCtxFromCeph :: "rados_env \<Rightarrow> int \<Rightarrow> proxy_ctx \<Rightarrow> rados_ioctx_t \<times> proxy_ctx" where
  "GetIoCtxFromCeph e poolId s =
     (let (ret, ioctx, h) = RadosCreateIoCtx2 e poolId (ctxs s) in
      if ret \<noteq> 0 then (None, s\<lparr>ctxs := h\<rparr>) else (ioctx, s\<lparr>ctxs := h\<rparr>))"

text \<open>
  \<open>int ret = RadosGetPoolId(...)\<close> narrows the 64-bit pool id to 32 bits before it is returned as
  an \<open>int64_t\<close>.
\<close>

definition GetPoolIdByPoolName :: "rados_env \<Rightarrow> string \<Rightarrow> proxy_ctx \<Rightarrow> fault + int \<times> proxy_ctx" where
  "GetPoolIdByPoolName e poolName s =
     (let (ret, ioctx, h) = RadosCreateIoCtx e poolName (ctxs s) in
      if ret \<noteq> 0 then Inr (-1, s\<lparr>ctxs := h\<rparr>)
      else case RadosGetPoolId e ioctx h of
             Inl f \<Rightarrow> Inl f
           | Inr poolid \<Rightarrow>
               (case RadosReleaseIoCtx ioctx h of
                  Inl f \<Rightarrow> Inl f
                | Inr h' \<Rightarrow> Inr (to_i32 poolid, s\<lparr>ctxs := h'\<rparr>)))"

definition GetPoolNameByPoolId ::
    "rados_env \<Rightarrow> int \<Rightarrow> bytes \<Rightarrow> u32 \<Rightarrow> proxy_ctx \<Rightarrow> fault + int \<times> bytes \<times> proxy_ctx" where
  "GetPoolNameByPoolId e poolId buf maxLen s =
     (let (ret, ioctx, h) = RadosCreateIoCtx2 e poolId (ctxs s) in
      if ret \<noteq> 0 then Inr (-1, buf, s\<lparr>ctxs := h\<rparr>)
      else case RadosGetPoolName e ioctx buf maxLen h of
             Inl f \<Rightarrow> Inl f
           | Inr (r, buf') \<Rightarrow>
               (case RadosReleaseIoCtx ioctx h of
                  Inl f \<Rightarrow> Inl f
                | Inr h' \<Rightarrow> Inr (r, buf', s\<lparr>ctxs := h'\<rparr>)))"

definition GetPoolIdByCtx :: "rados_env \<Rightarrow> rados_ioctx_t \<Rightarrow> proxy_ctx \<Rightarrow> fault + int" where
  "GetPoolIdByCtx e ioctx s =
     (case RadosGetPoolId e ioctx (ctxs s) of Inl f \<Rightarrow> Inl f | Inr r \<Rightarrow> Inr (to_i32 r))"

definition GetClusterStat :: "rados_env \<Rightarrow> CephClusterStat \<Rightarrow> int \<times> CephClusterStat" where
  "GetClusterStat e stat = RadosGetClusterStat e stat"

definition GetPoolStat ::
    "rados_env \<Rightarrow> bool \<Rightarrow> rados_ioctx_t \<Rightarrow> proxy_ctx \<Rightarrow> CephPoolStat \<Rightarrow> fault + int \<times> CephPoolStat" where
  "GetPoolStat e client_nonnull ctx s stat = RadosGetPoolStat e client_nonnull ctx (ctxs s) stat"

definition GetPoolsStat ::
    "rados_env \<Rightarrow> CephPoolStat list \<Rightarrow> u64 list \<Rightarrow> int \<times> CephPoolStat list" where
  "GetPoolsStat e stat poolId = RadosGetPoolsStat e stat poolId"

datatype CEPH_BDEV_TYPE_E = CEPH_BDEV_HDD | CEPH_BDEV_SSD | CEPH_BDEV_OTHER

definition GetMinAllocSize :: "rados_env \<Rightarrow> u32 \<Rightarrow> CEPH_BDEV_TYPE_E \<Rightarrow> int \<times> u32" where
  "GetMinAllocSize e minAllocSize type =
     (case type of
        CEPH_BDEV_HDD \<Rightarrow> RadosGetMinAllocSizeHDD e minAllocSize
      | CEPH_BDEV_SSD \<Rightarrow> RadosGetMinAllocSizeSSD e minAllocSize
      | CEPH_BDEV_OTHER \<Rightarrow> RadosGetMinAllocSizeHDD e minAllocSize)"

text \<open>
  The two halves of a concurrent \<open>GetIoCtx2\<close>: the table lookup and, after a miss, the
  creation and insertion. Two threads may both miss before either inserts.
\<close>

definition GetIoCtx2_miss :: "rados_env \<Rightarrow> int \<Rightarrow> proxy_ctx \<Rightarrow> rados_ioctx_t \<times> proxy_ctx" where
  "GetIoCtx2_miss e poolId s =
     (let (ret, ioctx, h) = RadosCreateIoCtx2 e poolId (ctxs s) in
      if ret \<noteq> 0 then (None, s\<lparr>ctxs := h\<rparr>)
      else (ioctx, s\<lparr>ctxs := h, ptable := snd (Insert_id poolId ioctx (ptable s))\<rparr>))"

definition proxy_inv :: "proxy_ctx \<Rightarrow> bool" where
  "proxy_inv s \<longleftrightarrow> table_inv (ptable s) (ctxs s)"

section \<open>What a user of contexts relies on\<close>

locale ctx_provider =
  fixes get :: "'e \<Rightarrow> 'k \<Rightarrow> 's \<Rightarrow> nat option \<times> 's"
    and known :: "'s \<Rightarrow> 'k \<Rightarrow> nat option"
    and valid :: "'s \<Rightarrow> nat \<Rightarrow> bool"
    and inv :: "'s \<Rightarrow> bool"
  assumes get_known: "inv s \<Longrightarrow> known s k = Some p \<Longrightarrow> get e k s = (Some p, s)"
    and get_result: "inv s \<Longrightarrow> get e k s = (Some p, s') \<Longrightarrow> known s' k = Some p"
    and get_keeps: "inv s \<Longrightarrow> get e k s = (r, s') \<Longrightarrow> known s j = Some q \<Longrightarrow> known s' j = Some q"
    and get_inv: "inv s \<Longrightarrow> get e k s = (r, s') \<Longrightarrow> inv s'"
    and known_valid: "inv s \<Longrightarrow> known s k = Some p \<Longrightarrow> valid s p"
begin

primrec get_all :: "('e \<times> 'k) list \<Rightarrow> 's \<Rightarrow> nat option list \<times> 's" where
  "get_all [] s = ([], s)"
| "get_all (q # qs) s =
     (let (r, s1) = get (fst q) (snd q) s; (rs, s2) = get_all qs s1 in (r # rs, s2))"

lemma get_all_keeps:
  "inv s \<Longrightarrow> get_all qs s = (rs, s') \<Longrightarrow>
   inv s' \<and> length rs = length qs \<and> (known s j = Some q \<longrightarrow> known s' j = Some q)"
proof (induction qs arbitrary: s rs)
  case (Cons a qs)
  obtain r s1 where g: "get (fst a) (snd a) s = (r, s1)" by fastforce
  obtain rs1 where ga: "get_all qs s1 = (rs1, s')" "rs = r # rs1"
    using Cons.prems(2) g by (auto split: prod.splits)
  show ?case
    using Cons.IH [OF get_inv [OF Cons.prems(1) g] ga(1)] get_keeps [OF Cons.prems(1) g] ga(2)
    by auto
qed simp

text \<open>Once a request for \<open>k\<close> has succeeded, every later request for \<open>k\<close> gets the same context.\<close>

lemma get_all_same:
  "inv s \<Longrightarrow> known s k = Some p \<Longrightarrow> get_all qs s = (rs, s') \<Longrightarrow>
   i < length qs \<Longrightarrow> snd (qs ! i) = k \<Longrightarrow> rs ! i = Some p"
proof (induction qs arbitrary: s rs i)
  case (Cons a qs)
  obtain r s1 where g: "get (fst a) (snd a) s = (r, s1)" by fastforce
  obtain rs1 where ga: "get_all qs s1 = (rs1, s')" "rs = r # rs1"
    using Cons.prems(3) g by (auto split: prod.splits)
  show ?case
  proof (cases i)
    case 0
    then show ?thesis
      using get_known [OF Cons.prems(1,2)] Cons.prems(5) g ga(2) by (metis fst_conv nth_Cons_0)
  next
    case (Suc j)
    then show ?thesis
      using Cons.IH [OF get_inv [OF Cons.prems(1) g] get_keeps [OF Cons.prems(1) g Cons.prems(2)] ga(1), of j]
        Cons.prems(4,5) ga(2) by simp
  qed
qed simp

lemma get_all_valid:
  "inv s \<Longrightarrow> get_all qs s = (rs, s') \<Longrightarrow> i < length qs \<Longrightarrow> rs ! i = Some p \<Longrightarrow>
   known s' (snd (qs ! i)) = Some p \<and> valid s' p"
proof (induction qs arbitrary: s rs i)
  case (Cons a qs)
  obtain r s1 where g: "get (fst a) (snd a) s = (r, s1)" by fastforce
  obtain rs1 where ga: "get_all qs s1 = (rs1, s')" "rs = r # rs1"
    using Cons.prems(2) g by (auto split: prod.splits)
  note inv1 = get_inv [OF Cons.prems(1) g]
  show ?case
  proof (cases i)
    case 0
    then have "known s1 (snd a) = Some p"
      using get_result [OF Cons.prems(1)] g Cons.prems(4) ga(2) by fastforce
    then show ?thesis
      using get_all_keeps [OF inv1 ga(1), of "snd a" p] known_valid 0 by auto
  next
    case (Suc j)
    then show ?thesis using Cons.IH [OF inv1 ga(1), of j] Cons.prems(3,4) ga(2) by simp
  qed
qed simp

end

section \<open>The proxy meets the contract\<close>

lemma GetIoCtx2_cases:
  obtains (hit) p where "GetIoCtx_id k (ptable s) = Some p" "GetIoCtx2 e k s = (Some p, s)"
  | (noalloc) "GetIoCtx_id k (ptable s) = None" "GetIoCtx2 e k s = (None, s)"
  | (refused) "GetIoCtx_id k (ptable s) = None"
      "GetIoCtx2 e k s = (None, s\<lparr>ctxs := snd (new_ioctx (ById k) (ctxs s))\<rparr>)"
  | (created) "GetIoCtx_id k (ptable s) = None"
      "GetIoCtx2 e k s =
         (Some (fresh (ctxs s)), s\<lparr>ctxs := snd (new_ioctx (ById k) (ctxs s)),
            ptable := snd (Insert_id k (Some (fresh (ctxs s))) (ptable s))\<rparr>)"
proof (cases "GetIoCtx_id k (ptable s)")
  case None
  then have "GetIoCtx2 e k s =
      (if \<not> alloc_ok e then (None, s)
       else if ioctx_create2_ret e k < 0 then (None, s\<lparr>ctxs := snd (new_ioctx (ById k) (ctxs s))\<rparr>)
       else (Some (fresh (ctxs s)), s\<lparr>ctxs := snd (new_ioctx (ById k) (ctxs s)),
            ptable := snd (Insert_id k (Some (fresh (ctxs s))) (ptable s))\<rparr>))"
    by (simp add: GetIoCtx2_def RadosCreateIoCtx2_cases)
  with None show ?thesis
    using that(2-4) by (cases "alloc_ok e"; cases "ioctx_create2_ret e k < 0") simp_all
qed (use that(1) in \<open>simp add: GetIoCtx2_def\<close>)

lemma table_inv_new_ioctx [inv_intros]:
  "table_inv t h \<Longrightarrow> table_inv t (snd (new_ioctx r h))"
  by (auto simp: table_inv_def heap_wf_new)

lemma fresh_not_owned: "table_inv t h \<Longrightarrow> fresh h \<notin> set (owned t)"
  unfolding table_inv_def heap_wf_def by fastforce

lemma GetIoCtx2_inv [inv_intros]: "proxy_inv s \<Longrightarrow> GetIoCtx2 e k s = (r, s') \<Longrightarrow> proxy_inv s'"
proof -
  assume inv: "proxy_inv s" and g: "GetIoCtx2 e k s = (r, s')"
  then have t: "table_inv (ptable s) (ctxs s)" by (simp add: proxy_inv_def)
  show ?thesis
    by (cases rule: GetIoCtx2_cases [of k s e])
      (use inv g t table_inv_new_ioctx [OF t] fresh_not_owned [OF t] Insert_id_inv in
        \<open>auto simp: proxy_inv_def\<close>)
qed

lemma GetIoCtx_id_owned:
  assumes "table_inv t h" and "GetIoCtx_id k t = Some p"
  shows "p \<in> set (owned t)"
proof -
  have "map_find (table2 t) k = Some (Some p)"
    using assms(2) by (auto simp: GetIoCtx_id_def split: option.splits)
  then show ?thesis
    using handle_stored [of "table2 t" k p] assms(1) by (simp add: table_inv_def owned_handles)
qed

text \<open>The entries of the id index are never null: a context is stored only after its creation.\<close>

definition no_null_ids :: "IOCtxTable \<Rightarrow> bool" where
  "no_null_ids t \<longleftrightarrow> (\<forall>c \<in> snd ` set (table2 t). c \<noteq> None)"

lemma Insert_id_GetIoCtx_id:
  assumes "map_wf (table2 t)" and "no_null_ids t" and "GetIoCtx_id k t = None"
  shows "GetIoCtx_id j (snd (Insert_id k (Some p) t)) = (if j = k then Some p else GetIoCtx_id j t)"
    and "no_null_ids (snd (Insert_id k (Some p) t))"
proof -
  have none: "map_find (table2 t) k = None"
    using assms smap.find_Some_iff [OF assms(1), of k]
    by (force simp: GetIoCtx_id_def no_null_ids_def split: option.splits)
  then show "GetIoCtx_id j (snd (Insert_id k (Some p) t)) = (if j = k then Some p else GetIoCtx_id j t)"
    using assms(1) by (simp add: Insert_id_def GetIoCtx_id_def)
  have "snd ` set (map_put k (Some p) m) \<subseteq> insert (Some p) (snd ` set m)" for m :: "(int, rados_ioctx_t) std_map"
    by (induction k "Some p" m rule: map_put.induct) auto
  then show "no_null_ids (snd (Insert_id k (Some p) t))"
    using assms(2) none by (fastforce simp: Insert_id_def no_null_ids_def)
qed

definition provider_inv :: "proxy_ctx \<Rightarrow> bool" where
  "provider_inv s \<longleftrightarrow> proxy_inv s \<and> no_null_ids (ptable s)"

lemma provider_inv_wf: "provider_inv s \<Longrightarrow> map_wf (table2 (ptable s))"
  by (simp add: provider_inv_def proxy_inv_def table_inv_def)

interpretation proxy: ctx_provider GetIoCtx2 "\<lambda>s k. GetIoCtx_id k (ptable s)"
    "\<lambda>s p. p \<in> fst ` set (live (ctxs s))" provider_inv
proof
  fix s s' :: proxy_ctx and e :: rados_env and k j :: int and p q :: nat and r
  show "GetIoCtx2 e k s = (Some p, s)" if "GetIoCtx_id k (ptable s) = Some p"
    using that by (simp add: GetIoCtx2_def)
  show "GetIoCtx_id k (ptable s') = Some p"
    if "provider_inv s" "GetIoCtx2 e k s = (Some p, s')"
    using that Insert_id_GetIoCtx_id [OF provider_inv_wf]
    by (cases rule: GetIoCtx2_cases [of k s e]) (auto simp: provider_inv_def)
  show "GetIoCtx_id j (ptable s') = Some q"
    if "provider_inv s" "GetIoCtx2 e k s = (r, s')" "GetIoCtx_id j (ptable s) = Some q"
    using that Insert_id_GetIoCtx_id [OF provider_inv_wf]
    by (cases rule: GetIoCtx2_cases [of k s e]) (auto simp: provider_inv_def)
  show "provider_inv s'" if "provider_inv s" "GetIoCtx2 e k s = (r, s')"
    using that Insert_id_GetIoCtx_id(2) [OF provider_inv_wf [OF that(1)]] GetIoCtx2_inv [of s e k r s']
    by (cases rule: GetIoCtx2_cases [of k s e]) (auto simp: provider_inv_def)
  show "p \<in> fst ` set (live (ctxs s))" if "provider_inv s" "GetIoCtx_id k (ptable s) = Some p"
    using that GetIoCtx_id_owned [of "ptable s" "ctxs s" k p]
    by (auto simp: provider_inv_def proxy_inv_def table_inv_def)
qed

section \<open>Properties\<close>

text \<open>
  C36: Once \<open>GetIoCtx2\<close> has handed out a context for a pool id, any further sequence of requests,
  for any pools and with librados answering in any way, hands out that same context for that
  id, and it is still a live context afterwards.
\<close>

theorem GetIoCtx2_stable:
  assumes "provider_inv s" and "GetIoCtx2 e k s = (Some p, s1)"
    and "proxy.get_all qs s1 = (rs, s2)" and "i < length qs" and "snd (qs ! i) = k"
  shows "rs ! i = Some p \<and> p \<in> fst ` set (live (ctxs s2)) \<and> provider_inv s2"
proof -
  note inv1 = proxy.get_inv [OF assms(1,2)] and k1 = proxy.get_result [OF assms(1,2)]
  have same: "rs ! i = Some p" by (rule proxy.get_all_same [OF inv1 k1 assms(3-5)])
  then show ?thesis
    using proxy.get_all_valid [OF inv1 assms(3,4) same] proxy.get_all_keeps [OF inv1 assms(3)] by simp
qed

definition demo_proxy :: proxy_ctx where
  "demo_proxy = \<lparr>ptable = demo_table, ctxs = demo_heap\<rparr>"

definition demo_empty :: proxy_ctx where
  "demo_empty = \<lparr>ptable = \<lparr>table1 = [], table2 = []\<rparr>, ctxs = \<lparr>fresh = 0, live = []\<rparr>\<rparr>"

lemma demo_provider_inv: "provider_inv demo_proxy" "provider_inv demo_empty"
  using demo_table_inv
  by (auto simp: provider_inv_def proxy_inv_def no_null_ids_def demo_proxy_def demo_table_def
      demo_empty_def table_inv_def heap_wf_def owned_def)

theorem GetIoCtx2_stable_witness:
  "fst (GetIoCtx2 demo_env 1 demo_empty) = Some 0 \<and>
   fst (proxy.get_all [(demo_env, 2), (demo_env, 7), (demo_env, 1)] (snd (GetIoCtx2 demo_env 1 demo_empty))) ! 2 = Some 0"
proof -
  have g: "GetIoCtx2 demo_env 1 demo_empty = (Some 0, snd (GetIoCtx2 demo_env 1 demo_empty))"
    by (simp add: GetIoCtx2_def RadosCreateIoCtx2_cases demo_empty_def demo_env_def GetIoCtx_id_def)
  show ?thesis
    using GetIoCtx2_stable [OF demo_provider_inv(2) g prod.collapse [symmetric],
        where qs = "[(demo_env, 2), (demo_env, 7), (demo_env, 1)]" and i = 2] arg_cong [OF g, of fst]
    by (simp del: proxy.get_all.simps)
qed

text \<open>
  The temporary context of \<open>GetPoolIdByPoolName\<close>: the call never faults; when librados opens the
  pool the call leaves the set of live contexts as it was and returns the pool id narrowed to
  32 bits; when librados refuses, the call returns \<open>-1\<close> and the context allocated for
  it stays live, so that each failed query leaks one.
\<close>

theorem GetPoolIdByPoolName_balance:
  assumes "heap_wf (ctxs s)" and "alloc_ok e"
  shows "\<exists>r s'. GetPoolIdByPoolName e pool s = Inr (r, s') \<and> ptable s' = ptable s \<and>
     (if 0 \<le> ioctx_create_ret e (c_str pool)
      then r = to_i32 (get_id e (ByName (c_str pool))) \<and> live (ctxs s') = live (ctxs s)
      else r = -1 \<and> live (ctxs s') = (fresh (ctxs s), ByName (c_str pool)) # live (ctxs s))"
proof -
  have "filter (\<lambda>x. fst x \<noteq> fresh (ctxs s)) (live (ctxs s)) = live (ctxs s)"
    using assms(1) by (auto simp: heap_wf_def filter_id_conv)
  then show ?thesis
    using assms(2)
    by (auto simp: GetPoolIdByPoolName_def RadosCreateIoCtx_cases RadosGetPoolId_def deref_ioctx_def
        RadosReleaseIoCtx_def)
qed

theorem GetPoolIdByPoolName_balance_witness:
  "\<exists>r s'. GetPoolIdByPoolName demo_env ''ec'' demo_proxy = Inr (r, s') \<and> r = 2 \<and>
     live (ctxs s') = live demo_heap"
  using GetPoolIdByPoolName_balance [of demo_proxy demo_env "''ec''"] demo_table_inv
  by (auto simp: demo_proxy_def demo_env_def c_str_def table_inv_def)

text \<open>
  Two threads that both miss in the table for the same pool id create two contexts; the second
  insertion is refused by the table and its context, although handed to its caller, is owned by
  nobody: it is live and no later \<open>Clear\<close> releases it.
\<close>

theorem GetIoCtx2_race_leaks:
  assumes inv: "provider_inv s" and miss: "GetIoCtx_id k (ptable s) = None"
    and ok: "alloc_ok e" "0 \<le> ioctx_create2_ret e k"
    and first: "GetIoCtx2_miss e k s = (Some p, s1)" and second: "GetIoCtx2_miss e k s1 = (Some q, s2)"
  shows "p \<noteq> q \<and> GetIoCtx_id k (ptable s2) = Some p \<and> q \<in> fst ` set (live (ctxs s2)) \<and>
         q \<notin> set (owned (ptable s2)) \<and> proxy_inv s2"
proof -
  have p: "p = fresh (ctxs s)" "GetIoCtx2 e k s = (Some p, s1)"
    using miss ok first by (auto simp: GetIoCtx2_def GetIoCtx2_miss_def RadosCreateIoCtx2_cases)
  note inv1 = proxy.get_inv [OF inv p(2)] and k1 = proxy.get_result [OF inv p(2)]
  have fr: "fresh (ctxs s1) = Suc p"
    using miss ok first p(1) by (auto simp: GetIoCtx2_miss_def RadosCreateIoCtx2_cases)
  have "map_find (table2 (ptable s1)) k = Some (Some p)"
    using k1 by (auto simp: GetIoCtx_id_def split: option.splits)
  then have s2: "q = Suc p" "ptable s2 = ptable s1" "ctxs s2 = snd (new_ioctx (ById k) (ctxs s1))"
    using second ok fr by (auto simp: GetIoCtx2_miss_def RadosCreateIoCtx2_cases Insert_id_def)
  have t1: "table_inv (ptable s1) (ctxs s1)" using inv1 by (simp add: provider_inv_def proxy_inv_def)
  show ?thesis
    using s2 k1 fr fresh_not_owned [OF t1] table_inv_new_ioctx [OF t1] by (simp add: proxy_inv_def)
qed

theorem GetIoCtx2_race_leaks_witness:
  "\<exists>s1 s2. GetIoCtx2_miss demo_env 1 demo_empty = (Some 0, s1) \<and> GetIoCtx2_miss demo_env 1 s1 = (Some 1, s2) \<and>
     1 \<in> fst ` set (live (ctxs s2)) \<and> 1 \<notin> set (owned (ptable s2))"
proof -
  have miss: "GetIoCtx_id 1 (ptable demo_empty) = None" by (simp add: demo_empty_def GetIoCtx_id_def)
  have ok: "alloc_ok demo_env" "0 \<le> ioctx_create2_ret demo_env 1" by (simp_all add: demo_env_def)
  obtain s1 where s1: "GetIoCtx2_miss demo_env 1 demo_empty = (Some 0, s1)" "fresh (ctxs s1) = 1"
    using ok by (auto simp: GetIoCtx2_miss_def RadosCreateIoCtx2_cases demo_empty_def)
  obtain s2 where s2: "GetIoCtx2_miss demo_env 1 s1 = (Some 1, s2)"
    using ok s1(2) by (auto simp: GetIoCtx2_miss_def RadosCreateIoCtx2_cases)
  show ?thesis
    using GetIoCtx2_race_leaks [OF demo_provider_inv(2) miss ok s1(1) s2] s1 s2 by blast
qed

end
