(* ===== verification/Sgl.thy ===== *)
theory Sgl
  imports Prelude
begin

text \<open>
  Scatter-gather lists: the structures of \<open>ceph_proxy/sgl.h\<close>, the gathering loop shared by the four
  \<open>RadosWriteOp...SGL\<close> functions of \<open>RadosWrapper.cc\<close>, and the zeroing and scattering loops of
  its \<open>ReadCallback\<close>.

  A chain of \<open>SGL_S\<close> nodes linked by \<open>nextSgl\<close> is the list of its nodes; the null pointer at the end of
  the chain is the empty list. The memory an entry points to is the entry's \<open>buf\<close>, as long as the
  allocation behind it; different entries have different buffers. Members of the
  structures that no code of the adaptor reads (\<open>pageCtrl\<close>, \<open>flag\<close>, \<open>serialNum\<close>, \<open>cpuid\<close>) are left out.
\<close>

section \<open>Structures\<close>

abbreviation ENTRY_PER_SGL :: nat where "ENTRY_PER_SGL \<equiv> 64"
abbreviation DEFAULT_SGL_PAGE :: u32 where "DEFAULT_SGL_PAGE \<equiv> 4096"

record SGL_ENTRY_S =
  buf :: bytes
  len :: u32

record SGL_S =
  entrySumInChain :: u16
  entrySumInSgl :: u16
  entrys :: "SGL_ENTRY_S list"

section \<open>Gathering\<close>

text \<open>
  The loop of \<open>RadosWriteOpWriteSGL\<close>, \<open>WriteFullSGL\<close>, \<open>WriteSameSGL\<close> and \<open>AppendSGL\<close>; the accumulator
  is \<open>writeOp->bl\<close>. The current node is the head of the chain.
\<close>

definition seg_size :: "bool \<Rightarrow> SGL_ENTRY_S \<Rightarrow> u32" where
  "seg_size isRelease e = (if isRelease then DEFAULT_SGL_PAGE else len e)"

function (sequential) gather_loop ::
    "bool \<Rightarrow> SGL_S list \<Rightarrow> nat \<Rightarrow> u32 \<Rightarrow> bytes \<Rightarrow> fault + bytes" where
  "gather_loop isRelease [] i leftLen bl = (if 0 < leftLen then Inl NullDeref else Inr bl)"
| "gather_loop isRelease (sgl # nextSgl) i leftLen bl =
     (if \<not> 0 < leftLen then Inr bl
      else if \<not> (i < length (entrys sgl) \<and> i < ENTRY_PER_SGL) then Inl OutOfBounds
      else
        let e = entrys sgl ! i;
            size1 = min (seg_size isRelease e) leftLen
        in if length (buf e) < unat size1 then Inl OutOfBounds
           else
             let bl' = bl @ take (unat size1) (buf e) in
             if unat (entrySumInSgl sgl) \<le> Suc i
             then gather_loop isRelease nextSgl 0 (leftLen - size1) bl'
             else gather_loop isRelease (sgl # nextSgl) (Suc i) (leftLen - size1) bl')"
  by pat_completeness auto
termination
  by (relation "measures [\<lambda>(_, c, _). length c, \<lambda>(_, _, i, _). ENTRY_PER_SGL - i]") auto

section \<open>Zeroing and scattering\<close>

text \<open>The inner \<open>while (current_entry < sgl->entrySumInSgl)\<close> loop and the walk over the chain.\<close>

fun zero_entries :: "nat \<Rightarrow> SGL_ENTRY_S list \<Rightarrow> fault + SGL_ENTRY_S list" where
  "zero_entries 0 es = Inr es"
| "zero_entries (Suc n) [] = Inl OutOfBounds"
| "zero_entries (Suc n) (e # es) =
     (if length (buf e) < unat (len e) then Inl OutOfBounds
      else case zero_entries n es of
             Inl f \<Rightarrow> Inl f
           | Inr es' \<Rightarrow>
               Inr (e\<lparr>buf := replicate (unat (len e)) (CHR 0x00) @ drop (unat (len e)) (buf e)\<rparr> # es'))"

fun zero_chain :: "SGL_S list \<Rightarrow> fault + SGL_S list" where
  "zero_chain [] = Inr []"
| "zero_chain (sgl # nextSgl) =
     (case zero_entries (unat (entrySumInSgl sgl)) (entrys sgl) of
        Inl f \<Rightarrow> Inl f
      | Inr es \<Rightarrow>
          (case zero_chain nextSgl of
             Inl f \<Rightarrow> Inl f
           | Inr c \<Rightarrow> Inr (sgl\<lparr>entrys := es\<rparr> # c)))"

text \<open>
  The copying loop. It moves on to the next node after \<open>ENTRY_PER_SGL\<close> entries, whatever the
  node's \<open>entrySumInSgl\<close> says. The result is the chain from the current node on.
\<close>

function (sequential) scatter_loop ::
    "bool \<Rightarrow> SGL_S list \<Rightarrow> nat \<Rightarrow> u32 \<Rightarrow> bytes \<Rightarrow> fault + SGL_S list" where
  "scatter_loop buildType [] i leftLen data = (if 0 < leftLen then Inl NullDeref else Inr [])"
| "scatter_loop buildType (sgl # nextSgl) i leftLen data =
     (if \<not> 0 < leftLen then Inr (sgl # nextSgl)
      else if \<not> (i < length (entrys sgl) \<and> i < ENTRY_PER_SGL) then Inl OutOfBounds
      else
        let e = entrys sgl ! i;
            size1 = min (seg_size buildType e) leftLen
        in if length (buf e) < unat size1 then Inl OutOfBounds
           else
             let e' = e\<lparr>buf := take (unat size1) data @ drop (unat size1) (buf e)\<rparr>;
                 sgl' = sgl\<lparr>entrys := (entrys sgl)[i := e']\<rparr>;
                 data' = drop (unat size1) data
             in if ENTRY_PER_SGL \<le> Suc i
                then (case scatter_loop buildType nextSgl 0 (leftLen - size1) data' of
                        Inl f \<Rightarrow> Inl f
                      | Inr c \<Rightarrow> Inr (sgl' # c))
                else scatter_loop buildType (sgl' # nextSgl) (Suc i) (leftLen - size1) data')"
  by pat_completeness auto
termination
  by (relation "measures [\<lambda>(_, c, _). length c, \<lambda>(_, _, i, _). ENTRY_PER_SGL - i]") auto

declare gather_loop.simps [simp del] scatter_loop.simps [simp del]

text \<open>The read-into-SGL branch of \<open>ReadCallback\<close>: \<open>reqLen\<close> is \<open>reqCtx.readSgl.len\<close>.\<close>

definition read_into_sgl ::
    "bool \<Rightarrow> SGL_S list \<Rightarrow> nat \<Rightarrow> bytes \<Rightarrow> fault + SGL_S list" where
  "read_into_sgl buildType chain reqLen results =
     (case (if length results \<noteq> reqLen then zero_chain chain else Inr chain) of
        Inl f \<Rightarrow> Inl f
      | Inr chain1 \<Rightarrow> scatter_loop buildType chain1 0 (of_nat (length results)) results)"

section \<open>The bytes a chain describes\<close>

definition used :: "SGL_S \<Rightarrow> SGL_ENTRY_S list" where
  "used sgl = take (unat (entrySumInSgl sgl)) (entrys sgl)"

definition segs :: "bool \<Rightarrow> SGL_ENTRY_S list \<Rightarrow> nat" where
  "segs isRelease es = sum_list (map (\<lambda>e. unat (seg_size isRelease e)) es)"

definition content :: "bool \<Rightarrow> SGL_ENTRY_S list \<Rightarrow> bytes" where
  "content isRelease es = concat (map (\<lambda>e. take (unat (seg_size isRelease e)) (buf e)) es)"

definition entry_ok :: "bool \<Rightarrow> SGL_ENTRY_S \<Rightarrow> bool" where
  "entry_ok isRelease e \<longleftrightarrow> unat (seg_size isRelease e) \<le> length (buf e)"

definition node_ok :: "bool \<Rightarrow> SGL_S \<Rightarrow> bool" where
  "node_ok isRelease sgl \<longleftrightarrow>
     length (entrys sgl) = ENTRY_PER_SGL \<and> 1 \<le> unat (entrySumInSgl sgl) \<and>
     unat (entrySumInSgl sgl) \<le> ENTRY_PER_SGL \<and> list_all (entry_ok isRelease) (used sgl)"

text \<open>Every node but the last one uses all its entries.\<close>

fun all_full :: "SGL_S list \<Rightarrow> bool" where
  "all_full [] \<longleftrightarrow> True"
| "all_full [sgl] \<longleftrightarrow> True"
| "all_full (sgl # c) \<longleftrightarrow> unat (entrySumInSgl sgl) = ENTRY_PER_SGL \<and> all_full c"

abbreviation chain_entries :: "SGL_S list \<Rightarrow> SGL_ENTRY_S list" where
  "chain_entries c \<equiv> concat (map used c)"

lemma seg_size_update [simp]: "seg_size r (e\<lparr>buf := b\<rparr>) = seg_size r e"
  by (simp add: seg_size_def)

lemma list_all_update: "list_all P xs \<Longrightarrow> P x \<Longrightarrow> list_all P (xs[i := x])"
  by (auto simp: list_all_iff dest!: subsetD [OF set_update_subset_insert])

lemma segs_simps [simp]:
  "segs r [] = 0" "segs r (e # es) = unat (seg_size r e) + segs r es"
  "segs r (es @ fs) = segs r es + segs r fs"
  by (simp_all add: segs_def)

lemma content_simps [simp]:
  "content r [] = []" "content r (e # es) = take (unat (seg_size r e)) (buf e) @ content r es"
  "content r (es @ fs) = content r es @ content r fs"
  by (simp_all add: content_def)

lemma length_content: "list_all (entry_ok r) es \<Longrightarrow> length (content r es) = segs r es"
  by (induction es) (auto simp: entry_ok_def)

lemma length_used: "node_ok r s \<Longrightarrow> length (used s) = unat (entrySumInSgl s)"
  by (simp add: node_ok_def used_def)

lemma node_ok_nth:
  assumes "node_ok r s" and "i < unat (entrySumInSgl s)"
  shows "i < length (entrys s)" "i < 64" "used s ! i = entrys s ! i" "entry_ok r (entrys s ! i)"
    "drop i (used s) = entrys s ! i # drop (Suc i) (used s)"
proof -
  show a: "i < length (entrys s)" "i < 64" "used s ! i = entrys s ! i"
    using assms by (auto simp: node_ok_def used_def)
  have l: "i < length (used s)" using assms length_used by auto
  then show "entry_ok r (entrys s ! i)"
    using assms(1) a(3) by (auto simp: node_ok_def list_all_length)
  show "drop i (used s) = entrys s ! i # drop (Suc i) (used s)"
    using Cons_nth_drop_Suc [OF l] a(3) by simp
qed

section \<open>Gathering returns the bytes the chain describes\<close>

lemma take_min_append:
  "n \<le> length xs \<Longrightarrow> take m (take n xs @ ys) = take (min n m) xs @ take (m - min n m) ys"
  by (cases "m \<le> n") (auto simp: min_def)

lemma gather_loop_content:
  assumes "list_all (node_ok r) c" and "c \<noteq> [] \<Longrightarrow> i < unat (entrySumInSgl (hd c))" and "c = [] \<Longrightarrow> i = 0"
    and "unat l \<le> segs r (drop i (chain_entries c))"
  shows "gather_loop r c i l bl = Inr (bl @ take (unat l) (content r (drop i (chain_entries c))))"
  using assms
proof (induction r c i l bl rule: gather_loop.induct)
  case (1 r i l bl)
  then show ?case by (simp add: gather_loop.simps word_gt_0 unat_eq_0)
next
  case (2 r s c i l bl)
  have ok: "node_ok r s" "list_all (node_ok r) c" and i: "i < unat (entrySumInSgl s)"
    using "2.prems" by auto
  note nth = node_ok_nth [OF ok(1) i]
  let ?e = "entrys s ! i" let ?z = "min (seg_size r ?e) l"
  have lu: "length (used s) = unat (entrySumInSgl s)" using ok(1) by (rule length_used)
  have ent: "drop i (chain_entries (s # c)) = ?e # drop (Suc i) (used s) @ chain_entries c"
    using nth(5) i lu by simp
  have segs_ent: "segs r (drop i (chain_entries (s # c))) =
      unat (seg_size r ?e) + segs r (drop (Suc i) (used s) @ chain_entries c)"
    by (simp only: ent segs_simps)
  have z: "unat ?z = min (unat (seg_size r ?e)) (unat l)" "unat (l - ?z) = unat l - unat ?z"
    using unat_sub_min [of l "seg_size r ?e"] by (simp_all add: unat_min_word)
  have fits: "\<not> length (buf ?e) < unat ?z" using nth(4) z(1) by (auto simp: entry_ok_def)
  show ?case
  proof (cases "0 < l")
    case False
    then show ?thesis by (simp add: gather_loop.simps word_gt_0)
  next
    case pos: True
    have left: "unat (l - ?z) \<le> segs r (drop (Suc i) (used s) @ chain_entries c)"
      using "2.prems"(4) segs_ent z by linarith
    have split: "take (unat l) (content r (drop i (chain_entries (s # c)))) =
        take (unat ?z) (buf ?e) @ take (unat (l - ?z)) (content r (drop (Suc i) (used s) @ chain_entries c))"
      unfolding ent using nth(4) z by (simp add: entry_ok_def take_min_append del: take_append)
    show ?thesis
    proof (cases "unat (entrySumInSgl s) \<le> Suc i")
      case True
      then have nil: "drop (Suc i) (used s) = []" using lu by simp
      have hd: "0 < unat (entrySumInSgl (hd c))" if "c \<noteq> []"
        using that ok(2) by (cases c) (auto simp: node_ok_def)
      have "gather_loop r c 0 (l - ?z) (bl @ take (unat ?z) (buf ?e)) =
          Inr ((bl @ take (unat ?z) (buf ?e)) @ take (unat (l - ?z)) (content r (drop 0 (chain_entries c))))"
        by (rule "2.IH"(1)) (use pos nth fits True ok(2) hd left nil in simp_all)
      then show ?thesis using split nil pos nth fits True by (simp add: gather_loop.simps Let_def)
    next
      case False
      have eq: "drop (Suc i) (chain_entries (s # c)) = drop (Suc i) (used s) @ chain_entries c"
        using False lu by simp
      have "gather_loop r (s # c) (Suc i) (l - ?z) (bl @ take (unat ?z) (buf ?e)) =
          Inr ((bl @ take (unat ?z) (buf ?e)) @
            take (unat (l - ?z)) (content r (drop (Suc i) (chain_entries (s # c)))))"
        by (rule "2.IH"(2)) (use pos nth fits False ok left "2.prems"(1) eq in auto)
      then show ?thesis using split eq pos nth fits False by (simp add: gather_loop.simps Let_def)
    qed
  qed
qed

lemma gather_content:
  assumes "list_all (node_ok r) c" and "unat l \<le> segs r (chain_entries c)"
  shows "gather_loop r c 0 l bl = Inr (bl @ take (unat l) (content r (chain_entries c)))"
proof (cases c)
  case (Cons s t)
  then show ?thesis
    using gather_loop_content [OF assms(1), of 0 l bl] assms by (simp add: node_ok_def)
qed (use assms in \<open>simp add: gather_loop.simps word_gt_0 unat_eq_0\<close>)

section \<open>Scattering fills the entries in order\<close>

primrec fill :: "bool \<Rightarrow> bytes \<Rightarrow> SGL_ENTRY_S list \<Rightarrow> SGL_ENTRY_S list" where
  "fill r data [] = []"
| "fill r data (e # es) =
     (let n = min (unat (seg_size r e)) (length data)
      in e\<lparr>buf := take n data @ drop n (buf e)\<rparr> # fill r (drop n data) es)"

primrec fill_chain :: "bool \<Rightarrow> bytes \<Rightarrow> SGL_S list \<Rightarrow> SGL_S list" where
  "fill_chain r data [] = []"
| "fill_chain r data (s # c) =
     s\<lparr>entrys := fill r data (entrys s)\<rparr> # fill_chain r (drop (segs r (entrys s)) data) c"

lemma fill_Nil [simp]: "fill r [] es = es"
  by (induction es) auto

lemma fill_chain_Nil [simp]: "fill_chain r [] c = c"
  by (induction c) auto

lemma length_fill [simp]: "length (fill r data es) = length es"
  by (induction es arbitrary: data) (auto simp: Let_def)

lemma drop_min_length: "drop (min n (length xs)) xs = drop n xs"
  by (simp add: min_def)

lemma drop_plus_min_length: "drop (a + min n (length xs)) xs = drop (a + n) xs"
  by (cases "n \<le> length xs") (auto simp: min_def)

lemma fill_append: "fill r data (es @ fs) = fill r data es @ fill r (drop (segs r es) data) fs"
  by (induction es arbitrary: data) (auto simp: Let_def drop_plus_min_length add.commute)

lemma take_fill: "take k (fill r data es) = fill r data (take k es)"
  by (induction es arbitrary: k data) (auto simp: Let_def take_Cons split: nat.splits)

lemma segs_fill [simp]: "segs r (fill r data es) = segs r es"
  by (induction es arbitrary: data) (auto simp: Let_def)

lemma content_fill:
  "list_all (entry_ok r) es \<Longrightarrow> length data \<le> segs r es \<Longrightarrow>
   content r (fill r data es) = data @ drop (length data) (content r es)"
proof (induction es arbitrary: data)
  case (Cons e es)
  let ?n = "unat (seg_size r e)"
  have ok: "?n \<le> length (buf e)" using Cons.prems(1) by (simp add: entry_ok_def)
  show ?case
  proof (cases "length data \<le> ?n")
    case True
    then show ?thesis using ok by (simp add: min_def drop_take)
  next
    case False
    have "content r (fill r (drop ?n data) es) = drop ?n data @ drop (length (drop ?n data)) (content r es)"
      by (rule Cons.IH) (use Cons.prems False in auto)
    then show ?thesis using ok False by (simp add: min_def Let_def)
  qed
qed simp

lemma used_fill_chain:
  "all_full c \<Longrightarrow> list_all (node_ok r) c \<Longrightarrow>
   chain_entries (fill_chain r data c) = fill r data (chain_entries c)"
proof (induction c arbitrary: data rule: all_full.induct)
  case (2 s)
  then show ?case by (simp add: used_def take_fill)
next
  case (3 s s' c)
  have "used s = entrys s" using 3 by (simp add: used_def node_ok_def)
  moreover have "used (s\<lparr>entrys := fill r data (entrys s)\<rparr>) = fill r data (entrys s)"
    using 3 by (simp add: used_def node_ok_def)
  ultimately show ?case
    using "3.IH" [of "drop (segs r (entrys s)) data"] "3.prems" by (simp add: fill_append)
qed simp

text \<open>The fill of a node from entry \<open>i\<close> on, the earlier entries being done.\<close>

definition fill_from :: "bool \<Rightarrow> nat \<Rightarrow> bytes \<Rightarrow> SGL_S \<Rightarrow> SGL_S" where
  "fill_from r i data s = s\<lparr>entrys := take i (entrys s) @ fill r data (drop i (entrys s))\<rparr>"

lemma fill_from_0: "fill_from r 0 data s = s\<lparr>entrys := fill r data (entrys s)\<rparr>"
  by (simp add: fill_from_def)

lemma fill_from_step:
  assumes "i < length (entrys s)" and n: "n = min (unat (seg_size r (entrys s ! i))) (length data)"
  shows "fill_from r (Suc i) (drop n data)
           (s\<lparr>entrys := (entrys s)[i := (entrys s ! i)\<lparr>buf := take n data @ drop n (buf (entrys s ! i))\<rparr>]\<rparr>) =
         fill_from r i data s"
  using assms(1) unfolding fill_from_def n
  by (subst (2) Cons_nth_drop_Suc [symmetric]) (auto simp: take_Suc_conv_app_nth Let_def)

lemma used_update: "used (s\<lparr>entrys := (entrys s)[i := e]\<rparr>) = (used s)[i := e]"
  by (simp add: used_def take_update_swap)

lemma all_full_Cons: "all_full (s # c) \<Longrightarrow> all_full c"
  by (cases c) auto

lemma scatter_loop_fill:
  assumes "list_all (node_ok r) c" and "all_full c" and "c \<noteq> [] \<Longrightarrow> i < 64" and "c = [] \<Longrightarrow> i = 0"
    and "unat l \<le> segs r (drop i (chain_entries c))" and "length data = unat l"
  shows "scatter_loop r c i l data =
     Inr (case c of [] \<Rightarrow> [] | s # c' \<Rightarrow>
            fill_from r i data s # fill_chain r (drop (segs r (drop i (entrys s))) data) c')"
  using assms
proof (induction r c i l data rule: scatter_loop.induct)
  case (1 r i l data)
  then show ?case by (simp add: scatter_loop.simps word_gt_0 unat_eq_0)
next
  case (2 r s c i l data)
  have ok: "node_ok r s" "list_all (node_ok r) c" and i64: "i < 64" and full: "all_full c"
    using "2.prems" all_full_Cons by auto
  have lu: "length (used s) = unat (entrySumInSgl s)" and le: "length (entrys s) = 64"
    using ok(1) length_used by (auto simp: node_ok_def)
  show ?case
  proof (cases "0 < l")
    case False
    then have "data = []" using "2.prems"(6) by (simp add: word_gt_0)
    then show ?thesis using False by (simp add: scatter_loop.simps fill_from_def)
  next
    case pos: True
    have i: "i < unat (entrySumInSgl s)"
    proof (rule ccontr)
      assume "\<not> i < unat (entrySumInSgl s)"
      moreover from this have "c = []" using "2.prems"(2) i64 by (cases c) auto
      ultimately show False using "2.prems"(5) pos lu by (simp add: word_gt_0 unat_eq_0)
    qed
    note nth = node_ok_nth [OF ok(1) i]
    let ?e = "entrys s ! i" let ?z = "min (seg_size r ?e) l"
    let ?s = "s\<lparr>entrys := (entrys s)[i := ?e\<lparr>buf := take (unat ?z) data @ drop (unat ?z) (buf ?e)\<rparr>]\<rparr>"
    have z: "unat ?z = min (unat (seg_size r ?e)) (length data)" "unat (l - ?z) = unat l - unat ?z"
      using unat_sub_min [of l "seg_size r ?e"] "2.prems"(6) by (simp_all add: unat_min_word)
    have fits: "\<not> length (buf ?e) < unat ?z" using nth(4) z(1) by (auto simp: entry_ok_def)
    have ent: "drop i (chain_entries (s # c)) = ?e # drop (Suc i) (used s) @ chain_entries c"
      using nth(5) i lu by simp
    have segs_ent: "segs r (drop i (chain_entries (s # c))) =
        unat (seg_size r ?e) + segs r (drop (Suc i) (used s) @ chain_entries c)"
      by (simp only: ent segs_simps)
    have left: "unat (l - ?z) \<le> segs r (drop (Suc i) (used s) @ chain_entries c)"
      and dlen: "length (drop (unat ?z) data) = unat (l - ?z)"
      using "2.prems"(5,6) segs_ent z by (linarith, simp)
    have step: "fill_from r (Suc i) (drop (unat ?z) data) ?s = fill_from r i data s"
      using fill_from_step [OF nth(1) z(1)] by simp
    have segd: "segs r (drop i (entrys s)) = unat (seg_size r ?e) + segs r (drop (Suc i) (entrys s))"
      using nth(1) by (subst Cons_nth_drop_Suc [symmetric]) auto
    have dd: "drop (segs r (drop (Suc i) (entrys s))) (drop (unat ?z) data) =
        drop (segs r (drop i (entrys s))) data"
      by (simp add: segd z(1) add.commute drop_min_length flip: drop_drop)
    show ?thesis
    proof (cases "64 \<le> Suc i")
      case True
      then have i63: "i = 63" using i64 by simp
      have nil: "drop (Suc i) (used s) = []" "drop (Suc i) (entrys s) = []"
        using i63 le by (auto simp: used_def)
      have "scatter_loop r c 0 (l - ?z) (drop (unat ?z) data) =
         Inr (case c of [] \<Rightarrow> [] | s # c' \<Rightarrow>
            fill_from r 0 (drop (unat ?z) data) s #
            fill_chain r (drop (segs r (drop 0 (entrys s))) (drop (unat ?z) data)) c')"
        by (rule "2.IH"(1)) (use pos nth fits True ok full left dlen nil in auto)
      moreover have "fill_from r i data s = ?s"
        using step nil(2) le by (simp add: fill_from_def)
      moreover have "drop (unat ?z) data = drop (segs r (drop i (entrys s))) data"
        using dd nil(2) by simp
      ultimately show ?thesis
        using pos nth fits True
        by (auto simp: scatter_loop.simps Let_def fill_from_0 split: list.splits)
    next
      case False
      have segu: "segs r (drop (Suc i) (chain_entries (?s # c))) = segs r (drop (Suc i) (used s) @ chain_entries c)"
        using i lu by (simp add: used_update)
      have okf: "entry_ok r (?e\<lparr>buf := take (unat ?z) data @ drop (unat ?z) (buf ?e)\<rparr>)"
        using nth(4) z(1) by (auto simp: entry_ok_def)
      have ok': "node_ok r ?s"
        using ok(1) okf by (simp add: node_ok_def used_update list_all_update)
      have okl: "list_all (node_ok r) (?s # c)" using ok' ok(2) by (simp only: list.pred_inject simp_thms)
      have left': "unat (l - ?z) \<le> segs r (drop (Suc i) (chain_entries (?s # c)))"
        using left by (simp only: segu)
      have full': "all_full (?s # c)" using "2.prems"(2) by (cases c) auto
      have "scatter_loop r (?s # c) (Suc i) (l - ?z) (drop (unat ?z) data) =
         Inr (case ?s # c of [] \<Rightarrow> [] | s # c' \<Rightarrow>
            fill_from r (Suc i) (drop (unat ?z) data) s #
            fill_chain r (drop (segs r (drop (Suc i) (entrys s))) (drop (unat ?z) data)) c')"
        by (rule "2.IH"(2) [OF _ _ refl refl _ refl refl refl];
            (rule okl full' left' dlen | use pos nth(1,2) fits False in simp))
      then show ?thesis
        using pos nth fits False step dd by (simp add: scatter_loop.simps Let_def)
    qed
  qed
qed

section \<open>Zeroing\<close>

lemma zero_entries_ok:
  "n \<le> length es \<Longrightarrow> list_all (entry_ok False) (take n es) \<Longrightarrow>
   \<exists>es'. zero_entries n es = Inr es' \<and> length es' = length es \<and>
     list_all (entry_ok False) (take n es') \<and> segs False (take n es') = segs False (take n es) \<and>
     content False (take n es') = replicate (segs False (take n es)) (CHR 0x00)"
  by (induction n es rule: zero_entries.induct)
    (auto simp: entry_ok_def seg_size_def replicate_add)

lemma zero_chain_ok:
  "list_all (node_ok False) c \<Longrightarrow>
   \<exists>c'. zero_chain c = Inr c' \<and> list_all (node_ok False) c' \<and>
     map entrySumInSgl c' = map entrySumInSgl c \<and>
     segs False (chain_entries c') = segs False (chain_entries c) \<and>
     content False (chain_entries c') = replicate (segs False (chain_entries c)) (CHR 0x00)"
proof (induction c)
  case (Cons s c)
  then have ok: "node_ok False s" "list_all (node_ok False) c" by auto
  let ?n = "unat (entrySumInSgl s)"
  obtain es where es: "zero_entries ?n (entrys s) = Inr es" "length es = length (entrys s)"
    "list_all (entry_ok False) (take ?n es)" "segs False (take ?n es) = segs False (used s)"
    "content False (take ?n es) = replicate (segs False (used s)) (CHR 0x00)"
    using zero_entries_ok [of ?n "entrys s"] ok(1) by (auto simp: node_ok_def used_def)
  obtain c' where c': "zero_chain c = Inr c'" "list_all (node_ok False) c'"
     "map entrySumInSgl c' = map entrySumInSgl c"
     "segs False (chain_entries c') = segs False (chain_entries c)"
     "content False (chain_entries c') = replicate (segs False (chain_entries c)) (CHR 0x00)"
    using Cons.IH [OF ok(2)] by blast
  let ?s = "s\<lparr>entrys := es\<rparr>"
  have u: "used ?s = take ?n es" by (simp add: used_def)
  have "node_ok False ?s" using ok(1) es(2,3) u by (simp add: node_ok_def)
  then show ?case
    using es(1,4,5) c' u by (intro exI [of _ "?s # c'"]) (simp add: replicate_add)
qed simp

lemma all_full_iff: "all_full c \<longleftrightarrow> list_all (\<lambda>n. unat n = 64) (butlast (map entrySumInSgl c))"
  by (induction c rule: all_full.induct) simp_all

lemma all_full_cong: "map entrySumInSgl c' = map entrySumInSgl c \<Longrightarrow> all_full c' = all_full c"
  by (simp only: all_full_iff)

lemma entries_ok_chain: "list_all (node_ok r) c \<Longrightarrow> list_all (entry_ok r) (chain_entries c)"
  by (induction c) (auto simp: node_ok_def)

lemma scatter_content:
  assumes "list_all (node_ok r) c" and "all_full c" and "c \<noteq> []"
    and fits: "length data \<le> segs r (chain_entries c)" "length data < 2 ^ 32"
  shows "\<exists>c'. scatter_loop r c 0 (of_nat (length data)) data = Inr c' \<and>
     c' = fill_chain r data c \<and>
     content r (chain_entries c') = data @ drop (length data) (content r (chain_entries c))"
proof -
  obtain s t where c: "c = s # t" using assms(3) by (cases c) auto
  have u: "unat (of_nat (length data) :: u32) = length data"
    using fits(2) by (simp add: unat_of_nat)
  have "scatter_loop r c 0 (of_nat (length data)) data = Inr (fill_chain r data c)"
    using scatter_loop_fill [OF assms(1,2), of 0 "of_nat (length data)" data] u fits(1) c
    by (simp add: fill_from_0)
  then show ?thesis
    using used_fill_chain [OF assms(2,1), of data]
      content_fill [OF entries_ok_chain [OF assms(1)] fits(1)] by simp
qed

section \<open>Properties\<close>

text \<open>
  C33: Gathering a well-formed chain returns exactly the first \<open>leftLen\<close> bytes that its entries
  describe, in chain order, appended to what the buffer already held, and no fault occurs: no entry index, no
  buffer and no node pointer is exceeded when the chain describes at least that many bytes.
\<close>

theorem gather_is_prefix:
  assumes "list_all (node_ok isRelease) chain"
    and "unat leftLen \<le> segs isRelease (chain_entries chain)"
  shows "gather_loop isRelease chain 0 leftLen bl =
           Inr (bl @ take (unat leftLen) (content isRelease (chain_entries chain)))"
  by (rule gather_content [OF assms])

definition demo_entry :: "string \<Rightarrow> SGL_ENTRY_S" where
  "demo_entry s = \<lparr>buf = s, len = of_nat (length s)\<rparr>"

definition demo_node :: "SGL_ENTRY_S list \<Rightarrow> SGL_S" where
  "demo_node es =
     \<lparr>entrySumInChain = 0, entrySumInSgl = of_nat (length es),
      entrys = es @ replicate (64 - length es) (demo_entry [])\<rparr>"

theorem gather_is_prefix_witness:
  "gather_loop False [demo_node [demo_entry ''abc''], demo_node [demo_entry ''de'', demo_entry ''fgh'']] 0 7 ''x'' =
     Inr ''xabcdefg''"
  using gather_is_prefix [of False "[demo_node [demo_entry ''abc''], demo_node [demo_entry ''de'', demo_entry ''fgh'']]" 7 "''x''"]
  by (simp add: node_ok_def demo_node_def demo_entry_def used_def entry_ok_def seg_size_def)

text \<open>
  A read into a chain whose nodes are full except the last one never faults, and afterwards
  the chain describes exactly the bytes read, followed by zeros when the read was shorter or
  longer than requested and by the old contents otherwise.
\<close>

theorem read_into_sgl_fills:
  assumes ok: "list_all (node_ok False) chain" and full: "all_full chain" and ne: "chain \<noteq> []"
    and fits: "length results \<le> segs False (chain_entries chain)" "length results < 2 ^ 32"
  shows "\<exists>chain'. read_into_sgl False chain reqLen results = Inr chain' \<and>
     content False (chain_entries chain') =
       results @ (if length results \<noteq> reqLen
                  then replicate (segs False (chain_entries chain) - length results) (CHR 0x00)
                  else drop (length results) (content False (chain_entries chain)))"
proof (cases "length results = reqLen")
  case True
  then show ?thesis
    using scatter_content [OF ok full ne fits] by (auto simp: read_into_sgl_def)
next
  case False
  obtain c0 where c0: "zero_chain chain = Inr c0" "list_all (node_ok False) c0"
    "map entrySumInSgl c0 = map entrySumInSgl chain"
    "segs False (chain_entries c0) = segs False (chain_entries chain)"
    "content False (chain_entries c0) = replicate (segs False (chain_entries chain)) (CHR 0x00)"
    using zero_chain_ok [OF ok] by blast
  have "all_full c0" "c0 \<noteq> []" using all_full_cong [OF c0(3)] full ne c0(3) by auto
  then show ?thesis
    using scatter_content [OF c0(2), of results] fits c0(1,4,5) False by (auto simp: read_into_sgl_def)
qed

theorem read_into_sgl_fills_witness:
  "\<exists>chain'. read_into_sgl False [demo_node [demo_entry ''abc'', demo_entry ''defg'']] 7 ''wxyz'' = Inr chain' \<and>
     content False (chain_entries chain') = ''wxyz'' @ replicate 3 (CHR 0x00)"
  using read_into_sgl_fills [of "[demo_node [demo_entry ''abc'', demo_entry ''defg'']]" "''wxyz''" 7]
  by (simp add: node_ok_def demo_node_def demo_entry_def used_def entry_ok_def seg_size_def)

text \<open>
  C34: What is read into a chain with full nodes is what a later write gathers from it: scattering
  and then gathering the same number of bytes returns the data, in both build types.
\<close>

theorem scatter_gather_roundtrip:
  assumes "list_all (node_ok r) chain" and "all_full chain" and "chain \<noteq> []"
    and "length data \<le> segs r (chain_entries chain)" and "length data < 2 ^ 32"
  shows "\<exists>chain'. scatter_loop r chain 0 (of_nat (length data)) data = Inr chain' \<and>
           gather_loop r chain' 0 (of_nat (length data)) [] = Inr data"
proof -
  obtain c' where c': "scatter_loop r chain 0 (of_nat (length data)) data = Inr c'" "c' = fill_chain r data chain"
    "content r (chain_entries c') = data @ drop (length data) (content r (chain_entries chain))"
    using scatter_content [OF assms] by blast
  have fok: "list_all (entry_ok r) (fill r d es)" if "list_all (entry_ok r) es" for d es
    using that by (induction es arbitrary: d) (auto simp: entry_ok_def Let_def)
  have "list_all (node_ok r) (fill_chain r d c)" if "list_all (node_ok r) c" for d c
    using that by (induction c arbitrary: d) (auto simp: node_ok_def used_def take_fill fok)
  then have ok': "list_all (node_ok r) c'" using c'(2) assms(1) by simp
  have sg: "segs r (chain_entries c') = segs r (chain_entries chain)"
    using used_fill_chain [OF assms(2,1)] c'(2) by simp
  have u: "unat (of_nat (length data) :: u32) = length data"
    using assms(5) by (simp add: unat_of_nat)
  have "gather_loop r c' 0 (of_nat (length data)) [] = Inr (take (length data) (content r (chain_entries c')))"
    using gather_content [OF ok', of "of_nat (length data)" "[]"] sg assms(4) u by simp
  then show ?thesis using c' by simp
qed

theorem scatter_gather_roundtrip_witness:
  "\<exists>chain'. scatter_loop False [demo_node [demo_entry ''abc'', demo_entry ''defg'']] 0 5 ''vwxyz'' = Inr chain' \<and>
     gather_loop False chain' 0 5 [] = Inr ''vwxyz''"
  using scatter_gather_roundtrip [of False "[demo_node [demo_entry ''abc'', demo_entry ''defg'']]" "''vwxyz''"]
  by (simp add: node_ok_def demo_node_def demo_entry_def used_def entry_ok_def seg_size_def)

text \<open>
  The scattering loop ignores \<open>entrySumInSgl\<close>: on a chain of two one-entry nodes with buffers of
  two bytes, a read of four bytes puts the last two into the unused second entry of the first
  node and leaves the second node as it was, so the chain then describes only half of the data;
  the gathering loop of the write path takes all four bytes from the same chain.
\<close>

theorem scatter_ignores_entry_count:
  "let e = demo_entry ''ab''; n1 = demo_node [e]; n2 = demo_node [demo_entry ''cd''];
       big = n1\<lparr>entrys := (entrys n1)[1 := \<lparr>buf = ''..'', len = 2\<rparr>]\<rparr>
   in gather_loop False [big, n2] 0 4 [] = Inr ''abcd'' \<and>
      (\<exists>c. scatter_loop False [big, n2] 0 4 ''wxyz'' = Inr c \<and> content False (chain_entries c) = ''wxcd'')"
proof -
  define n2 where "n2 = demo_node [demo_entry ''cd'']"
  define big where "big = (demo_node [demo_entry ''ab''])
    \<lparr>entrys := (entrys (demo_node [demo_entry ''ab'']))[1 := \<lparr>buf = ''..'', len = 2\<rparr>]\<rparr>"
  have g: "gather_loop False [big, n2] 0 4 [] = Inr ''abcd''"
    by (simp add: gather_loop.simps big_def n2_def demo_node_def demo_entry_def seg_size_def)
  have "\<exists>c. scatter_loop False [big, n2] 0 4 ''wxyz'' = Inr c \<and> content False (chain_entries c) = ''wxcd''"
    by (simp add: scatter_loop.simps big_def n2_def demo_node_def demo_entry_def seg_size_def used_def)
  with g show ?thesis by (simp add: Let_def big_def n2_def)
qed

end
