(* ===== verification/Rados_Op.thy ===== *)
theory Rados_Op
  imports Std_Map C_String Sgl
begin

text \<open>
  The operation half of \<open>ceph_proxy/RadosWrapper.cc\<close> and the classes of \<open>CephProxyOp.h\<close>: building a
  write or read operation call by call, submitting it, and the completion callbacks that
  deliver results to the caller's memory; the xattr and omap iterators.

  A \<open>librados::ObjectWriteOperation\<close> (\<open>ObjectReadOperation\<close>) is the list of calls made on it, each
  with its arguments; a buffer list handed to librados is copied, so a recorded payload does not
  change afterwards. The caller's memory that an operation will write to (\<open>buffer\<close>, the scatter-gather
  list, \<open>*vals\<close>, the iterators, \<open>pCheckSum\<close>) is a field of the operation.
\<close>

section \<open>Operations\<close>

datatype CephProxyOpType = SINGLE_OP | BATCH_READ_OP | BATCH_WRITE_OP | MOSD_OP

record RadosObjectOperation =
  opType :: CephProxyOpType
  poolId :: int
  poolName :: string
  objectId :: string
  callback :: "nat option"
  cbArg :: nat

abbreviation UNKNOW_POOL_ID :: int where "UNKNOW_POOL_ID \<equiv> -1"

datatype write_call =
    WSetFlags int
  | WAssertExists
  | WAssertVersion u64
  | WCmpext u64 bytes
  | WCmpXattr string u8 bytes
  | WOmapCmp "(string, bytes \<times> int) std_map"
  | WSetXattr string bytes
  | WRmXattr string
  | WCreate bool
  | WWrite u64 bytes
  | WWriteFull bytes
  | WWriteSame u64 u64 bytes
  | WAppend bytes
  | WRemove
  | WTruncate u64
  | WZero u64 u64
  | WOmapSet "(string, bytes) std_map"
  | WOmapRmKeys "string list"
  | WOmapClear
  | WSetAllocHint u64 u64 u32

record RadosObjectWriteOp = RadosObjectOperation +
  w_op :: "write_call list"
  isRemove :: bool
  w_bl :: bytes

text \<open>The iterators: a \<open>std::map\<close> iterator is the key it points to, or \<open>None\<close> for \<open>end()\<close>.\<close>

record RadosXattrsIter =
  attrset :: "(string, bytes) std_map"
  xi :: "string option"
  xval :: "bytes option"

record RadosOmapIter =
  omap_values :: "(string, bytes) std_map"
  oi :: "string option"
  omap_keys :: "string list"

datatype read_call =
    RSetFlags int
  | RAssertExists
  | RAssertVersion u64
  | RCmpext u64 bytes
  | RCmpXattr string u8 bytes
  | RGetXattr string
  | RGetXattrs
  | ROmapGetVals string u64
  | ROmapGetKeys string u64
  | ROmapCmp "(string, bytes \<times> int) std_map"
  | RStat
  | RRead u64 u64
  | RCheckSum int bytes u64 u64 u64
  | RExec string string bytes

record RadosObjectReadOp = RadosObjectOperation +
  r_op :: "read_call list"
  rc_buffer :: "bytes option"
  rc_bytesRead :: "u64 option"
  rc_sgl :: "SGL_S list option"
  rc_sgl_len :: u64
  rc_buildType :: bool
  rc_xname :: "string option"
  rc_xvals :: "bytes option"
  rc_omap :: "RadosOmapIter option"
  rc_xattrs :: "RadosXattrsIter option"
  rc_pCheckSum :: "bytes option"
  rc_chunkSumLen :: u64
  results :: bytes
  checksums :: bytes
  xattrs :: "(string, bytes) std_map"

section \<open>Building a write operation\<close>

type_synonym cbuf = "bytes option"

text \<open>\<open>bufferlist::append(const char *, size_t)\<close> reads that many bytes.\<close>

definition append_buf :: "bytes \<Rightarrow> cbuf \<Rightarrow> u64 \<Rightarrow> fault + bytes" where
  "append_buf bl b n =
     (if n = 0 then Inr bl
      else case b of
             None \<Rightarrow> Inl NullDeref
           | Some m \<Rightarrow> if unat n \<le> length m then Inr (bl @ take (unat n) m) else Inl OutOfBounds)"

definition on_op :: "'a option \<Rightarrow> ('a \<Rightarrow> fault + 'a) \<Rightarrow> fault + 'a option" where
  "on_op op f =
     (case op of
        None \<Rightarrow> Inl NullDeref
      | Some x \<Rightarrow> (case f x of Inl e \<Rightarrow> Inl e | Inr y \<Rightarrow> Inr (Some y)))"

definition on_op_checked :: "'a option \<Rightarrow> ('a \<Rightarrow> fault + 'a) \<Rightarrow> fault + 'a option" where
  "on_op_checked op f = (case op of None \<Rightarrow> Inr None | Some x \<Rightarrow> on_op (Some x) f)"

definition w_call :: "write_call \<Rightarrow> RadosObjectWriteOp \<Rightarrow> RadosObjectWriteOp" where
  "w_call c w = w\<lparr>w_op := w_op w @ [c]\<rparr>"

definition RadosWriteOpInit :: "bool \<Rightarrow> string \<Rightarrow> string \<Rightarrow> RadosObjectWriteOp option" where
  "RadosWriteOpInit alloc pool oid =
     (if alloc then Some \<lparr>opType = BATCH_WRITE_OP, poolId = UNKNOW_POOL_ID, poolName = pool,
        objectId = oid, callback = None, cbArg = 0, w_op = [], isRemove = False, w_bl = []\<rparr>
      else None)"

definition RadosWriteOpInit2 :: "bool \<Rightarrow> int \<Rightarrow> string \<Rightarrow> RadosObjectWriteOp option" where
  "RadosWriteOpInit2 alloc pid oid =
     (if alloc then Some \<lparr>opType = BATCH_WRITE_OP, poolId = pid, poolName = [],
        objectId = oid, callback = None, cbArg = 0, w_op = [], isRemove = False, w_bl = []\<rparr>
      else None)"

definition RadosWriteOpRelease :: "RadosObjectWriteOp option \<Rightarrow> RadosObjectWriteOp option" where
  "RadosWriteOpRelease op = None"

definition RadosWriteOpSetFlags :: "RadosObjectWriteOp option \<Rightarrow> int \<Rightarrow> fault + RadosObjectWriteOp option" where
  "RadosWriteOpSetFlags op flags = on_op_checked op (\<lambda>w. Inr (w_call (WSetFlags flags) w))"

definition RadosWriteOpAssertExists :: "RadosObjectWriteOp option \<Rightarrow> fault + RadosObjectWriteOp option" where
  "RadosWriteOpAssertExists op = on_op op (\<lambda>w. Inr (w_call WAssertExists w))"

definition RadosWriteOpAssertVersion :: "RadosObjectWriteOp option \<Rightarrow> u64 \<Rightarrow> fault + RadosObjectWriteOp option" where
  "RadosWriteOpAssertVersion op ver = on_op op (\<lambda>w. Inr (w_call (WAssertVersion ver) w))"

definition RadosWriteOpCmpext ::
    "RadosObjectWriteOp option \<Rightarrow> cbuf \<Rightarrow> u64 \<Rightarrow> u64 \<Rightarrow> fault + RadosObjectWriteOp option" where
  "RadosWriteOpCmpext op cmpBuf cmpLen off =
     on_op op (\<lambda>w. case append_buf [] cmpBuf cmpLen of
        Inl f \<Rightarrow> Inl f | Inr cmpBl \<Rightarrow> Inr (w_call (WCmpext off cmpBl) w))"

definition RadosWriteOpCmpXattr ::
    "RadosObjectWriteOp option \<Rightarrow> string \<Rightarrow> u8 \<Rightarrow> cbuf \<Rightarrow> u64 \<Rightarrow> fault + RadosObjectWriteOp option" where
  "RadosWriteOpCmpXattr op name compOperator v valLen =
     on_op op (\<lambda>w. case append_buf [] v valLen of
        Inl f \<Rightarrow> Inl f | Inr valueBl \<Rightarrow> Inr (w_call (WCmpXattr name compOperator valueBl) w))"

text \<open>The assertions that \<open>RadosWriteOpOmapCmp\<close> passes on are the empty map it declares.\<close>

definition RadosWriteOpOmapCmp ::
    "RadosObjectWriteOp option \<Rightarrow> string \<Rightarrow> u8 \<Rightarrow> cbuf \<Rightarrow> u64 \<Rightarrow> fault + RadosObjectWriteOp option" where
  "RadosWriteOpOmapCmp op key compOperator v valLen =
     on_op op (\<lambda>w. case append_buf [] v valLen of
        Inl f \<Rightarrow> Inl f | Inr bl \<Rightarrow> Inr (w_call (WOmapCmp []) w))"

definition RadosWriteOpSetXattr ::
    "RadosObjectWriteOp option \<Rightarrow> string \<Rightarrow> cbuf \<Rightarrow> u64 \<Rightarrow> fault + RadosObjectWriteOp option" where
  "RadosWriteOpSetXattr op name v valLen =
     on_op op (\<lambda>w. case append_buf [] v valLen of
        Inl f \<Rightarrow> Inl f | Inr bl \<Rightarrow> Inr (w_call (WSetXattr name bl) w))"

definition RadosWriteOpRemoveXattr :: "RadosObjectWriteOp option \<Rightarrow> string \<Rightarrow> fault + RadosObjectWriteOp option" where
  "RadosWriteOpRemoveXattr op name = on_op op (\<lambda>w. Inr (w_call (WRmXattr name) w))"

definition RadosWriteOpCreateObject :: "RadosObjectWriteOp option \<Rightarrow> int \<Rightarrow> fault + RadosObjectWriteOp option" where
  "RadosWriteOpCreateObject op exclusive = on_op op (\<lambda>w. Inr (w_call (WCreate (exclusive \<noteq> 0)) w))"

definition RadosWriteOpWrite ::
    "RadosObjectWriteOp option \<Rightarrow> cbuf \<Rightarrow> u64 \<Rightarrow> u64 \<Rightarrow> fault + RadosObjectWriteOp option" where
  "RadosWriteOpWrite op buffer n off =
     (if op = None \<or> buffer = None then Inr op
      else on_op op (\<lambda>w. case append_buf (w_bl w) buffer n of
        Inl f \<Rightarrow> Inl f | Inr bl \<Rightarrow> Inr (w_call (WWrite off bl) (w\<lparr>w_bl := bl\<rparr>))))"

record AlignBuffer =
  prevAlignBuffer :: cbuf
  prevAlignLen :: u64
  backAlignBuffer :: cbuf
  backAlignLen :: u64

definition append_align :: "bytes \<Rightarrow> cbuf \<Rightarrow> u64 \<Rightarrow> fault + bytes" where
  "append_align bl b n = (if b \<noteq> None \<and> n \<noteq> 0 then append_buf bl b n else Inr bl)"

definition RadosWriteOpWriteSGL ::
    "RadosObjectWriteOp option \<Rightarrow> SGL_S list \<Rightarrow> u64 \<Rightarrow> u64 \<Rightarrow> AlignBuffer option \<Rightarrow> bool
      \<Rightarrow> fault + RadosObjectWriteOp option" where
  "RadosWriteOpWriteSGL op sgl len1 off alignBuffer isRelease =
     on_op_checked op (\<lambda>w.
       case (case alignBuffer of
               None \<Rightarrow> Inr (w_bl w)
             | Some a \<Rightarrow> append_align (w_bl w) (prevAlignBuffer a) (prevAlignLen a)) of
         Inl f \<Rightarrow> Inl f
       | Inr bl1 \<Rightarrow>
           (case gather_loop isRelease sgl 0 (ucast len1) bl1 of
              Inl f \<Rightarrow> Inl f
            | Inr bl2 \<Rightarrow>
                (case (case alignBuffer of
                         None \<Rightarrow> Inr bl2
                       | Some a \<Rightarrow> append_align bl2 (backAlignBuffer a) (backAlignLen a)) of
                   Inl f \<Rightarrow> Inl f
                 | Inr bl3 \<Rightarrow> Inr (w_call (WWrite off bl3) (w\<lparr>w_bl := bl3\<rparr>)))))"

definition RadosWriteOpWriteFull ::
    "RadosObjectWriteOp option \<Rightarrow> cbuf \<Rightarrow> u64 \<Rightarrow> fault + RadosObjectWriteOp option" where
  "RadosWriteOpWriteFull op buffer n =
     on_op op (\<lambda>w. case append_buf (w_bl w) buffer n of
        Inl f \<Rightarrow> Inl f | Inr bl \<Rightarrow> Inr (w_call (WWriteFull bl) (w\<lparr>w_bl := bl\<rparr>)))"

definition RadosWriteOpWriteFullSGL ::
    "RadosObjectWriteOp option \<Rightarrow> SGL_S list \<Rightarrow> u64 \<Rightarrow> bool \<Rightarrow> fault + RadosObjectWriteOp option" where
  "RadosWriteOpWriteFullSGL op sgl n isRelease =
     on_op op (\<lambda>w. case gather_loop isRelease sgl 0 (ucast n) (w_bl w) of
        Inl f \<Rightarrow> Inl f | Inr bl \<Rightarrow> Inr (w_call (WWriteFull bl) (w\<lparr>w_bl := bl\<rparr>)))"

definition RadosWriteOpWriteSame ::
    "RadosObjectWriteOp option \<Rightarrow> cbuf \<Rightarrow> u64 \<Rightarrow> u64 \<Rightarrow> u64 \<Rightarrow> fault + RadosObjectWriteOp option" where
  "RadosWriteOpWriteSame op buffer dataLen writeLen off =
     on_op op (\<lambda>w. case append_buf (w_bl w) buffer dataLen of
        Inl f \<Rightarrow> Inl f | Inr bl \<Rightarrow> Inr (w_call (WWriteSame off writeLen bl) (w\<lparr>w_bl := bl\<rparr>)))"

definition RadosWriteOpWriteSameSGL ::
    "RadosObjectWriteOp option \<Rightarrow> SGL_S list \<Rightarrow> u64 \<Rightarrow> u64 \<Rightarrow> u64 \<Rightarrow> bool \<Rightarrow> fault + RadosObjectWriteOp option" where
  "RadosWriteOpWriteSameSGL op s dataLen writeLen off isRelease =
     on_op op (\<lambda>w. case gather_loop isRelease s 0 (ucast dataLen) (w_bl w) of
        Inl f \<Rightarrow> Inl f | Inr bl \<Rightarrow> Inr (w_call (WWriteSame off writeLen bl) (w\<lparr>w_bl := bl\<rparr>)))"

definition RadosWriteOpAppend ::
    "RadosObjectWriteOp option \<Rightarrow> cbuf \<Rightarrow> u64 \<Rightarrow> fault + RadosObjectWriteOp option" where
  "RadosWriteOpAppend op buffer n =
     on_op op (\<lambda>w. case append_buf (w_bl w) buffer n of
        Inl f \<Rightarrow> Inl f | Inr bl \<Rightarrow> Inr (w_call (WAppend bl) (w\<lparr>w_bl := bl\<rparr>)))"

definition RadosWriteOpAppendSGL ::
    "RadosObjectWriteOp option \<Rightarrow> SGL_S list \<Rightarrow> u64 \<Rightarrow> bool \<Rightarrow> fault + RadosObjectWriteOp option" where
  "RadosWriteOpAppendSGL op s n isRelease =
     on_op op (\<lambda>w. case gather_loop isRelease s 0 (ucast n) (w_bl w) of
        Inl f \<Rightarrow> Inl f | Inr bl \<Rightarrow> Inr (w_call (WAppend bl) (w\<lparr>w_bl := bl\<rparr>)))"

definition RadosWriteOpRemove :: "RadosObjectWriteOp option \<Rightarrow> fault + RadosObjectWriteOp option" where
  "RadosWriteOpRemove op = on_op_checked op (\<lambda>w. Inr ((w_call WRemove w)\<lparr>isRemove := True\<rparr>))"

definition RadosWriteOpTruncate :: "RadosObjectWriteOp option \<Rightarrow> u64 \<Rightarrow> fault + RadosObjectWriteOp option" where
  "RadosWriteOpTruncate op off = on_op op (\<lambda>w. Inr (w_call (WTruncate off) w))"

definition RadosWriteOpZero :: "RadosObjectWriteOp option \<Rightarrow> u64 \<Rightarrow> u64 \<Rightarrow> fault + RadosObjectWriteOp option" where
  "RadosWriteOpZero op off n = on_op op (\<lambda>w. Inr (w_call (WZero off n) w))"

text \<open>The loop over the parallel arrays \<open>keys\<close>, \<open>vals\<close>, \<open>lens\<close>.\<close>

fun omap_collect ::
    "nat \<Rightarrow> string list \<Rightarrow> bytes list \<Rightarrow> u64 list \<Rightarrow> (string, bytes) std_map
      \<Rightarrow> fault + (string, bytes) std_map" where
  "omap_collect 0 ks vs ls entries = Inr entries"
| "omap_collect (Suc n) (k # ks) (v # vs) (l # ls) entries =
     (if length v < unat l then Inl OutOfBounds
      else omap_collect n ks vs ls (map_put (c_str k) (take (unat l) v) entries))"
| "omap_collect (Suc n) _ _ _ entries = Inl OutOfBounds"

definition RadosWriteOpOmapSet ::
    "RadosObjectWriteOp option \<Rightarrow> string list \<Rightarrow> bytes list \<Rightarrow> u64 list \<Rightarrow> nat
      \<Rightarrow> fault + RadosObjectWriteOp option" where
  "RadosWriteOpOmapSet op keys vals lens num =
     on_op op (\<lambda>w. case omap_collect num keys vals lens [] of
        Inl f \<Rightarrow> Inl f | Inr entries \<Rightarrow> Inr (w_call (WOmapSet entries) w))"

definition RadosWriteOpOmapRmKeys ::
    "RadosObjectWriteOp option \<Rightarrow> string list \<Rightarrow> nat \<Rightarrow> fault + RadosObjectWriteOp option" where
  "RadosWriteOpOmapRmKeys op keys keysLen =
     on_op op (\<lambda>w. if length keys < keysLen then Inl OutOfBounds
        else Inr (w_call (WOmapRmKeys (std_set_of (map c_str (take keysLen keys)))) w))"

definition RadosWriteOpOmapClear :: "RadosObjectWriteOp option \<Rightarrow> fault + RadosObjectWriteOp option" where
  "RadosWriteOpOmapClear op = on_op op (\<lambda>w. Inr (w_call WOmapClear w))"

definition RadosWriteOpSetAllocHint ::
    "RadosObjectWriteOp option \<Rightarrow> u64 \<Rightarrow> u64 \<Rightarrow> u32 \<Rightarrow> fault + RadosObjectWriteOp option" where
  "RadosWriteOpSetAllocHint op expectedObjSize expectedWriteSize flags =
     on_op op (\<lambda>w. Inr (w_call (WSetAllocHint expectedObjSize expectedWriteSize flags) w))"

lemmas write_op_defs [op_defs] = on_op_def on_op_checked_def w_call_def append_buf_def append_align_def

section \<open>Building a read operation\<close>

definition r_call :: "read_call \<Rightarrow> RadosObjectReadOp \<Rightarrow> RadosObjectReadOp" where
  "r_call c r = r\<lparr>r_op := r_op r @ [c]\<rparr>"

definition new_read_op :: "int \<Rightarrow> string \<Rightarrow> string \<Rightarrow> RadosObjectReadOp" where
  "new_read_op pid pool oid =
     \<lparr>opType = BATCH_READ_OP, poolId = pid, poolName = pool, objectId = oid, callback = None, cbArg = 0,
      r_op = [], rc_buffer = None, rc_bytesRead = None, rc_sgl = None, rc_sgl_len = 0, rc_buildType = False,
      rc_xname = None, rc_xvals = None, rc_omap = None, rc_xattrs = None, rc_pCheckSum = None,
      rc_chunkSumLen = 0, results = [], checksums = [], xattrs = []\<rparr>"

definition RadosReadOpInit :: "bool \<Rightarrow> string \<Rightarrow> string \<Rightarrow> RadosObjectReadOp option" where
  "RadosReadOpInit alloc pool oid = (if alloc then Some (new_read_op UNKNOW_POOL_ID pool oid) else None)"

definition RadosReadOpInit2 :: "bool \<Rightarrow> int \<Rightarrow> string \<Rightarrow> RadosObjectReadOp option" where
  "RadosReadOpInit2 alloc pid oid = (if alloc then Some (new_read_op pid [] oid) else None)"

definition RadosReadOpRelease :: "RadosObjectReadOp option \<Rightarrow> RadosObjectReadOp option" where
  "RadosReadOpRelease op = None"

definition RadosReadOpSetFlags :: "RadosObjectReadOp option \<Rightarrow> int \<Rightarrow> fault + RadosObjectReadOp option" where
  "RadosReadOpSetFlags op flags = on_op op (\<lambda>r. Inr (r_call (RSetFlags flags) r))"

definition RadosReadOpAssertExists :: "RadosObjectReadOp option \<Rightarrow> fault + RadosObjectReadOp option" where
  "RadosReadOpAssertExists op = on_op op (\<lambda>r. Inr (r_call RAssertExists r))"

definition RadosReadOpAssertVersion :: "RadosObjectReadOp option \<Rightarrow> u64 \<Rightarrow> fault + RadosObjectReadOp option" where
  "RadosReadOpAssertVersion op ver = on_op op (\<lambda>r. Inr (r_call (RAssertVersion ver) r))"

definition RadosReadOpCmpext ::
    "RadosObjectReadOp option \<Rightarrow> cbuf \<Rightarrow> u64 \<Rightarrow> u64 \<Rightarrow> fault + RadosObjectReadOp option" where
  "RadosReadOpCmpext op cmpBuf cmpLen off =
     on_op op (\<lambda>r. case append_buf [] cmpBuf cmpLen of
        Inl f \<Rightarrow> Inl f | Inr bl \<Rightarrow> Inr (r_call (RCmpext off bl) r))"

definition RadosReadOpCmpXattr ::
    "RadosObjectReadOp option \<Rightarrow> string \<Rightarrow> u8 \<Rightarrow> cbuf \<Rightarrow> u64 \<Rightarrow> fault + RadosObjectReadOp option" where
  "RadosReadOpCmpXattr op name compOperator v valueLen =
     on_op op (\<lambda>r. case append_buf [] v valueLen of
        Inl f \<Rightarrow> Inl f | Inr bl \<Rightarrow> Inr (r_call (RCmpXattr name compOperator bl) r))"

definition RadosReadOpGetXattr ::
    "RadosObjectReadOp option \<Rightarrow> string \<Rightarrow> bytes option \<Rightarrow> fault + RadosObjectReadOp option" where
  "RadosReadOpGetXattr op name val =
     on_op op (\<lambda>r. Inr (r_call (RGetXattr name)
        (r\<lparr>rc_xvals := val, rc_xname := Some name, xattrs := map_insert_new name [] (xattrs r)\<rparr>)))"

definition RadosReadOpGetXattrs :: "bool \<Rightarrow> RadosObjectReadOp option \<Rightarrow> fault + RadosObjectReadOp option" where
  "RadosReadOpGetXattrs alloc op =
     (if \<not> alloc then Inr op
      else on_op op (\<lambda>r. Inr ((r_call RGetXattrs r)
             \<lparr>rc_xattrs := Some \<lparr>attrset = [], xi = None, xval = None\<rparr>\<rparr>)))"

definition RadosReadOpOmapGetVals ::
    "bool \<Rightarrow> RadosObjectReadOp option \<Rightarrow> string option \<Rightarrow> u64 \<Rightarrow> fault + RadosObjectReadOp option" where
  "RadosReadOpOmapGetVals alloc op startAfter maxReturn =
     (if \<not> alloc then Inr op
      else let start = (case startAfter of None \<Rightarrow> [] | Some s \<Rightarrow> s)
           in on_op op (\<lambda>r. Inr (r_call (ROmapGetVals start maxReturn)
                (r\<lparr>rc_omap := Some \<lparr>omap_values = [], oi = None, omap_keys = []\<rparr>\<rparr>))))"

definition RadosReadOpOmapGetKeys ::
    "bool \<Rightarrow> RadosObjectReadOp option \<Rightarrow> string option \<Rightarrow> u64 \<Rightarrow> fault + RadosObjectReadOp option" where
  "RadosReadOpOmapGetKeys alloc op startAfter maxReturn =
     (if \<not> alloc then Inr op
      else let start = (case startAfter of None \<Rightarrow> [] | Some s \<Rightarrow> s)
           in on_op op (\<lambda>r. Inr (r_call (ROmapGetKeys start maxReturn)
                (r\<lparr>rc_omap := Some \<lparr>omap_values = [], oi = None, omap_keys = []\<rparr>\<rparr>))))"

definition RadosReadOpOmapCmp ::
    "RadosObjectReadOp option \<Rightarrow> string \<Rightarrow> u8 \<Rightarrow> cbuf \<Rightarrow> u64 \<Rightarrow> fault + RadosObjectReadOp option" where
  "RadosReadOpOmapCmp op key compOperator v valLen =
     on_op op (\<lambda>r. case append_buf [] v valLen of
        Inl f \<Rightarrow> Inl f
      | Inr bl \<Rightarrow> Inr (r_call (ROmapCmp (map_put (c_str key) (bl, uint compOperator) [])) r))"

definition RadosReadOpStat :: "RadosObjectReadOp option \<Rightarrow> fault + RadosObjectReadOp option" where
  "RadosReadOpStat op = on_op_checked op (\<lambda>r. Inr (r_call RStat r))"

definition RadosReadOpRead ::
    "RadosObjectReadOp option \<Rightarrow> u64 \<Rightarrow> u64 \<Rightarrow> bytes option \<Rightarrow> u64 option
      \<Rightarrow> fault + RadosObjectReadOp option" where
  "RadosReadOpRead op offset n buffer bytesRead =
     (if op = None \<or> buffer = None \<or> bytesRead = None then Inr op
      else on_op op (\<lambda>r. Inr (r_call (RRead offset n) (r\<lparr>rc_buffer := buffer, rc_bytesRead := bytesRead\<rparr>))))"

definition RadosReadOpReadSGL ::
    "RadosObjectReadOp option \<Rightarrow> u64 \<Rightarrow> u64 \<Rightarrow> SGL_S list option \<Rightarrow> bool
      \<Rightarrow> fault + RadosObjectReadOp option" where
  "RadosReadOpReadSGL op offset n sgl isRelease =
     on_op_checked op (\<lambda>r. Inr (r_call (RRead offset n)
        (r\<lparr>rc_sgl := sgl, rc_sgl_len := n, rc_buildType := isRelease\<rparr>)))"

definition RadosReadOpCheckSum ::
    "RadosObjectReadOp option \<Rightarrow> int \<Rightarrow> cbuf \<Rightarrow> u64 \<Rightarrow> u64 \<Rightarrow> u64 \<Rightarrow> u64 \<Rightarrow> bytes option \<Rightarrow> u64
      \<Rightarrow> fault + RadosObjectReadOp option" where
  "RadosReadOpCheckSum op type initValue initValueLen offset n chunkSize pCheckSum checkSumLen =
     on_op op (\<lambda>r. case append_buf [] initValue initValueLen of
        Inl f \<Rightarrow> Inl f
      | Inr bl \<Rightarrow> Inr (r_call (RCheckSum type bl offset n chunkSize)
          (r\<lparr>rc_pCheckSum := pCheckSum, rc_chunkSumLen := checkSumLen\<rparr>)))"

text \<open>
  \<open>reqCtx.exec\<close> is stored by \<open>RadosReadOpExec\<close> and read by nobody; only the librados call is kept.
\<close>

definition RadosReadOpExec ::
    "RadosObjectReadOp option \<Rightarrow> string \<Rightarrow> string \<Rightarrow> cbuf \<Rightarrow> u64 \<Rightarrow> fault + RadosObjectReadOp option" where
  "RadosReadOpExec op cls method inBuf inLen =
     on_op op (\<lambda>r. case append_buf [] inBuf inLen of
        Inl f \<Rightarrow> Inl f | Inr inbl \<Rightarrow> Inr (r_call (RExec cls method inbl) r))"

section \<open>Iterators\<close>

text \<open>The key after \<open>k\<close> in iteration order, \<open>None\<close> for \<open>end()\<close>; \<open>begin()\<close> is the first key.\<close>

definition map_begin :: "('k, 'v) std_map \<Rightarrow> 'k option" where
  "map_begin m = (case m of [] \<Rightarrow> None | kv # _ \<Rightarrow> Some (fst kv))"

fun map_next :: "('k::linorder, 'v) std_map \<Rightarrow> 'k \<Rightarrow> 'k option" where
  "map_next [] k = None"
| "map_next ((k', v) # m) k = (if k < k' then Some k' else map_next m k)"

definition RadosGetXattrsNext ::
    "bool \<Rightarrow> RadosXattrsIter \<Rightarrow> fault + int \<times> (string option \<times> bytes option \<times> nat) option \<times> RadosXattrsIter" where
  "RadosGetXattrsNext malloc_ok it =
     (let it1 = it\<lparr>xval := None\<rparr> in
      case xi it1 of
        None \<Rightarrow> Inr (0, Some (None, None, 0), it1)
      | Some k \<Rightarrow>
          (case map_find (attrset it1) k of
             None \<Rightarrow> Inl OutOfBounds
           | Some bl \<Rightarrow>
               let blLen = length bl;
                   adv = it1\<lparr>xi := map_next (attrset it1) k\<rparr>
               in if blLen = 0 then Inr (0, Some (Some k, None, 0), adv)
                  else if \<not> malloc_ok then Inr (- ENOMEM, None, it1)
                  else Inr (0, Some (Some k, Some bl, blLen), adv\<lparr>xval := Some bl\<rparr>)))"

text \<open>The four output pointers are all non-null; \<open>None\<close> is the end marker (null pointers, zero lengths).\<close>

definition RadosOmapGetNext ::
    "RadosOmapIter \<Rightarrow> fault + (string \<times> bytes) option \<times> RadosOmapIter" where
  "RadosOmapGetNext it =
     (case oi it of
        None \<Rightarrow> Inr (None, it)
      | Some k \<Rightarrow>
          (case map_find (omap_values it) k of
             None \<Rightarrow> Inl OutOfBounds
           | Some bl \<Rightarrow> Inr (Some (k, bl), it\<lparr>oi := map_next (omap_values it) k\<rparr>)))"

definition RadosOmapIterSize :: "RadosOmapIter \<Rightarrow> nat" where
  "RadosOmapIterSize it = length (omap_values it)"

definition RadosGetXattrsEnd :: "RadosXattrsIter option \<Rightarrow> RadosXattrsIter option" where
  "RadosGetXattrsEnd it = None"

definition RadosOmapIterEnd :: "RadosOmapIter option \<Rightarrow> RadosOmapIter option" where
  "RadosOmapIterEnd it = None"

section \<open>Submission and completion\<close>

text \<open>
  \<open>memcpy\<close> into caller memory. \<open>bufferlist::c_str\<close> of \<open>n\<close> bytes gives exactly \<open>n\<close> readable bytes.
\<close>

definition memcpy_c :: "bytes \<Rightarrow> bytes \<Rightarrow> nat \<Rightarrow> fault + bytes" where
  "memcpy_c dst src n =
     (if n \<le> length dst \<and> n \<le> length src then Inr (take n src @ drop n dst) else Inl OutOfBounds)"

text \<open>The user callback that a completion makes: function, return code, argument.\<close>

type_synonym cb_event = "nat \<times> int \<times> nat"

definition rc_deliver_data :: "RadosObjectReadOp \<Rightarrow> fault + RadosObjectReadOp" where
  "rc_deliver_data r =
     (case rc_buffer r of
        Some buffer \<Rightarrow>
          (case memcpy_c buffer (results r) (length (results r)) of
             Inl f \<Rightarrow> Inl f | Inr b \<Rightarrow> Inr (r\<lparr>rc_buffer := Some b\<rparr>))
      | None \<Rightarrow>
          (case rc_sgl r of
             None \<Rightarrow> Inr r
           | Some sgl \<Rightarrow>
               (case read_into_sgl (rc_buildType r) sgl (unat (rc_sgl_len r)) (results r) of
                  Inl f \<Rightarrow> Inl f | Inr c \<Rightarrow> Inr (r\<lparr>rc_sgl := Some c\<rparr>))))"

definition rc_deliver_xattr :: "RadosObjectReadOp \<Rightarrow> fault + RadosObjectReadOp" where
  "rc_deliver_xattr r =
     (case rc_xname r of
        None \<Rightarrow> Inr r
      | Some name \<Rightarrow>
          let bl = (case map_find (xattrs r) name of None \<Rightarrow> [] | Some b \<Rightarrow> b);
              r1 = r\<lparr>xattrs := map_insert_new name [] (xattrs r)\<rparr>
          in (case rc_xvals r of
                None \<Rightarrow> Inl NullDeref
              | Some vals \<Rightarrow>
                  (case memcpy_c vals bl (length bl) of
                     Inl f \<Rightarrow> Inl f | Inr b \<Rightarrow> Inr (r1\<lparr>rc_xvals := Some b\<rparr>))))"

definition rc_start_iters :: "RadosObjectReadOp \<Rightarrow> RadosObjectReadOp" where
  "rc_start_iters r =
     (let r1 = (case rc_xattrs r of
                  None \<Rightarrow> r
                | Some it \<Rightarrow> r\<lparr>rc_xattrs := Some (it\<lparr>xi := map_begin (attrset it)\<rparr>)\<rparr>)
      in case rc_omap r1 of
           None \<Rightarrow> r1
         | Some it \<Rightarrow>
             let it1 = it\<lparr>oi := map_begin (omap_values it)\<rparr>
             in r1\<lparr>rc_omap := Some (it1\<lparr>omap_values :=
                  foldl (\<lambda>m k. map_insert_new k [] m) (omap_values it1) (omap_keys it1)\<rparr>)\<rparr>)"

definition rc_deliver_checksum :: "RadosObjectReadOp \<Rightarrow> fault + RadosObjectReadOp" where
  "rc_deliver_checksum r =
     (case rc_pCheckSum r of
        None \<Rightarrow> Inr r
      | Some p \<Rightarrow>
          (case memcpy_c p (checksums r) (unat (rc_chunkSumLen r)) of
             Inl f \<Rightarrow> Inl f | Inr b \<Rightarrow> Inr (r\<lparr>rc_pCheckSum := Some b\<rparr>)))"

definition ReadCallback :: "int \<Rightarrow> RadosObjectReadOp \<Rightarrow> fault + cb_event \<times> RadosObjectReadOp" where
  "ReadCallback ret r =
     (case callback r of
        None \<Rightarrow> Inl NullDeref
      | Some fn \<Rightarrow>
          if ret \<noteq> 0 then Inr ((fn, ret, cbArg r), r)
          else
            (case rc_deliver_data r of
               Inl f \<Rightarrow> Inl f
             | Inr r1 \<Rightarrow>
                 (case rc_deliver_xattr r1 of
                    Inl f \<Rightarrow> Inl f
                  | Inr r2 \<Rightarrow>
                      (case rc_deliver_checksum (rc_start_iters r2) of
                         Inl f \<Rightarrow> Inl f
                       | Inr r3 \<Rightarrow> Inr ((fn, ret, cbArg r), r3)))))"

definition WriteCallback :: "int \<Rightarrow> RadosObjectWriteOp \<Rightarrow> fault + cb_event" where
  "WriteCallback ret w =
     (case callback w of None \<Rightarrow> Inl NullDeref | Some fn \<Rightarrow> Inr (fn, ret, cbArg w))"

datatype rados_object =
    ReadObj RadosObjectReadOp
  | WriteObj RadosObjectWriteOp
  | OtherObj RadosObjectOperation

text \<open>librados' answer to \<open>operate\<close> and \<open>aio_operate\<close> is the parameter \<open>submit\<close>.\<close>

definition RadosOperationOperate :: "(rados_object \<Rightarrow> int) \<Rightarrow> rados_object \<Rightarrow> int" where
  "RadosOperationOperate submit rop =
     (case rop of ReadObj r \<Rightarrow> submit rop | WriteObj w \<Rightarrow> submit rop | OtherObj _ \<Rightarrow> 0)"

definition RadosOperationAioOperate ::
    "(rados_object \<Rightarrow> int) \<Rightarrow> rados_object \<Rightarrow> nat \<Rightarrow> nat \<Rightarrow> int \<times> rados_object" where
  "RadosOperationAioOperate submit rop fn arg =
     (case rop of
        ReadObj r \<Rightarrow>
          let rop' = ReadObj (r\<lparr>callback := Some fn, cbArg := arg\<rparr>) in (submit rop', rop')
      | WriteObj w \<Rightarrow>
          let rop' = WriteObj (w\<lparr>callback := Some fn, cbArg := arg\<rparr>) in (submit rop', rop')
      | OtherObj _ \<Rightarrow> (- EINVAL, rop))"

definition rop_poolId :: "rados_object \<Rightarrow> int" where
  "rop_poolId rop = (case rop of ReadObj r \<Rightarrow> poolId r | WriteObj w \<Rightarrow> poolId w | OtherObj o1 \<Rightarrow> poolId o1)"

section \<open>Cursors over a map\<close>

text \<open>
  What a caller of a result iterator relies on: every call returns the next entry, and after the
  last one only end markers, with no fault. Both iterators meet it.
\<close>

locale cursor =
  fixes step :: "'it \<Rightarrow> fault + 'x option \<times> 'it"
    and remaining :: "'it \<Rightarrow> 'x list"
    and ok :: "'it \<Rightarrow> bool"
  assumes step_end: "ok it \<Longrightarrow> remaining it = [] \<Longrightarrow>
      \<exists>it'. step it = Inr (None, it') \<and> ok it' \<and> remaining it' = []"
    and step_some: "ok it \<Longrightarrow> remaining it = x # xs \<Longrightarrow>
      \<exists>it'. step it = Inr (Some x, it') \<and> ok it' \<and> remaining it' = xs"
begin

primrec drain :: "nat \<Rightarrow> 'it \<Rightarrow> fault + 'x option list" where
  "drain 0 it = Inr []"
| "drain (Suc n) it =
     (case step it of
        Inl f \<Rightarrow> Inl f
      | Inr (r, it') \<Rightarrow> (case drain n it' of Inl f \<Rightarrow> Inl f | Inr rs \<Rightarrow> Inr (r # rs)))"

lemma drain_end: "ok it \<Longrightarrow> remaining it = [] \<Longrightarrow> drain n it = Inr (replicate n None)"
proof (induction n arbitrary: it)
  case (Suc n)
  then show ?case using step_end [of it] by auto
qed simp

lemma drain_all:
  "ok it \<Longrightarrow> remaining it = xs \<Longrightarrow> drain (length xs + n) it = Inr (map Some xs @ replicate n None)"
proof (induction xs arbitrary: it)
  case Nil
  then show ?case by (simp add: drain_end)
next
  case (Cons x xs)
  then show ?case using step_some [of it x xs] by auto
qed

end

definition from_key :: "('k::linorder, 'v) std_map \<Rightarrow> 'k option \<Rightarrow> ('k \<times> 'v) list" where
  "from_key m p = (case p of None \<Rightarrow> [] | Some k \<Rightarrow> dropWhile (\<lambda>kv. fst kv < k) m)"

definition key_ok :: "('k::linorder, 'v) std_map \<Rightarrow> 'k option \<Rightarrow> bool" where
  "key_ok m p \<longleftrightarrow> map_wf m \<and> (\<forall>k. p = Some k \<longrightarrow> k \<in> fst ` set m)"

lemma from_key_None [simp]: "from_key m None = []"
  by (simp add: from_key_def)

lemma from_begin: "from_key m (map_begin m) = m"
  by (cases m) (auto simp: map_begin_def from_key_def)

lemma key_ok_begin: "map_wf m \<Longrightarrow> key_ok m (map_begin m)"
  by (cases m) (auto simp: map_begin_def key_ok_def)

lemma from_key_some:
  assumes "map_wf m" and "k \<in> fst ` set m"
  shows "\<exists>v. map_find m k = Some v \<and> from_key m (Some k) = (k, v) # from_key m (map_next m k) \<and>
           key_ok m (map_next m k)"
  using assms
proof (induction m)
  case (Cons x m)
  obtain k' v' where x: "x = (k', v')" by fastforce
  have wf: "map_wf m" and lt: "\<forall>y \<in> fst ` set m. k' < y" using Cons.prems(1) x by (auto simp: map_wf_Cons)
  have ext: "from_key (x # m) p = from_key m p" if "key_ok m p" "p \<noteq> None" for p
    using that lt x by (auto simp: from_key_def key_ok_def)
  have extok: "key_ok (x # m) p" if "key_ok m p" for p
    using that Cons.prems(1) by (auto simp: key_ok_def)
  show ?case
  proof (cases "k = k'")
    case True
    have nxt: "map_next (x # m) k = map_begin m"
      using lt x True by (cases m) (auto simp: map_begin_def)
    have "from_key (x # m) (map_begin m) = m"
    proof (cases m)
      case (Cons y m')
      then show ?thesis using ext [OF key_ok_begin [OF wf]] from_begin [of m] by (auto simp: map_begin_def)
    qed (simp add: map_begin_def)
    then show ?thesis
      using nxt x True lt extok [OF key_ok_begin [OF wf]] by (auto simp: map_find_def from_key_def)
  next
    case False
    then have km: "k \<in> fst ` set m" using Cons.prems(2) x by auto
    then have gt: "k' < k" using lt by auto
    obtain v where v: "map_find m k = Some v" "from_key m (Some k) = (k, v) # from_key m (map_next m k)"
      "key_ok m (map_next m k)"
      using Cons.IH [OF wf km] by blast
    have nxt: "map_next (x # m) k = map_next m k" using gt x by auto
    have "from_key (x # m) (Some k) = from_key m (Some k)" using gt x by (simp add: from_key_def)
    moreover have "from_key (x # m) (map_next m k) = from_key m (map_next m k)"
      using ext [OF v(3)] by (cases "map_next m k") auto
    ultimately show ?thesis
      using v nxt extok [OF v(3)] gt x by (auto simp: map_find_def)
  qed
qed simp

lemma from_key_empty: "key_ok m p \<Longrightarrow> from_key m p = [] \<longleftrightarrow> p = None"
  using from_key_some [of m] by (cases p) (fastforce simp: key_ok_def)+

lemma from_key_Cons:
  assumes "key_ok m p" and "from_key m p = x # xs"
  obtains k v where "p = Some k" "map_find m k = Some v" "x = (k, v)"
    "from_key m (map_next m k) = xs" "key_ok m (map_next m k)"
proof -
  obtain k where k: "p = Some k" using assms(2) by (cases p) auto
  then obtain v where "map_find m k = Some v" "from_key m (Some k) = (k, v) # from_key m (map_next m k)"
     "key_ok m (map_next m k)"
    using assms(1) from_key_some [of m k] by (auto simp: key_ok_def)
  with that k assms(2) show ?thesis by auto
qed

definition xattrs_step :: "RadosXattrsIter \<Rightarrow> fault + (string \<times> bytes) option \<times> RadosXattrsIter" where
  "xattrs_step it =
     (case RadosGetXattrsNext True it of
        Inl f \<Rightarrow> Inl f
      | Inr (ret, out, it') \<Rightarrow>
          Inr (case out of
                 Some (Some k, v, n) \<Rightarrow> Some (k, case v of None \<Rightarrow> [] | Some b \<Rightarrow> b)
               | _ \<Rightarrow> None, it'))"

interpretation omap_cursor: cursor RadosOmapGetNext
    "\<lambda>it. from_key (omap_values it) (oi it)" "\<lambda>it. key_ok (omap_values it) (oi it)"
proof
  fix it :: RadosOmapIter and x xs
  assume ok: "key_ok (omap_values it) (oi it)"
  show "\<exists>it'. RadosOmapGetNext it = Inr (None, it') \<and> key_ok (omap_values it') (oi it') \<and>
      from_key (omap_values it') (oi it') = []" if "from_key (omap_values it) (oi it) = []"
    using ok that from_key_empty [OF ok] by (auto simp: RadosOmapGetNext_def)
  show "\<exists>it'. RadosOmapGetNext it = Inr (Some x, it') \<and> key_ok (omap_values it') (oi it') \<and>
      from_key (omap_values it') (oi it') = xs" if "from_key (omap_values it) (oi it) = x # xs"
    using ok that by (rule from_key_Cons) (auto simp: RadosOmapGetNext_def)
qed

interpretation xattrs_cursor: cursor xattrs_step
    "\<lambda>it. from_key (attrset it) (xi it)" "\<lambda>it. key_ok (attrset it) (xi it)"
proof
  fix it :: RadosXattrsIter and x xs
  assume ok: "key_ok (attrset it) (xi it)"
  show "\<exists>it'. xattrs_step it = Inr (None, it') \<and> key_ok (attrset it') (xi it') \<and>
      from_key (attrset it') (xi it') = []" if "from_key (attrset it) (xi it) = []"
    using ok that from_key_empty [OF ok]
    by (auto simp: xattrs_step_def RadosGetXattrsNext_def)
  show "\<exists>it'. xattrs_step it = Inr (Some x, it') \<and> key_ok (attrset it') (xi it') \<and>
      from_key (attrset it') (xi it') = xs" if "from_key (attrset it) (xi it) = x # xs"
  proof (rule from_key_Cons [OF ok that])
    fix k v
    assume "xi it = Some k" "map_find (attrset it) k = Some v" "x = (k, v)"
      "from_key (attrset it) (map_next (attrset it) k) = xs" "key_ok (attrset it) (map_next (attrset it) k)"
    then show ?thesis by (cases v) (auto simp: xattrs_step_def RadosGetXattrsNext_def Let_def)
  qed
qed

section \<open>Completions\<close>

lemma deliver_data_iters:
  "rc_deliver_data r = Inr r1 \<Longrightarrow> rc_omap r1 = rc_omap r \<and> rc_xattrs r1 = rc_xattrs r"
  by (auto simp: rc_deliver_data_def split: option.splits sum.splits)

lemma deliver_xattr_iters:
  "rc_deliver_xattr r = Inr r1 \<Longrightarrow> rc_omap r1 = rc_omap r \<and> rc_xattrs r1 = rc_xattrs r"
  by (auto simp: rc_deliver_xattr_def Let_def split: option.splits sum.splits)

lemma deliver_checksum_iters:
  "rc_deliver_checksum r = Inr r1 \<Longrightarrow> rc_omap r1 = rc_omap r \<and> rc_xattrs r1 = rc_xattrs r"
  by (auto simp: rc_deliver_checksum_def split: option.splits sum.splits)

lemma start_iters:
  "rc_xattrs (rc_start_iters r) = map_option (\<lambda>it. it\<lparr>xi := map_begin (attrset it)\<rparr>) (rc_xattrs r)"
  "rc_omap (rc_start_iters r) =
     map_option (\<lambda>it. it\<lparr>oi := map_begin (omap_values it),
        omap_values := foldl (\<lambda>m k. map_insert_new k [] m) (omap_values it) (omap_keys it)\<rparr>) (rc_omap r)"
  by (auto simp: rc_start_iters_def Let_def split: option.splits)

lemma ReadCallback_ok_cases:
  assumes "ReadCallback 0 r = Inr (ev, r')"
  obtains fn r1 r2 where "callback r = Some fn" "ev = (fn, 0, cbArg r)" "rc_deliver_data r = Inr r1"
    "rc_deliver_xattr r1 = Inr r2" "rc_deliver_checksum (rc_start_iters r2) = Inr r'"
  using assms by (auto simp: ReadCallback_def split: option.splits sum.splits)

lemma ReadCallback_iters:
  assumes "ReadCallback 0 r = Inr (ev, r')"
  shows "rc_xattrs r' = map_option (\<lambda>it. it\<lparr>xi := map_begin (attrset it)\<rparr>) (rc_xattrs r)"
    and "rc_omap r' = map_option (\<lambda>it. it\<lparr>oi := map_begin (omap_values it),
        omap_values := foldl (\<lambda>m k. map_insert_new k [] m) (omap_values it) (omap_keys it)\<rparr>) (rc_omap r)"
  using assms
  by (auto elim!: ReadCallback_ok_cases dest!: deliver_data_iters deliver_xattr_iters deliver_checksum_iters
      simp: start_iters)

section \<open>Properties\<close>


definition demo_read :: RadosObjectReadOp where
  "demo_read = (new_read_op 1 [] ''obj'')
     \<lparr>callback := Some 9, cbArg := 5,
      rc_omap := Some \<lparr>omap_values = [(''a'', ''1''), (''b'', [])], oi = None, omap_keys = []\<rparr>,
      rc_xattrs := Some \<lparr>attrset = [(''k'', ''v'')], xi = None, xval = None\<rparr>\<rparr>"

lemma demo_iters:
  "rc_omap demo_read = Some \<lparr>omap_values = [(''a'', ''1''), (''b'', [])], oi = None, omap_keys = []\<rparr>"
  "rc_xattrs demo_read = Some \<lparr>attrset = [(''k'', ''v'')], xi = None, xval = None\<rparr>"
  by (simp_all add: demo_read_def)


text \<open>
  A keys-only omap read delivers nothing: whatever keys librados returned, the callback sets the
  iterator before it copies the keys into the value map, so every call of \<open>RadosOmapGetNext\<close> on the
  completed operation reports the end, although the map's size counts the keys.
\<close>

theorem omap_keys_never_returned:
  assumes "ReadCallback 0 r = Inr (ev, r')" and "rc_omap r = Some it" and "omap_values it = []"
  shows "\<exists>it'. rc_omap r' = Some it' \<and> RadosOmapGetNext it' = Inr (None, it') \<and>
     RadosOmapIterSize it' = card (set (omap_keys it))"
proof -
  let ?f = "foldl (\<lambda>m k. map_insert_new k [] m)"
  have sz: "map_wf m \<Longrightarrow> map_wf (?f m ks) \<and> fst ` set (?f m ks) = fst ` set m \<union> set ks"
    for m :: "(string, bytes) std_map" and ks
  proof (induction ks arbitrary: m)
    case (Cons k ks)
    have "fst ` set (map_insert_new k [] m) = insert k (fst ` set m)"
      using smap.dom_find [OF Cons.prems] by (auto simp: map_insert_new_def keys_map_put split: option.splits)
    then show ?case using Cons.IH [of "map_insert_new k [] m"] Cons.prems by auto
  qed simp
  let ?m = "?f ([] :: (string, bytes) std_map) (omap_keys it)"
  have "distinct (map fst ?m)" by (rule smap.entries_distinct) (simp add: sz)
  then have "length ?m = card (fst ` set ?m)" by (metis distinct_card length_map set_map)
  then show ?thesis
    using ReadCallback_iters(2) [OF assms(1)] assms(2,3) sz [of "[]" "omap_keys it"]
    by (auto simp: RadosOmapGetNext_def RadosOmapIterSize_def map_begin_def)
qed

definition demo_keys_read :: RadosObjectReadOp where
  "demo_keys_read = demo_read\<lparr>rc_omap := Some \<lparr>omap_values = [], oi = None, omap_keys = [''a'', ''b'']\<rparr>\<rparr>"

theorem omap_keys_never_returned_witness:
  "\<exists>ev r' it'. ReadCallback 0 demo_keys_read = Inr (ev, r') \<and> rc_omap r' = Some it' \<and>
     RadosOmapGetNext it' = Inr (None, it') \<and> RadosOmapIterSize it' = 2"
proof -
  obtain r' where r': "ReadCallback 0 demo_keys_read = Inr ((9, 0, 5), r')"
    by (auto simp: ReadCallback_def demo_keys_read_def demo_read_def new_read_op_def rc_deliver_data_def
        rc_deliver_xattr_def rc_start_iters_def rc_deliver_checksum_def)
  show ?thesis
    using omap_keys_never_returned [OF r', of "\<lparr>omap_values = [], oi = None, omap_keys = [''a'', ''b'']\<rparr>"] r'
    by (auto simp: demo_keys_read_def demo_read_def)
qed

text \<open>
  The payload-carrying calls share the operation's buffer list, which no call clears.
\<close>

fun write_all :: "(bytes \<times> u64) list \<Rightarrow> RadosObjectWriteOp \<Rightarrow> fault + RadosObjectWriteOp option" where
  "write_all [] w = Inr (Some w)"
| "write_all ((b, off) # ws) w =
     (case RadosWriteOpWrite (Some w) (Some b) (of_nat (length b)) off of
        Inr (Some w') \<Rightarrow> write_all ws w'
      | r \<Rightarrow> r)"

lemma RadosWriteOpWrite_step:
  "length b < 2 ^ 64 \<Longrightarrow>
   RadosWriteOpWrite (Some w) (Some b) (of_nat (length b)) off =
     Inr (Some (w\<lparr>w_bl := w_bl w @ b, w_op := w_op w @ [WWrite off (w_bl w @ b)]\<rparr>))"
  by (auto simp: RadosWriteOpWrite_def write_op_defs unat_of_nat of_nat_inverse word_unat_eq_iff)

text \<open>
  Several writes on one operation: the \<open>i\<close>-th write is sent with the payloads of all earlier
  writes of that operation in front of its own, at its own offset. An operation with
  a single write sends exactly its payload.
\<close>

theorem writes_accumulate:
  assumes "\<forall>b \<in> fst ` set ws. length b < 2 ^ 64"
  shows "write_all ws w =
     Inr (Some (w\<lparr>w_bl := w_bl w @ concat (map fst ws),
       w_op := w_op w @ map (\<lambda>i. WWrite (snd (ws ! i)) (w_bl w @ concat (map fst (take (Suc i) ws))))
                 [0 ..< length ws]\<rparr>))"
  using assms
proof (induction ws arbitrary: w)
  case (Cons x ws)
  obtain b off where x: "x = (b, off)" by fastforce
  have "[0 ..< length (x # ws)] = 0 # map Suc [0 ..< length ws]"
    by (simp add: upt_conv_Cons map_Suc_upt del: upt_Suc)
  then show ?case
    using Cons x by (simp add: RadosWriteOpWrite_step comp_def del: upt_Suc)
qed simp

definition demo_write :: RadosObjectWriteOp where
  "demo_write = the (RadosWriteOpInit2 True 1 ''obj'')"

theorem writes_accumulate_witness:
  "\<exists>w'. write_all [(''ab'', 0), (''cd'', 4096)] demo_write = Inr (Some w') \<and>
     w_op w' = [WWrite 0 ''ab'', WWrite 4096 ''abcd'']"
  using writes_accumulate [of "[(''ab'', 0), (''cd'', 4096)]" demo_write]
  by (simp add: demo_write_def RadosWriteOpInit2_def)

text \<open>
  \<open>RadosWriteOpWriteSGL\<close> on a fresh operation sends the front alignment bytes, then the
  first \<open>len1 mod 2^32\<close> bytes the chain describes (the length is narrowed to 32 bits), then the
  back alignment bytes, as one write at the given offset.
\<close>

theorem WriteSGL_payload:
  assumes "list_all (node_ok isRelease) sgl" and "unat len1 mod 2 ^ 32 \<le> segs isRelease (chain_entries sgl)"
    and "w_bl w = []" and "unat (prevAlignLen a) \<le> length p" and "unat (backAlignLen a) \<le> length b"
    and "prevAlignBuffer a = Some p" and "backAlignBuffer a = Some b"
  shows "\<exists>w'. RadosWriteOpWriteSGL (Some w) sgl len1 off (Some a) isRelease = Inr (Some w') \<and>
     w_op w' = w_op w @ [WWrite off
       (take (unat (prevAlignLen a)) p @
        take (unat len1 mod 2 ^ 32) (content isRelease (chain_entries sgl)) @
        take (unat (backAlignLen a)) b)]"
proof -
  have al: "append_align bl (Some m) n = Inr (bl @ take (unat n) m)" if "unat n \<le> length m" for bl m n
    using that by (simp add: write_op_defs)
  have u: "unat (ucast len1 :: u32) = unat len1 mod 2 ^ 32" by (rule unat_ucast_u64_u32)
  have g: "gather_loop isRelease sgl 0 (ucast len1) bl =
      Inr (bl @ take (unat len1 mod 2 ^ 32) (content isRelease (chain_entries sgl)))" for bl
    using gather_content [OF assms(1), of "ucast len1" bl] assms(2) u by simp
  show ?thesis
    using assms(3-7) al g by (simp add: RadosWriteOpWriteSGL_def on_op_checked_def on_op_def w_call_def)
qed

theorem WriteSGL_payload_witness:
  "\<exists>w'. RadosWriteOpWriteSGL (Some demo_write) [demo_node [demo_entry ''abc'']] (2 ^ 32 + 2) 8
      (Some \<lparr>prevAlignBuffer = Some ''..'', prevAlignLen = 2, backAlignBuffer = Some ''#'', backAlignLen = 1\<rparr>) False
      = Inr (Some w') \<and> w_op w' = [WWrite 8 ''..ab#'']"
  using WriteSGL_payload [of False "[demo_node [demo_entry ''abc'']]" "2 ^ 32 + 2" demo_write
      "\<lparr>prevAlignBuffer = Some ''..'', prevAlignLen = 2, backAlignBuffer = Some ''#'', backAlignLen = 1\<rparr>"
      "''..''" "''#''" 8]
  by (simp add: node_ok_def demo_node_def demo_entry_def used_def entry_ok_def seg_size_def demo_write_def
      RadosWriteOpInit2_def)

lemma omap_collect_spec:
  assumes "length vs = length ks" "length ls = length ks"
    and "\<forall>i < length ks. unat (ls ! i) \<le> length (vs ! i)" and "map_wf m"
  shows "\<exists>es. omap_collect (length ks) ks vs ls m = Inr es \<and> map_wf es \<and>
      map_find es = map_find m ++ map_of (rev (zip (map c_str ks) (map2 (\<lambda>v l. take (unat l) v) vs ls)))"
  using assms
proof (induction ks arbitrary: vs ls m)
  case (Cons k ks)
  obtain v vs' l ls' where v: "vs = v # vs'" "ls = l # ls'"
    using Cons.prems(1,2) by (metis length_Suc_conv list.size(4) add.right_neutral add_Suc_right)
  have bnd: "\<forall>i < length ks. unat (ls' ! i) \<le> length (vs' ! i)" "unat l \<le> length v"
    using Cons.prems(3) v by (auto dest: spec [of _ "Suc _"] spec [of _ 0])
  have eq: "(\<lambda>a. if a = c_str k then Some (take (unat l) v) else map_find m a) =
      (map_find m)(c_str k \<mapsto> take (unat l) v)" by auto
  show ?case
    using Cons.IH [of vs' ls' "map_put (c_str k) (take (unat l) v) m"] bnd Cons.prems v
    by (auto simp: eq)
qed simp

text \<open>
  \<open>RadosWriteOpOmapSet\<close> sends one map entry per distinct key, with the value of the key's last
  occurrence in the caller's arrays, cut to its stated length.
\<close>

theorem OmapSet_last_wins:
  assumes "length vals = length keys" and "length lens = length keys"
    and "\<forall>i < length keys. unat (lens ! i) \<le> length (vals ! i)"
  shows "\<exists>w' entries. RadosWriteOpOmapSet (Some w) keys vals lens (length keys) = Inr (Some w') \<and>
     w_op w' = w_op w @ [WOmapSet entries] \<and> map_wf entries \<and>
     map_find entries = map_of (rev (zip (map c_str keys) (map2 (\<lambda>v l. take (unat l) v) vals lens)))"
proof -
  obtain es where "omap_collect (length keys) keys vals lens [] = Inr es" "map_wf es"
     "map_find es = map_find [] ++ map_of (rev (zip (map c_str keys) (map2 (\<lambda>v l. take (unat l) v) vals lens)))"
    using omap_collect_spec [OF assms map_wf_Nil] by blast
  moreover have "map_find ([] :: (string, bytes) std_map) = Map.empty" by (simp add: fun_eq_iff)
  ultimately show ?thesis by (simp add: RadosWriteOpOmapSet_def on_op_def w_call_def)
qed

theorem OmapSet_last_wins_witness:
  "\<exists>w' entries. RadosWriteOpOmapSet (Some demo_write) [''k'', ''j'', ''k''] [''1'', ''22'', ''333''] [1, 1, 3]
      (length [''k'', ''j'', ''k'']) = Inr (Some w') \<and>
     w_op w' = [WOmapSet entries] \<and> map_find entries ''k'' = Some ''333'' \<and> map_find entries ''j'' = Some ''2''"
  using OmapSet_last_wins [of "[''1'', ''22'', ''333'']" "[''k'', ''j'', ''k'']" "[1, 1, 3]" demo_write]
  by (auto simp: less_Suc_eq demo_write_def RadosWriteOpInit2_def c_str_def)

end
