(* ===== verification/Fifo_Server.thy ===== *)
theory Fifo_Server
  imports Prelude "HOL-Library.Sublist"
begin

text \<open>
  The contract of a queue with a server thread, shared by the proxy's I/O workers and by the operation
  queues of the server adaptor: requests are accepted at one end, served from the other, and every step
  of the system is an acceptance, the service of the oldest pending request, or neither.
  What the clients want (no request lost, none served twice, service in order of acceptance) is proved
  here once for every system that meets the contract.
\<close>

locale fifo_server =
  fixes init :: "'s \<Rightarrow> bool"
    and step :: "'s \<Rightarrow> 's \<Rightarrow> bool"
    and accepted :: "'s \<Rightarrow> 'r list"
    and served :: "'s \<Rightarrow> 'r list"
    and pending :: "'s \<Rightarrow> 'r list"
  assumes init_empty: "init s \<Longrightarrow> accepted s = [] \<and> served s = [] \<and> pending s = []"
    and step_fifo: "step s s' \<Longrightarrow>
        (\<exists>r. accepted s' = accepted s @ [r] \<and> pending s' = pending s @ [r] \<and> served s' = served s) \<or>
        (\<exists>r. accepted s' = accepted s \<and> pending s = r # pending s' \<and> served s' = served s @ [r]) \<or>
        (accepted s' = accepted s \<and> pending s' = pending s \<and> served s' = served s)"
begin

lemma step_conserves:
  "step s s' \<Longrightarrow> accepted s = served s @ pending s \<Longrightarrow> accepted s' = served s' @ pending s'"
  using step_fifo [of s s'] by auto

lemma conservation:
  "init s0 \<Longrightarrow> step\<^sup>*\<^sup>* s0 s \<Longrightarrow> accepted s = served s @ pending s"
  by (rotate_tac -1, induction rule: rtranclp_induct) (auto simp: init_empty dest: step_conserves)

lemma served_prefix: "init s0 \<Longrightarrow> step\<^sup>*\<^sup>* s0 s \<Longrightarrow> prefix (served s) (accepted s)"
  using conservation by (metis prefix_def)

lemma served_monotone: "step\<^sup>*\<^sup>* s s' \<Longrightarrow> prefix (served s) (served s') \<and> prefix (accepted s) (accepted s')"
proof (induction rule: rtranclp_induct)
  case (step y z)
  then show ?case using step_fifo [OF step.hyps(2)] by (auto simp: prefix_def)
qed simp

lemma all_served: "init s0 \<Longrightarrow> step\<^sup>*\<^sup>* s0 s \<Longrightarrow> pending s = [] \<Longrightarrow> served s = accepted s"
  using conservation by fastforce

end

end
