(* ===== verification/Rados_Worker.thy ===== *)
theory Rados_Worker
  imports Proxy_Ctx Rados_Op Fifo_Server
begin

text \<open>
  \<open>ceph_proxy/RadosWorker.h\<close> and \<open>RadosWorker.cc\<close>: one I/O worker thread per pool with its queue,
  and the map of workers that routes an operation to its pool's worker; the completions of
  \<open>CephProxyOp.cc\<close>.

  One worker is a step relation. A step is a critical section of one thread (what it does between
  taking and releasing \<open>ioworkerLock\<close>), or the processing of one request of the batch that the handler
  has taken out of the queue, which happens without the lock. Condition variables wake with or
  without a notification. \<open>accepted\<close>, \<open>handled\<close> and \<open>late\<close> are history variables.
\<close>

section \<open>Requests and completions\<close>

record Completion =
  fn :: nat
  comp_arg :: nat

definition CompletionInit :: "bool \<Rightarrow> nat option \<Rightarrow> nat \<Rightarrow> Completion option" where
  "CompletionInit alloc f arg =
     (case f of
        None \<Rightarrow> None
      | Some f' \<Rightarrow> if alloc then Some \<lparr>fn = f', comp_arg = arg\<rparr> else None)"

record RequestCtx =
  req_op :: rados_object
  req_comp :: Completion

text \<open>
  What the handler does with a request: it calls the completion function at once with an error
  code, or hands the operation to librados on a context.
\<close>

datatype outcome = Failed cb_event | Submitted nat rados_object

definition process_request ::
    "rados_env \<Rightarrow> (rados_object \<Rightarrow> int) \<Rightarrow> RequestCtx \<Rightarrow> proxy_ctx \<Rightarrow> outcome \<times> proxy_ctx" where
  "process_request e submit rq s =
     (let c = req_comp rq in
      case GetIoCtx2 e (rop_poolId (req_op rq)) s of
        (None, s') \<Rightarrow> (Failed (fn c, - ENOENT, comp_arg c), s')
      | (Some p, s') \<Rightarrow>
          let (ret, op') = RadosOperationAioOperate submit (req_op rq) (fn c) (comp_arg c)
          in if ret < 0 then (Failed (fn c, ret, comp_arg c), s') else (Submitted p op', s'))"

section \<open>One worker\<close>

abbreviation IO_WORKER_QUEUE_MAX_COUNT :: nat where "IO_WORKER_QUEUE_MAX_COUNT \<equiv> 65535"

datatype handler_pc = NotStarted | Batch "RequestCtx list" | Waiting | Woken | Exited

text \<open>The thread that runs \<open>WaitForEmpty\<close> and then \<open>StopProc\<close>.\<close>

datatype stopper_pc = StopIdle | EmptyWaiting | EmptyWoken | StopReady | Joining | Joined

record RadosIOWorker =
  Ops :: "RequestCtx list"
  ioworkerStop :: bool
  ioworkerRunning :: bool
  ioworkerEmptyWait :: bool
  handler :: handler_pc
  stopper :: stopper_pc
  px :: proxy_ctx
  accepted :: "RequestCtx list"
  handled :: "(RequestCtx \<times> outcome) list"
  late :: bool

definition new_ioworker :: "proxy_ctx \<Rightarrow> RadosIOWorker" where
  "new_ioworker s =
     \<lparr>Ops = [], ioworkerStop = False, ioworkerRunning = False, ioworkerEmptyWait = False,
      handler = NotStarted, stopper = StopIdle, px = s, accepted = [], handled = [], late = False\<rparr>"

text \<open>\<open>notify_all\<close> on \<open>ioworkerCond\<close> and on \<open>ioworkerEmptyCond\<close>.\<close>

definition notify_handler :: "RadosIOWorker \<Rightarrow> RadosIOWorker" where
  "notify_handler w = (if handler w = Waiting then w\<lparr>handler := Woken\<rparr> else w)"

definition notify_stopper :: "RadosIOWorker \<Rightarrow> RadosIOWorker" where
  "notify_stopper w = (if stopper w = EmptyWaiting then w\<lparr>stopper := EmptyWoken\<rparr> else w)"

definition io_Queue :: "RequestCtx \<Rightarrow> RadosIOWorker \<Rightarrow> int \<times> RadosIOWorker" where
  "io_Queue rq w =
     (if IO_WORKER_QUEUE_MAX_COUNT < length (Ops w) then (-1, w)
      else
        let w1 = (if Ops w = [] then notify_handler w else w)
        in (0, w1\<lparr>Ops := Ops w @ [rq], accepted := accepted w @ [rq],
                 late := (late w \<or> stopper w \<in> {StopReady, Joining, Joined})\<rparr>))"

text \<open>
  The handler holding the lock, up to the next point where it releases it: \<open>op_exit\<close> is the code
  after the outer loop, \<open>op_inner\<close> starts at the inner \<open>while (!Ops.empty())\<close>, \<open>op_outer\<close> at the outer
  \<open>while (!ioworkerStop)\<close>.
\<close>

definition op_exit :: "RadosIOWorker \<Rightarrow> RadosIOWorker" where
  "op_exit w = (notify_stopper w)\<lparr>ioworkerStop := False, handler := Exited\<rparr>"

definition op_inner :: "RadosIOWorker \<Rightarrow> RadosIOWorker" where
  "op_inner w =
     (if Ops w \<noteq> [] then w\<lparr>Ops := [], ioworkerRunning := True, handler := Batch (Ops w)\<rparr>
      else
        let w1 = (if ioworkerEmptyWait w then notify_stopper w else w)
        in if ioworkerStop w1 then op_exit w1 else w1\<lparr>handler := Waiting\<rparr>)"

definition op_outer :: "RadosIOWorker \<Rightarrow> RadosIOWorker" where
  "op_outer w = (if \<not> ioworkerStop w then op_inner w else op_exit w)"

definition op_batch_end :: "RadosIOWorker \<Rightarrow> RadosIOWorker" where
  "op_batch_end w = op_inner (w\<lparr>ioworkerRunning := False\<rparr>)"

definition op_request ::
    "rados_env \<Rightarrow> (rados_object \<Rightarrow> int) \<Rightarrow> RequestCtx \<Rightarrow> RequestCtx list \<Rightarrow> RadosIOWorker \<Rightarrow> RadosIOWorker" where
  "op_request e submit rq ls w =
     (let (oc, s) = process_request e submit rq (px w)
      in w\<lparr>px := s, handled := handled w @ [(rq, oc)], handler := Batch ls\<rparr>)"

definition WaitForEmpty_check :: "RadosIOWorker \<Rightarrow> RadosIOWorker" where
  "WaitForEmpty_check w =
     (if Ops w \<noteq> [] \<or> ioworkerRunning w then w\<lparr>ioworkerEmptyWait := True, stopper := EmptyWaiting\<rparr>
      else w\<lparr>ioworkerEmptyWait := False, stopper := StopReady\<rparr>)"

definition StopProc_signal :: "RadosIOWorker \<Rightarrow> RadosIOWorker" where
  "StopProc_signal w = notify_handler (w\<lparr>ioworkerStop := True, stopper := Joining\<rparr>)"

inductive wstep :: "RadosIOWorker \<Rightarrow> RadosIOWorker \<Rightarrow> bool" where
  queue: "io_Queue rq w = (r, w') \<Longrightarrow> wstep w w'"
| start: "handler w = NotStarted \<Longrightarrow> wstep w (op_outer w)"
| wake: "handler w \<in> {Waiting, Woken} \<Longrightarrow> wstep w (op_outer w)"
| request: "handler w = Batch (rq # ls) \<Longrightarrow> wstep w (op_request e submit rq ls w)"
| batch_end: "handler w = Batch [] \<Longrightarrow> wstep w (op_batch_end w)"
| stop_call: "stopper w = StopIdle \<Longrightarrow> wstep w (WaitForEmpty_check w)"
| stop_wake: "stopper w \<in> {EmptyWaiting, EmptyWoken} \<Longrightarrow> wstep w (WaitForEmpty_check w)"
| stop_proc: "stopper w = StopReady \<Longrightarrow> wstep w (StopProc_signal w)"
| join: "stopper w = Joining \<Longrightarrow> handler w = Exited \<Longrightarrow> wstep w (w\<lparr>stopper := Joined\<rparr>)"

definition batch_of :: "RadosIOWorker \<Rightarrow> RequestCtx list" where
  "batch_of w = (case handler w of Batch ls \<Rightarrow> ls | _ \<Rightarrow> [])"

definition wpending :: "RadosIOWorker \<Rightarrow> RequestCtx list" where
  "wpending w = batch_of w @ Ops w"

definition winit :: "RadosIOWorker \<Rightarrow> bool" where
  "winit w \<longleftrightarrow> (\<exists>s. w = new_ioworker s \<and> provider_inv s)"

lemmas worker_op_defs = op_outer_def op_inner_def op_exit_def op_batch_end_def op_request_def
  notify_handler_def notify_stopper_def WaitForEmpty_check_def StopProc_signal_def io_Queue_def Let_def

section \<open>The worker is a FIFO server\<close>

lemma op_inner_fifo:
  "accepted (op_inner w) = accepted w \<and> handled (op_inner w) = handled w \<and> px (op_inner w) = px w \<and>
   (batch_of w = [] \<longrightarrow> wpending (op_inner w) = Ops w)"
  by (simp add: worker_op_defs wpending_def batch_of_def)

lemma op_outer_fifo:
  "accepted (op_outer w) = accepted w \<and> handled (op_outer w) = handled w \<and> px (op_outer w) = px w \<and>
   (batch_of w = [] \<longrightarrow> wpending (op_outer w) = Ops w)"
  using op_inner_fifo [of w] by (simp add: op_outer_def op_exit_def notify_stopper_def wpending_def batch_of_def)

interpretation ioworker: fifo_server winit wstep accepted "\<lambda>w. map fst (handled w)" wpending
proof
  fix w w' :: RadosIOWorker
  show "accepted w = [] \<and> map fst (handled w) = [] \<and> wpending w = []" if "winit w"
    using that by (auto simp: winit_def new_ioworker_def wpending_def batch_of_def)
  show "(\<exists>r. accepted w' = accepted w @ [r] \<and> wpending w' = wpending w @ [r] \<and>
            map fst (handled w') = map fst (handled w)) \<or>
        (\<exists>r. accepted w' = accepted w \<and> wpending w = r # wpending w' \<and>
            map fst (handled w') = map fst (handled w) @ [r]) \<or>
        (accepted w' = accepted w \<and> wpending w' = wpending w \<and> map fst (handled w') = map fst (handled w))"
    if "wstep w w'"
    using that
  proof cases
    case (queue rq r)
    then show ?thesis
      by (auto simp: io_Queue_def notify_handler_def Let_def wpending_def batch_of_def split: if_splits)
  next
    case start
    then show ?thesis using op_outer_fifo [of w] by (simp add: wpending_def [of w] batch_of_def)
  next
    case wake
    then show ?thesis using op_outer_fifo [of w] by (auto simp: wpending_def [of w] batch_of_def)
  next
    case (request rq ls e submit)
    then show ?thesis by (simp add: op_request_def wpending_def batch_of_def split: prod.splits)
  next
    case batch_end
    then show ?thesis
      using op_inner_fifo [of "w\<lparr>ioworkerRunning := False\<rparr>"]
      by (simp add: op_batch_end_def wpending_def [of w] batch_of_def)
  qed (auto simp: worker_op_defs wpending_def batch_of_def)
qed

section \<open>Control invariant\<close>

text \<open>
  No lost wake-up on either condition variable: a handler that waits unnotified has an empty queue
  and no stop request, and a stopper that waits unnotified has a handler that will reach its
  notification.
\<close>

definition wctl :: "RadosIOWorker \<Rightarrow> bool" where
  "wctl w \<longleftrightarrow>
     (ioworkerRunning w \<longleftrightarrow> (\<exists>ls. handler w = Batch ls)) \<and>
     (handler w = Waiting \<longrightarrow> Ops w = [] \<and> \<not> ioworkerStop w) \<and>
     (stopper w = EmptyWaiting \<longrightarrow> ioworkerEmptyWait w \<and> handler w \<noteq> Waiting \<and> handler w \<noteq> Exited) \<and>
     (ioworkerStop w \<longrightarrow> stopper w = Joining \<and> handler w \<noteq> Exited) \<and>
     (handler w = Exited \<longrightarrow> stopper w = Joining \<or> stopper w = Joined) \<and>
     (stopper w = Joining \<or> stopper w = Joined \<longrightarrow> ioworkerStop w \<or> handler w = Exited) \<and>
     (stopper w \<in> {StopReady, Joining, Joined} \<and> \<not> late w \<longrightarrow> Ops w = [] \<and> \<not> ioworkerRunning w) \<and>
     length (Ops w) \<le> Suc IO_WORKER_QUEUE_MAX_COUNT"

lemma wctl_init: "winit w \<Longrightarrow> wctl w"
  by (auto simp: winit_def new_ioworker_def wctl_def)

lemma wctl_outer:
  assumes "wctl w" and "handler w \<in> {NotStarted, Waiting, Woken}"
  shows "wctl (op_outer w)"
  using assms
  by (cases "handler w"; cases "stopper w"; cases "ioworkerStop w"; cases "Ops w = []")
    (simp_all add: wctl_def op_outer_def op_inner_def op_exit_def notify_stopper_def)

lemma wctl_batch_end:
  assumes "wctl w" and "handler w = Batch []"
  shows "wctl (op_batch_end w)"
  using assms
  by (cases "stopper w"; cases "ioworkerStop w"; cases "Ops w = []")
    (simp_all add: wctl_def op_batch_end_def op_inner_def op_exit_def notify_stopper_def)

lemma wctl_queue:
  assumes "wctl w" and "io_Queue rq w = (r, w')"
  shows "wctl w'"
proof (cases "IO_WORKER_QUEUE_MAX_COUNT < length (Ops w)")
  case False
  then have w': "w' = (if Ops w = [] \<and> handler w = Waiting then w\<lparr>handler := Woken\<rparr> else w)
      \<lparr>Ops := Ops w @ [rq], accepted := accepted w @ [rq], late := (late w \<or> stopper w \<in> {StopReady, Joining, Joined})\<rparr>"
    using assms(2) by (auto simp: io_Queue_def notify_handler_def Let_def)
  show ?thesis
  proof (cases "Ops w = [] \<and> handler w = Waiting")
    case True
    then show ?thesis using assms(1) w' by (cases "stopper w"; cases "ioworkerStop w") (simp_all add: wctl_def)
  next
    case F: False
    then have "w' = w\<lparr>Ops := Ops w @ [rq], accepted := accepted w @ [rq],
        late := (late w \<or> stopper w \<in> {StopReady, Joining, Joined})\<rparr>" using w' by simp
    then show ?thesis
      using assms(1) False F by (cases "handler w"; cases "stopper w") (simp_all add: wctl_def)
  qed
qed (use assms in \<open>simp add: io_Queue_def\<close>)

lemma wctl_stop_proc:
  assumes "wctl w" and "stopper w = StopReady"
  shows "wctl (StopProc_signal w)"
  using assms
  by (cases "handler w"; cases "late w") (simp_all add: StopProc_signal_def notify_handler_def wctl_def)

lemma wctl_wait:
  assumes "wctl w" and "stopper w \<in> {StopIdle, EmptyWaiting, EmptyWoken}"
  shows "wctl (WaitForEmpty_check w)"
  using assms
  by (cases "handler w"; cases "Ops w = []"; cases "stopper w") (simp_all add: WaitForEmpty_check_def wctl_def)

lemma wctl_request:
  assumes "wctl w" and "handler w = Batch (rq # ls)"
  shows "wctl (op_request e submit rq ls w)"
  using assms
  by (cases "process_request e submit rq (px w)"; cases "stopper w") (simp_all add: op_request_def wctl_def)

lemma wctl_join:
  assumes "wctl w" and "stopper w = Joining" and "handler w = Exited"
  shows "wctl (w\<lparr>stopper := Joined\<rparr>)"
  using assms by (simp add: wctl_def)

lemma wctl_step [inv_intros]: "wstep w w' \<Longrightarrow> wctl w \<Longrightarrow> wctl w'"
  by (induction rule: wstep.induct)
    (simp_all add: wctl_queue wctl_outer wctl_request wctl_batch_end wctl_wait wctl_stop_proc wctl_join)

lemma wctl_reach: "winit w0 \<Longrightarrow> wstep\<^sup>*\<^sup>* w0 w \<Longrightarrow> wctl w"
  by (rotate_tac -1, induction rule: rtranclp_induct) (auto intro: wctl_init wctl_step)

text \<open>Every submitted request went to the context the table holds for its pool.\<close>

definition submitted_ok :: "proxy_ctx \<Rightarrow> RequestCtx \<times> outcome \<Rightarrow> bool" where
  "submitted_ok s h =
     (case snd h of
        Failed _ \<Rightarrow> True
      | Submitted p op' \<Rightarrow> GetIoCtx_id (rop_poolId (req_op (fst h))) (ptable s) = Some p)"

definition wctx :: "RadosIOWorker \<Rightarrow> bool" where
  "wctx w \<longleftrightarrow> provider_inv (px w) \<and> list_all (submitted_ok (px w)) (handled w)"

lemma process_request_ctx:
  assumes "provider_inv s" and "process_request e submit rq s = (oc, s')"
  shows "provider_inv s'" and "GetIoCtx_id j (ptable s) = Some q \<Longrightarrow> GetIoCtx_id j (ptable s') = Some q"
    and "oc = Submitted p op' \<Longrightarrow> GetIoCtx_id (rop_poolId (req_op rq)) (ptable s') = Some p"
proof -
  obtain r s1 where g: "GetIoCtx2 e (rop_poolId (req_op rq)) s = (r, s1)" by fastforce
  have s1: "s' = s1" and sub: "oc = Submitted p op' \<Longrightarrow> r = Some p"
    using assms(2) g by (auto simp: process_request_def Let_def split: option.splits prod.splits if_splits)
  show "provider_inv s'" using proxy.get_inv [OF assms(1) g] s1 by simp
  show "GetIoCtx_id j (ptable s) = Some q \<Longrightarrow> GetIoCtx_id j (ptable s') = Some q"
    using proxy.get_keeps [OF assms(1) g] s1 by simp
  show "oc = Submitted p op' \<Longrightarrow> GetIoCtx_id (rop_poolId (req_op rq)) (ptable s') = Some p"
    using proxy.get_result [OF assms(1)] g sub s1 by simp
qed

lemma wctx_cong: "handled w' = handled w \<Longrightarrow> px w' = px w \<Longrightarrow> wctx w \<Longrightarrow> wctx w'"
  by (simp add: wctx_def)

lemma wctx_frames:
  "handled (op_outer w) = handled w" "px (op_outer w) = px w"
  "handled (WaitForEmpty_check w) = handled w" "px (WaitForEmpty_check w) = px w"
  "handled (StopProc_signal w) = handled w" "px (StopProc_signal w) = px w"
  by (simp_all add: op_outer_fifo WaitForEmpty_check_def StopProc_signal_def notify_handler_def)

lemma io_Queue_frame:
  "io_Queue rq w = (r, w') \<Longrightarrow> handled w' = handled w \<and> px w' = px w"
  by (auto simp: io_Queue_def notify_handler_def Let_def split: if_splits)

lemma wctx_step [inv_intros]: "wstep w w' \<Longrightarrow> wctx w \<Longrightarrow> wctx w'"
proof (induction rule: wstep.induct)
  case (queue rq w r w')
  then show ?case using io_Queue_frame wctx_cong by blast
next
  case (request w rq ls e submit)
  obtain oc s where pr: "process_request e submit rq (px w) = (oc, s)" by fastforce
  have inv: "provider_inv (px w)" using request by (simp add: wctx_def)
  have "list_all (submitted_ok s) (handled w)"
    using request.prems process_request_ctx(2) [OF inv pr]
    by (fastforce simp: wctx_def list_all_iff submitted_ok_def split: outcome.splits)
  moreover have "submitted_ok s (rq, oc)"
    using process_request_ctx(3) [OF inv pr] by (simp add: submitted_ok_def split: outcome.splits)
  ultimately show ?case
    using pr process_request_ctx(1) [OF inv pr] by (simp add: op_request_def wctx_def)
next
  case (batch_end w)
  have "handled (op_batch_end w) = handled w" "px (op_batch_end w) = px w"
    using op_inner_fifo [of "w\<lparr>ioworkerRunning := False\<rparr>"] by (simp_all add: op_batch_end_def)
  then show ?case using batch_end.prems by (rule wctx_cong)
qed (simp_all add: wctx_frames wctx_def)

lemma wctx_init: "winit w \<Longrightarrow> wctx w"
  by (auto simp: winit_def new_ioworker_def wctx_def)

lemma wctx_reach: "winit w0 \<Longrightarrow> wstep\<^sup>*\<^sup>* w0 w \<Longrightarrow> wctx w"
  by (rotate_tac -1, induction rule: rtranclp_induct)
    (auto intro: wctx_step simp: wctx_init)

section \<open>The workers of all pools\<close>

record RadosWorker =
  ioWorkers :: "(int, RadosIOWorker) std_map"

definition RadosWorker_Start :: "RadosWorker \<Rightarrow> RadosWorker" where
  "RadosWorker_Start ws = ws\<lparr>ioWorkers := []\<rparr>"

definition GetIOWorker :: "int \<Rightarrow> RadosWorker \<Rightarrow> RadosIOWorker option" where
  "GetIOWorker pid ws = map_find (ioWorkers ws) pid"

definition CreateIOWorker :: "bool \<Rightarrow> proxy_ctx \<Rightarrow> int \<Rightarrow> RadosWorker \<Rightarrow> RadosIOWorker option \<times> RadosWorker" where
  "CreateIOWorker alloc s pid ws =
     (case map_find (ioWorkers ws) pid of
        Some w \<Rightarrow> (Some w, ws)
      | None \<Rightarrow>
          if alloc then (Some (new_ioworker s), ws\<lparr>ioWorkers := map_put pid (new_ioworker s) (ioWorkers ws)\<rparr>)
          else (None, ws))"

text \<open>
  The check of the two pointers only logs, so a null operation is dereferenced by the next
  statement; a null completion is queued. The worker that \<open>GetIOWorker\<close> returns is the object in the
  map, updated in place.
\<close>

definition RadosWorker_Queue ::
    "bool \<Rightarrow> proxy_ctx \<Rightarrow> rados_object option \<Rightarrow> Completion \<Rightarrow> RadosWorker \<Rightarrow> fault + int \<times> RadosWorker" where
  "RadosWorker_Queue alloc s op c ws =
     (case op of
        None \<Rightarrow> Inl NullDeref
      | Some operation \<Rightarrow>
          let pid = rop_poolId operation in
          if pid < 0 then Inr (-1, ws)
          else
            let (w, ws1) = (case GetIOWorker pid ws of
                              Some w \<Rightarrow> (Some w, ws)
                            | None \<Rightarrow> CreateIOWorker alloc s pid ws)
            in case w of
                 None \<Rightarrow> Inr (-1, ws1)
               | Some w0 \<Rightarrow>
                   let (ret, w') = io_Queue \<lparr>req_op = operation, req_comp = c\<rparr> w0
                   in Inr (ret, ws1\<lparr>ioWorkers := map_put pid w' (ioWorkers ws1)\<rparr>))"

section \<open>Properties\<close>

text \<open>
  In every execution of a worker, with requests arriving and the worker being stopped at
  any time, the requests handled so far are a prefix of the requests accepted, in the order of acceptance:
  none is handled twice or overtaken, and the rest is exactly the current batch
  followed by the queue.
\<close>

theorem worker_fifo:
  assumes "winit w0" and "wstep\<^sup>*\<^sup>* w0 w"
  shows "accepted w = map fst (handled w) @ batch_of w @ Ops w"
  using ioworker.conservation [OF assms] by (simp add: wpending_def)

definition demo_req :: "int \<Rightarrow> RequestCtx" where
  "demo_req pid = \<lparr>req_op = WriteObj (the (RadosWriteOpInit2 True pid ''o'')), req_comp = \<lparr>fn = 1, comp_arg = 2\<rparr>\<rparr>"

definition demo_w0 :: RadosIOWorker where
  "demo_w0 = new_ioworker demo_empty"

lemma demo_winit: "winit demo_w0"
  using demo_provider_inv(2) by (auto simp: winit_def demo_w0_def)

theorem worker_fifo_witness:
  "\<exists>w. wstep\<^sup>*\<^sup>* demo_w0 w \<and> accepted w = [demo_req 1] \<and>
     accepted w = map fst (handled w) @ batch_of w @ Ops w"
proof -
  let ?w = "snd (io_Queue (demo_req 1) demo_w0)"
  have r: "wstep\<^sup>*\<^sup>* demo_w0 ?w" by (rule r_into_rtranclp) (rule wstep.queue [OF prod.collapse [symmetric]])
  have "accepted ?w = [demo_req 1]"
    by (simp add: io_Queue_def demo_w0_def new_ioworker_def notify_handler_def)
  then show ?thesis using worker_fifo [OF demo_winit r] r by blast
qed

definition handler_ready :: "RadosIOWorker \<Rightarrow> bool" where
  "handler_ready w \<longleftrightarrow> handler w \<in> {NotStarted, Woken} \<or> (\<exists>ls. handler w = Batch ls)"

definition stopper_ready :: "RadosIOWorker \<Rightarrow> bool" where
  "stopper_ready w \<longleftrightarrow> stopper w \<in> {EmptyWoken, StopReady} \<or> (stopper w = Joining \<and> handler w = Exited)"



text \<open>
  When stopping a worker has completed and no request was accepted after \<open>WaitForEmpty\<close> had
  returned, every accepted request has been handled: nothing is dropped.
\<close>

theorem stop_drains:
  assumes "winit w0" and "wstep\<^sup>*\<^sup>* w0 w" and "stopper w = Joined" and "\<not> late w"
  shows "map fst (handled w) = accepted w"
proof (rule ioworker.all_served [OF assms(1,2)])
  show "wpending w = []"
    using wctl_reach [OF assms(1,2)] assms(3,4)
    by (auto simp: wctl_def wpending_def batch_of_def split: handler_pc.splits)
qed

lemmas demo_run_simps = worker_op_defs demo_w0_def new_ioworker_def

theorem stop_drains_witness:
  "\<exists>w. wstep\<^sup>*\<^sup>* demo_w0 w \<and> stopper w = Joined \<and> \<not> late w \<and> map fst (handled w) = accepted w"
proof -
  let ?a = "WaitForEmpty_check demo_w0" let ?b = "StopProc_signal ?a" let ?c = "op_outer ?b"
  let ?d = "?c\<lparr>stopper := Joined\<rparr>"
  have st: "wstep demo_w0 ?a" "wstep ?a ?b" "wstep ?b ?c" "wstep ?c ?d"
    by (rule wstep.stop_call wstep.stop_proc wstep.start wstep.join; simp add: demo_run_simps)+
  have r: "wstep\<^sup>*\<^sup>* demo_w0 ?d"
    by (rule converse_rtranclp_into_rtranclp, rule st)+ (rule rtranclp.rtrancl_refl)
  have "stopper ?d = Joined" "\<not> late ?d" by (simp_all add: demo_run_simps)
  then show ?thesis using stop_drains [OF demo_winit r] r by blast
qed

text \<open>
  Without that restriction requests can be dropped: there is an execution in which a request is
  accepted (return value 0), the worker is stopped and joined, and the request is still in
  the queue, never handed to librados and its completion never called.
\<close>

theorem stop_can_drop:
  "\<exists>w. wstep\<^sup>*\<^sup>* demo_w0 w \<and> stopper w = Joined \<and> handler w = Exited \<and>
       accepted w = [demo_req 1] \<and> handled w = [] \<and> Ops w = [demo_req 1]"
proof -
  let ?s = "op_outer demo_w0" let ?a = "WaitForEmpty_check ?s" let ?q = "snd (io_Queue (demo_req 1) ?a)"
  let ?b = "StopProc_signal ?q" let ?c = "op_outer ?b" let ?d = "?c\<lparr>stopper := Joined\<rparr>"
  have st: "wstep demo_w0 ?s" "wstep ?s ?a" "wstep ?q ?b" "wstep ?b ?c" "wstep ?c ?d"
    by (rule wstep.stop_call wstep.stop_proc wstep.start wstep.wake wstep.join; simp add: demo_run_simps)+
  have q: "wstep ?a ?q" by (rule wstep.queue [OF prod.collapse [symmetric]])
  have r: "wstep\<^sup>*\<^sup>* demo_w0 ?d"
    by (rule converse_rtranclp_into_rtranclp, rule st q)+ (rule rtranclp.rtrancl_refl)
  show ?thesis
    by (rule exI [of _ ?d]) (use r in \<open>simp add: demo_run_simps\<close>)
qed

text \<open>
  All requests of a pool that a worker submits to librados are submitted on one and the same
  I/O context, which is live.
\<close>

theorem worker_one_context:
  assumes "winit w0" and "wstep\<^sup>*\<^sup>* w0 w"
    and "(rq1, Submitted p1 o1) \<in> set (handled w)" and "(rq2, Submitted p2 o2) \<in> set (handled w)"
    and "rop_poolId (req_op rq1) = rop_poolId (req_op rq2)"
  shows "p1 = p2 \<and> p1 \<in> fst ` set (live (ctxs (px w)))"
proof -
  have w: "wctx w" by (rule wctx_reach [OF assms(1,2)])
  then have "GetIoCtx_id (rop_poolId (req_op rq1)) (ptable (px w)) = Some p1"
    "GetIoCtx_id (rop_poolId (req_op rq2)) (ptable (px w)) = Some p2"
    using assms(3,4) by (force simp: wctx_def list_all_iff submitted_ok_def)+
  then show ?thesis using w assms(5) proxy.known_valid [of "px w"] by (auto simp: wctx_def)
qed

theorem worker_one_context_witness:
  "\<exists>w p o1. wstep\<^sup>*\<^sup>* demo_w0 w \<and> (demo_req 1, Submitted p o1) \<in> set (handled w) \<and>
     p \<in> fst ` set (live (ctxs (px w)))"
proof -
  let ?a = "snd (io_Queue (demo_req 1) demo_w0)" let ?b = "op_outer ?a"
  let ?c = "op_request demo_env (\<lambda>_. 0) (demo_req 1) [] ?b"
  have q: "wstep demo_w0 ?a" by (rule wstep.queue [OF prod.collapse [symmetric]])
  have hb: "handler ?b = Batch [demo_req 1]" by (simp add: demo_run_simps)
  have st: "wstep ?a ?b" "wstep ?b ?c"
    by (rule wstep.start, simp add: demo_run_simps) (rule wstep.request [OF hb])
  have r: "wstep\<^sup>*\<^sup>* demo_w0 ?c"
    by (rule converse_rtranclp_into_rtranclp, rule q st)+ (rule rtranclp.rtrancl_refl)
  have pb: "px ?b = demo_empty" "handled ?b = []" by (simp_all add: demo_run_simps)
  have "GetIoCtx2 demo_env 1 demo_empty = (Some 0, snd (GetIoCtx2 demo_env 1 demo_empty))"
    by (simp add: GetIoCtx2_def RadosCreateIoCtx2_cases demo_empty_def demo_env_def GetIoCtx_id_def)
  then have "\<exists>o1 s. process_request demo_env (\<lambda>_. 0) (demo_req 1) demo_empty = (Submitted 0 o1, s)"
    by (auto simp: process_request_def demo_req_def RadosWriteOpInit2_def rop_poolId_def
        RadosOperationAioOperate_def Let_def split: prod.splits)
  then obtain o1 s where pr: "process_request demo_env (\<lambda>_. 0) (demo_req 1) (px ?b) = (Submitted 0 o1, s)"
    using pb(1) by auto
  have m: "(demo_req 1, Submitted 0 o1) \<in> set (handled ?c)"
    unfolding op_request_def pr by simp
  show ?thesis
    using r m worker_one_context [OF demo_winit r m m refl] by (intro exI conjI) auto
qed

text \<open>Routing: an operation reaches only the worker of its pool, at the end of that worker's queue.\<close>

lemma RadosWorker_Queue_routes:
  assumes "map_wf (ioWorkers ws)" and "RadosWorker_Queue alloc s (Some operation) c ws = Inr (ret, ws')"
  shows "j \<noteq> rop_poolId operation \<Longrightarrow> GetIOWorker j ws' = GetIOWorker j ws"
    and "ret = 0 \<Longrightarrow> \<exists>w. GetIOWorker (rop_poolId operation) ws' = Some w \<and> Ops w \<noteq> [] \<and>
           last (Ops w) = \<lparr>req_op = operation, req_comp = c\<rparr>"
    and "rop_poolId operation < 0 \<Longrightarrow> ret = -1 \<and> ws' = ws" and "map_wf (ioWorkers ws')"
proof -
  have io: "fst (io_Queue rq w) = 0 \<Longrightarrow> Ops (snd (io_Queue rq w)) = Ops w @ [rq]" for rq w
    by (simp add: io_Queue_def Let_def notify_handler_def split: if_splits)
  note d = RadosWorker_Queue_def GetIOWorker_def CreateIOWorker_def Let_def
  show "j \<noteq> rop_poolId operation \<Longrightarrow> GetIOWorker j ws' = GetIOWorker j ws"
    using assms by (auto simp: d split: if_splits prod.splits option.splits)
  show "ret = 0 \<Longrightarrow> \<exists>w. GetIOWorker (rop_poolId operation) ws' = Some w \<and> Ops w \<noteq> [] \<and>
           last (Ops w) = \<lparr>req_op = operation, req_comp = c\<rparr>"
    using assms io [of "\<lparr>req_op = operation, req_comp = c\<rparr>"]
    by (auto simp: d split: if_splits prod.splits option.splits) (metis fst_conv snd_conv snoc_eq_iff_butlast)+
  show "rop_poolId operation < 0 \<Longrightarrow> ret = -1 \<and> ws' = ws" "map_wf (ioWorkers ws')"
    using assms by (auto simp: d split: if_splits prod.splits option.splits)
qed

end
