(* ===== verification/Worker_Pool.thy ===== *)
theory Worker_Pool
  imports Rados_Worker
begin

text \<open>
  All I/O workers of a proxy together, on the one table of I/O contexts they share: the interleaving of the critical sections of
  their threads, of operations being queued (which may create the worker of a new pool) and of other threads that look
  up contexts by pool id. A worker's step runs on the shared table and leaves it changed for the others.

  The invariant of one worker (\<open>Rados_Worker\<close>) is lifted to the whole; from it follow the order of requests per
  pool, the one context per pool over all workers, and that \<open>Stop\<close> loses nothing.
\<close>

section \<open>The step relation\<close>

inductive pstep :: "proxy_ctx \<times> RadosWorker \<Rightarrow> proxy_ctx \<times> RadosWorker \<Rightarrow> bool" where
  thread: "GetIOWorker k ws = Some w \<Longrightarrow> wstep (w\<lparr>px := s\<rparr>) w' \<Longrightarrow> accepted w' = accepted w \<Longrightarrow>
     pstep (s, ws) (px w', ws\<lparr>ioWorkers := map_put k w' (ioWorkers ws)\<rparr>)"
| enqueue_op: "RadosWorker_Queue alloc s (Some operation) c ws = Inr (r, ws') \<Longrightarrow> pstep (s, ws) (s, ws')"
| lookup: "GetIoCtx2 e k s = (r, s') \<Longrightarrow> pstep (s, ws) (s', ws)"
| fetch: "GetIoCtxFromCeph e k s = (r, s') \<Longrightarrow> pstep (s, ws) (s', ws)"

text \<open>\<open>RadosWorker::Stop\<close> has returned: every worker has been joined; the map is cleared.\<close>

definition all_joined :: "RadosWorker \<Rightarrow> bool" where
  "all_joined ws \<longleftrightarrow> list_all (\<lambda>kw. stopper (snd kw) = Joined) (ioWorkers ws)"

definition RadosWorker_Stop_end :: "RadosWorker \<Rightarrow> RadosWorker" where
  "RadosWorker_Stop_end ws = ws\<lparr>ioWorkers := []\<rparr>"

section \<open>The invariant\<close>

definition of_pool :: "int \<Rightarrow> RequestCtx \<Rightarrow> bool" where
  "of_pool k rq \<longleftrightarrow> rop_poolId (req_op rq) = k"

definition worker_inv :: "proxy_ctx \<Rightarrow> int \<Rightarrow> RadosIOWorker \<Rightarrow> bool" where
  "worker_inv s k w \<longleftrightarrow>
     wctl w \<and> list_all (submitted_ok s) (handled w) \<and> accepted w = map fst (handled w) @ wpending w \<and>
     list_all (of_pool k) (accepted w)"

definition pool_inv :: "proxy_ctx \<times> RadosWorker \<Rightarrow> bool" where
  "pool_inv sw \<longleftrightarrow>
     provider_inv (fst sw) \<and> map_wf (ioWorkers (snd sw)) \<and>
     (\<forall>k w. GetIOWorker k (snd sw) = Some w \<longrightarrow> worker_inv (fst sw) k w)"

text \<open>The state after \<open>Init\<close>: an empty table of workers.\<close>

definition pool_start :: "proxy_ctx \<times> RadosWorker \<Rightarrow> bool" where
  "pool_start sw \<longleftrightarrow> provider_inv (fst sw) \<and> ioWorkers (snd sw) = []"

definition ids_kept :: "proxy_ctx \<Rightarrow> proxy_ctx \<Rightarrow> bool" where
  "ids_kept s s' \<longleftrightarrow> (\<forall>j q. GetIoCtx_id j (ptable s) = Some q \<longrightarrow> GetIoCtx_id j (ptable s') = Some q)"

lemma ids_kept_refl [simp]: "ids_kept s s"
  by (simp add: ids_kept_def)

lemma submitted_ok_kept: "ids_kept s s' \<Longrightarrow> submitted_ok s h \<Longrightarrow> submitted_ok s' h"
  by (auto simp: ids_kept_def submitted_ok_def split: outcome.splits)

lemma worker_inv_kept: "ids_kept s s' \<Longrightarrow> worker_inv s k w \<Longrightarrow> worker_inv s' k w"
  by (auto simp: worker_inv_def list_all_iff intro: submitted_ok_kept)

lemma wctl_px [simp]: "wctl (w\<lparr>px := s\<rparr>) = wctl w"
  by (simp add: wctl_def)

lemma wpending_px [simp]: "wpending (w\<lparr>px := s\<rparr>) = wpending w"
  by (simp add: wpending_def batch_of_def)

text \<open>A step of one worker only adds contexts to the table.\<close>

lemma wstep_ids_kept: "wstep w w' \<Longrightarrow> provider_inv (px w) \<Longrightarrow> ids_kept (px w) (px w')"
proof (induction rule: wstep.induct)
  case (queue rq w r w')
  then show ?case using io_Queue_frame by fastforce
next
  case (request w rq ls e submit)
  then show ?case
    using process_request_ctx(2) [OF request.prems]
    by (fastforce simp: op_request_def ids_kept_def split: prod.splits)
next
  case (batch_end w)
  then show ?case
    using op_inner_fifo [of "w\<lparr>ioworkerRunning := False\<rparr>"] by (simp add: op_batch_end_def)
qed (simp_all add: wctx_frames)

lemma worker_inv_wstep:
  assumes inv: "provider_inv s" "worker_inv s k w" and st: "wstep (w\<lparr>px := s\<rparr>) w'" and acc: "accepted w' = accepted w"
  shows "worker_inv (px w') k w' \<and> provider_inv (px w')"
proof -
  have "wctx (w\<lparr>px := s\<rparr>)" using inv by (simp add: wctx_def worker_inv_def)
  then have c: "wctx w'" by (rule wctx_step [OF st])
  have "wctl w'" using wctl_step [OF st] inv(2) by (simp add: worker_inv_def)
  moreover have "accepted w' = map fst (handled w') @ wpending w'"
    by (rule ioworker.step_conserves [OF st]) (use inv(2) in \<open>simp add: worker_inv_def\<close>)
  moreover have "list_all (of_pool k) (accepted w')" using inv(2) unfolding acc worker_inv_def by blast
  ultimately show ?thesis using c unfolding worker_inv_def wctx_def by blast
qed

lemma worker_inv_queue:
  assumes "worker_inv s k w" and "io_Queue rq w = (r, w')" and "of_pool k rq"
  shows "worker_inv s k w'"
proof -
  have f: "accepted w' = map fst (handled w') @ wpending w'"
    by (rule ioworker.step_conserves [OF wstep.queue [OF assms(2)]]) (use assms(1) in \<open>simp add: worker_inv_def\<close>)
  have "accepted w' = accepted w \<or> accepted w' = accepted w @ [rq]"
    using assms(2) by (auto simp: io_Queue_def Let_def notify_handler_def split: if_splits)
  then have "list_all (of_pool k) (accepted w')"
    using assms(1,3) by (auto simp: worker_inv_def)
  then show ?thesis
    using f wctl_queue [OF _ assms(2)] io_Queue_frame [OF assms(2)] assms(1)
    by (simp add: worker_inv_def)
qed

lemma worker_inv_new: "worker_inv s k (new_ioworker s')"
proof -
  have "wctl (new_ioworker s')" by (simp add: wctl_def new_ioworker_def)
  then show ?thesis by (simp add: worker_inv_def new_ioworker_def wpending_def batch_of_def)
qed

lemma pool_inv_start: "pool_start sw \<Longrightarrow> pool_inv sw"
  by (simp add: pool_start_def pool_inv_def GetIOWorker_def)

text \<open>What \<open>Queue\<close> does to the map of workers: one entry, the one of the operation's pool.\<close>

lemma RadosWorker_Queue_entry:
  assumes "RadosWorker_Queue alloc s (Some operation) c ws = Inr (r, ws')"
  obtains "ws' = ws"
  | w w' where "GetIOWorker (rop_poolId operation) ws = Some w \<or> (GetIOWorker (rop_poolId operation) ws = None \<and> w = new_ioworker s)"
      "fst (io_Queue \<lparr>req_op = operation, req_comp = c\<rparr> w) = r" "w' = snd (io_Queue \<lparr>req_op = operation, req_comp = c\<rparr> w)"
      "\<And>j. map_wf (ioWorkers ws) \<Longrightarrow> GetIOWorker j ws' = (if j = rop_poolId operation then Some w' else GetIOWorker j ws)"
      "map_wf (ioWorkers ws) \<Longrightarrow> map_wf (ioWorkers ws')"
proof (cases "GetIOWorker (rop_poolId operation) ws")
  case None
  then show ?thesis
    using assms that(1) that(2) [of "new_ioworker s"]
    by (auto simp: RadosWorker_Queue_def CreateIOWorker_def GetIOWorker_def Let_def split: if_splits prod.splits)
next
  case (Some w)
  then show ?thesis
    using assms that(1) that(2) [of w]
    by (auto simp: RadosWorker_Queue_def GetIOWorker_def Let_def split: if_splits prod.splits)
qed

lemma GetIoCtxFromCeph_inv:
  assumes "provider_inv s" and "GetIoCtxFromCeph e k s = (r, s')"
  shows "provider_inv s' \<and> ids_kept s s'"
proof -
  have "s' = s \<or> s' = s\<lparr>ctxs := snd (new_ioctx (ById k) (ctxs s))\<rparr>"
    using assms(2) by (auto simp: GetIoCtxFromCeph_def RadosCreateIoCtx2_cases split: if_splits)
  then show ?thesis
    using assms(1) table_inv_new_ioctx by (auto simp: provider_inv_def proxy_inv_def ids_kept_def)
qed

lemma pool_inv_step [inv_intros]: "pstep sw sw' \<Longrightarrow> pool_inv sw \<Longrightarrow> pool_inv sw'"
proof (induction rule: pstep.induct)
  case (thread k ws w s w')
  have w: "worker_inv s k w" and s: "provider_inv s" and wf: "map_wf (ioWorkers ws)"
    using thread by (auto simp: pool_inv_def)
  have kept: "ids_kept s (px w')" using wstep_ids_kept [OF thread.hyps(2)] s by simp
  show ?case
    using worker_inv_wstep [OF s w thread.hyps(2,3)] worker_inv_kept [OF kept] thread.prems wf
    by (auto simp: pool_inv_def GetIOWorker_def)
next
  case (enqueue_op alloc s operation c ws r ws')
  from enqueue_op.hyps show ?case
  proof (cases rule: RadosWorker_Queue_entry)
    case 1
    then show ?thesis using enqueue_op.prems by simp
  next
    case (2 w w')
    let ?k = "rop_poolId operation" let ?rq = "\<lparr>req_op = operation, req_comp = c\<rparr>"
    have "worker_inv s ?k w" using 2(1) enqueue_op.prems worker_inv_new by (auto simp: pool_inv_def)
    moreover have "io_Queue ?rq w = (r, w')" using 2(2,3) by (simp add: prod_eq_iff)
    ultimately have "worker_inv s ?k w'" by (rule worker_inv_queue) (simp add: of_pool_def)
    then show ?thesis using enqueue_op.prems 2(4,5) by (auto simp: pool_inv_def)
  qed
next
  case (lookup e k s r s' ws)
  have s: "provider_inv s" using lookup by (simp add: pool_inv_def)
  have "ids_kept s s'" using proxy.get_keeps [OF s lookup.hyps] by (simp add: ids_kept_def)
  then show ?case
    using lookup.prems proxy.get_inv [OF s lookup.hyps] worker_inv_kept by (auto simp: pool_inv_def)
next
  case (fetch e k s r s' ws)
  have "provider_inv s" using fetch by (simp add: pool_inv_def)
  from GetIoCtxFromCeph_inv [OF this fetch.hyps] show ?case
    using fetch.prems worker_inv_kept by (auto simp: pool_inv_def)
qed

lemma pool_inv_reach: "pool_start sw0 \<Longrightarrow> pstep\<^sup>*\<^sup>* sw0 sw \<Longrightarrow> pool_inv sw"
  by (rotate_tac -1, induction rule: rtranclp_induct) (auto intro: pool_inv_start pool_inv_step)

lemma drained:
  assumes inv: "pool_inv (s, ws)" and "all_joined ws" and w: "GetIOWorker k ws = Some w" and "\<not> late w"
  shows "map fst (handled w) = accepted w"
proof -
  have i: "worker_inv s k w" and wf: "map_wf (ioWorkers ws)" using inv w by (auto simp: pool_inv_def)
  have "(k, w) \<in> set (ioWorkers ws)" using w smap.find_Some_iff [OF wf] by (simp add: GetIOWorker_def)
  then have "stopper w = Joined" using assms(2) by (auto simp: all_joined_def list_all_iff)
  then have "wpending w = []"
    using i assms(4) by (auto simp: worker_inv_def wctl_def wpending_def batch_of_def split: handler_pc.splits)
  then show ?thesis using i by (simp add: worker_inv_def)
qed

text \<open>A run of one worker's threads is a run of the whole.\<close>

lemma map_put_put:
  assumes "map_wf m"
  shows "map_put k v' (map_put k v m) = map_put k v' m"
  by (rule smap.same_find_same_entries) (use assms in \<open>auto simp: fun_eq_iff\<close>)

lemma pstep_thread_run:
  assumes "wstep\<^sup>+\<^sup>+ (w\<lparr>px := s\<rparr>) w'" and "accepted w' = accepted w"
    and "GetIOWorker k ws = Some w" and wf: "map_wf (ioWorkers ws)"
  shows "pstep\<^sup>*\<^sup>* (s, ws) (px w', ws\<lparr>ioWorkers := map_put k w' (ioWorkers ws)\<rparr>)"
  using assms(1,2)
proof (induction rule: tranclp_induct)
  case (base y)
  then show ?case using pstep.thread [OF assms(3)] by blast
next
  case (step y z)
  let ?ws = "ws\<lparr>ioWorkers := map_put k y (ioWorkers ws)\<rparr>"
  have "prefix (accepted (w\<lparr>px := s\<rparr>)) (accepted y)" "prefix (accepted y) (accepted z)"
    using ioworker.served_monotone [OF tranclp_into_rtranclp [OF step.hyps(1)]]
      ioworker.served_monotone [of y z] step.hyps(2) by auto
  then have acc: "accepted y = accepted w"
    using step.prems by (auto simp: prefix_order.eq_iff)
  have "GetIOWorker k ?ws = Some y" using wf by (simp add: GetIOWorker_def)
  then have "pstep (px y, ?ws) (px z, ws\<lparr>ioWorkers := map_put k z (ioWorkers ws)\<rparr>)"
    using pstep.thread [of k ?ws y "px y" z] step.hyps(2) step.prems acc map_put_put [OF wf] by simp
  then show ?case using step.IH [OF acc] by (rule rtranclp.rtrancl_into_rtrancl [rotated])
qed

text \<open>A proxy on which one write to pool 1 has been queued.\<close>

definition demo_ws0 :: RadosWorker where
  "demo_ws0 = \<lparr>ioWorkers = []\<rparr>"

definition demo_w1 :: RadosIOWorker where
  "demo_w1 = snd (io_Queue (demo_req 1) demo_w0)"

definition demo_ws1 :: RadosWorker where
  "demo_ws1 = \<lparr>ioWorkers = [(1, demo_w1)]\<rparr>"

lemma demo_pool_start: "pool_start (demo_empty, demo_ws0)"
  using demo_provider_inv(2) by (simp add: pool_start_def demo_ws0_def)

lemma demo_enqueued: "pstep\<^sup>*\<^sup>* (demo_empty, demo_ws0) (demo_empty, demo_ws1)"
proof -
  have "RadosWorker_Queue True demo_empty (Some (req_op (demo_req 1))) (req_comp (demo_req 1)) demo_ws0 = Inr (0, demo_ws1)"
    by (simp add: RadosWorker_Queue_def GetIOWorker_def CreateIOWorker_def demo_ws0_def demo_ws1_def demo_w1_def demo_w0_def
        demo_req_def RadosWriteOpInit2_def rop_poolId_def io_Queue_def new_ioworker_def notify_handler_def Let_def)
  then show ?thesis by (meson pstep.enqueue_op r_into_rtranclp)
qed

lemma demo_w1_px [simp]: "demo_w1\<lparr>px := demo_empty\<rparr> = demo_w1"
  by (simp add: demo_w1_def demo_w0_def io_Queue_def new_ioworker_def notify_handler_def)

lemma demo_get1 [simp]: "GetIOWorker 1 demo_ws1 = Some demo_w1" "map_wf (ioWorkers demo_ws1)"
  by (simp_all add: GetIOWorker_def demo_ws1_def map_find_def map_wf_def)

section \<open>Properties\<close>

text \<open>
  C2: Over all workers of a proxy and in every interleaving: the requests a worker has handled, then its batch, then its queue
  are the requests accepted for it, in order of acceptance, and all of them are requests of the one pool the worker
  serves. So requests of a pool are handled in the order in which they were accepted, once each, whatever happens in
  the other pools.
\<close>

theorem pool_fifo:
  assumes "pool_start sw0" and "pstep\<^sup>*\<^sup>* sw0 (s, ws)" and "GetIOWorker k ws = Some w"
  shows "accepted w = map fst (handled w) @ batch_of w @ Ops w \<and> (\<forall>rq \<in> set (accepted w). rop_poolId (req_op rq) = k)"
  using pool_inv_reach [OF assms(1,2)] assms(3)
  by (fastforce simp: pool_inv_def worker_inv_def wpending_def list_all_iff of_pool_def)

theorem pool_fifo_witness:
  "\<exists>s ws w. pstep\<^sup>*\<^sup>* (demo_empty, demo_ws0) (s, ws) \<and> GetIOWorker 1 ws = Some w \<and> accepted w = [demo_req 1] \<and>
     accepted w = map fst (handled w) @ batch_of w @ Ops w"
proof -
  have "accepted demo_w1 = [demo_req 1]"
    by (simp add: demo_w1_def demo_w0_def io_Queue_def new_ioworker_def notify_handler_def)
  then show ?thesis using pool_fifo [OF demo_pool_start demo_enqueued demo_get1(1)] demo_enqueued demo_get1(1) by blast
qed


text \<open>The worker of pool 1 takes the request and submits it.\<close>

definition demo_w2 :: RadosIOWorker where
  "demo_w2 = op_request demo_env (\<lambda>_. 0) (demo_req 1) [] (op_outer demo_w1)"

lemmas demo_w2_simps = demo_w1_def demo_w0_def worker_op_defs new_ioworker_def

lemma demo_run2: "wstep\<^sup>+\<^sup>+ demo_w1 demo_w2"
proof -
  have "wstep demo_w1 (op_outer demo_w1)" by (rule wstep.start) (simp add: demo_w2_simps)
  moreover have "wstep (op_outer demo_w1) demo_w2"
    unfolding demo_w2_def by (rule wstep.request) (simp add: demo_w2_simps)
  ultimately show ?thesis by (meson tranclp.r_into_trancl tranclp.trancl_into_trancl)
qed

lemma demo_w2_handled: "\<exists>o1. handled demo_w2 = [(demo_req 1, Submitted 0 o1)]" "accepted demo_w2 = accepted demo_w1"
  "handler demo_w2 = Batch []" "stopper demo_w2 = StopIdle" "Ops demo_w2 = []" "\<not> late demo_w2" "\<not> ioworkerStop demo_w2"
  "\<not> ioworkerEmptyWait demo_w2"
proof -
  have "GetIoCtx2 demo_env 1 demo_empty = (Some 0, snd (GetIoCtx2 demo_env 1 demo_empty))"
    by (simp add: GetIoCtx2_def RadosCreateIoCtx2_cases demo_empty_def demo_env_def GetIoCtx_id_def)
  then have "\<exists>o1 s. process_request demo_env (\<lambda>_. 0) (demo_req 1) demo_empty = (Submitted 0 o1, s)"
    by (auto simp: process_request_def demo_req_def RadosWriteOpInit2_def rop_poolId_def
        RadosOperationAioOperate_def Let_def split: prod.splits)
  then obtain o1 s where pr: "process_request demo_env (\<lambda>_. 0) (demo_req 1) demo_empty = (Submitted 0 o1, s)" by auto
  have d: "op_outer demo_w1 = (new_ioworker demo_empty)\<lparr>ioworkerRunning := True, handler := Batch [demo_req 1], accepted := [demo_req 1]\<rparr>"
    by (simp add: demo_w2_simps)
  show "\<exists>o1. handled demo_w2 = [(demo_req 1, Submitted 0 o1)]" "accepted demo_w2 = accepted demo_w1"
    "handler demo_w2 = Batch []" "stopper demo_w2 = StopIdle" "Ops demo_w2 = []" "\<not> late demo_w2" "\<not> ioworkerStop demo_w2"
    "\<not> ioworkerEmptyWait demo_w2"
    unfolding demo_w2_def d op_request_def by (simp_all add: new_ioworker_def pr demo_w1_def demo_w0_def io_Queue_def notify_handler_def)
qed


text \<open>
  C4: Stopping all workers loses no request: when every worker has been joined and none accepted a request after
  its \<open>WaitForEmpty\<close>, every accepted request of every pool has been handled.
\<close>

theorem pool_stop_drains:
  assumes "pool_start sw0" and "pstep\<^sup>*\<^sup>* sw0 (s, ws)" and "all_joined ws"
    and "GetIOWorker k ws = Some w" and "\<not> late w"
  shows "map fst (handled w) = accepted w"
  by (rule drained [OF pool_inv_reach [OF assms(1,2)] assms(3-5)])

lemma demo_run3: "\<exists>w. wstep\<^sup>+\<^sup>+ demo_w1 w \<and> accepted w = accepted demo_w1 \<and> stopper w = Joined \<and> \<not> late w"
proof -
  let ?b = "op_batch_end demo_w2" let ?c = "WaitForEmpty_check ?b" let ?d = "StopProc_signal ?c" let ?e = "op_outer ?d"
  let ?f = "?e\<lparr>stopper := Joined\<rparr>"
  have st: "wstep demo_w2 ?b" "wstep ?b ?c" "wstep ?c ?d" "wstep ?d ?e" "wstep ?e ?f"
    by (rule wstep.batch_end wstep.stop_call wstep.stop_proc wstep.wake wstep.join; simp add: worker_op_defs demo_w2_handled)+
  have "wstep\<^sup>+\<^sup>+ demo_w1 ?f"
    using demo_run2 st by (meson tranclp.trancl_into_trancl)
  moreover have "accepted ?f = accepted demo_w1" "\<not> late ?f" by (simp_all add: worker_op_defs demo_w2_handled)
  ultimately show ?thesis by (intro exI [of _ ?f]) simp
qed

theorem pool_stop_drains_witness:
  "\<exists>s ws w. pstep\<^sup>*\<^sup>* (demo_empty, demo_ws0) (s, ws) \<and> all_joined ws \<and> GetIOWorker 1 ws = Some w \<and>
     accepted w = [demo_req 1] \<and> map fst (handled w) = accepted w"
proof -
  obtain w where w: "wstep\<^sup>+\<^sup>+ demo_w1 w" "accepted w = accepted demo_w1" "stopper w = Joined" "\<not> late w"
    using demo_run3 by blast
  let ?ws = "demo_ws1\<lparr>ioWorkers := map_put 1 w (ioWorkers demo_ws1)\<rparr>"
  have r: "pstep\<^sup>*\<^sup>* (demo_empty, demo_ws0) (px w, ?ws)"
    using demo_enqueued pstep_thread_run [where w = demo_w1 and s = demo_empty and w' = w and k = 1 and ws = demo_ws1] w(1,2) by simp
  have g: "GetIOWorker 1 ?ws = Some w" by (simp add: GetIOWorker_def)
  have j: "all_joined ?ws" using w(3) by (simp add: all_joined_def demo_ws1_def)
  have "accepted w = [demo_req 1]"
    using w(2) by (simp add: demo_w1_def demo_w0_def io_Queue_def new_ioworker_def notify_handler_def)
  then show ?thesis using pool_stop_drains [OF demo_pool_start r j g w(4)] r j g by blast
qed

end
