(* ===== verification/Rados_Monitor.thy ===== *)
theory Rados_Monitor
  imports Proxy_Ctx
begin

text \<open>
  \<open>ceph_proxy/RadosMonitor.cc\<close> and \<open>CcmAdaptor.cc\<close>: the periodic scan of the pools. One scan asks the
  monitor for \<open>df\<close>, parses a line per pool, resolves the erasure-code profile or the replication
  factor of each, replaces the published table of pool usage, and reports the list of pools to the
  registered listener.

  The monitor's answers are a function from command to result. Floating point is a parameter:
  \<open>double_ops\<close> has the operations on \<open>double\<close> that the code uses, and nothing below depends on their
  values. The regular expression of a \<open>df\<close> line is a parameter too (\<open>df_match\<close>, the eleven groups of
  a match); the three smaller expressions are written out as functions. The shared mutex makes
  every reader and the two table updates atomic steps.
\<close>

section \<open>State\<close>

record 'd PoolUsageInfo =
  storedSize :: u64
  objectsNum :: u64
  usedSize :: u64
  useRatio :: 'd
  maxAvail :: u64
  version :: u64
  pk :: u32
  pm :: u32
  stripeUnit :: u32
  isEC :: bool

record 'd RecordInfo =
  ri_poolId :: u32
  ri_storedSize :: 'd
  ri_storedSizeUnit :: u64
  ri_objectsNum :: 'd
  ri_numUnit :: u64
  ri_usedSize :: 'd
  ri_usedSizeUnit :: u64
  ri_maxAvail :: 'd
  ri_maxAvailUnit :: u64
  ri_useRatio :: 'd
  ri_poolName :: string
  ri_profile :: string
  ri_isEC :: bool
  ri_ec_k :: u32
  ri_ec_m :: u32
  ri_stripeUnit :: u32
  ri_rep :: 'd

text \<open>The listener is the answer of the registered function on the reported pool ids.\<close>

record ClusterManagerAdaptor =
  notifyCreateFunc :: "(u32 list \<Rightarrow> int) option"

record 'd PoolUsageStat =
  poolInfoMap :: "(u32, 'd PoolUsageInfo) std_map"
  tmpPoolInfoMap :: "(u32, 'd PoolUsageInfo) std_map"
  poolList :: "u32 list"
  globalStripeSize :: u32
  ccm_adaptor :: "ClusterManagerAdaptor option"
  stop :: bool
  mpx :: proxy_ctx

record 'd double_ops =
  d_zero :: 'd
  d_atof :: "string \<Rightarrow> 'd"
  d_of_u64 :: "u64 \<Rightarrow> 'd"
  d_mul :: "'d \<Rightarrow> 'd \<Rightarrow> 'd"
  d_div :: "'d \<Rightarrow> 'd \<Rightarrow> 'd"
  d_to_u64 :: "'d \<Rightarrow> u64"

record 'd mon_env =
  mon_command :: "string \<Rightarrow> int \<times> string"
  df_match :: "string \<Rightarrow> string list option"
  dops :: "'d double_ops"
  renv :: rados_env
  malloc_ok :: bool

section \<open>Units and numbers\<close>

definition TransStrUnitToNum :: "string \<Rightarrow> u64" where
  "TransStrUnitToNum strUnit =
     (if c_str strUnit = ''PiB'' then 2 ^ 50
      else if c_str strUnit = ''TiB'' then 2 ^ 40
      else if c_str strUnit = ''GiB'' \<or> c_str strUnit = ''G'' then 2 ^ 30
      else if c_str strUnit = ''MiB'' \<or> c_str strUnit = ''M'' then 2 ^ 20
      else if c_str strUnit = ''KiB'' \<or> c_str strUnit = ''K'' then 2 ^ 10
      else if c_str strUnit = ''B'' then 1
      else 1)"

definition is_digit :: "char \<Rightarrow> bool" where
  "is_digit c \<longleftrightarrow> (let n = of_char c :: nat in 48 \<le> n \<and> n \<le> 57)"

definition is_word :: "char \<Rightarrow> bool" where
  "is_word c \<longleftrightarrow>
     (let n = of_char c :: nat
      in 48 \<le> n \<and> n \<le> 57 \<or> 65 \<le> n \<and> n \<le> 90 \<or> 97 \<le> n \<and> n \<le> 122 \<or> n = 95)"

text \<open>\<open>(\d+)\s?(\w+)?\<close>, matched against the whole string.\<close>

definition match_num_unit :: "string \<Rightarrow> (string \<times> string) option" where
  "match_num_unit s =
     (let d = takeWhile is_digit s;
          r = dropWhile is_digit s;
          r' = (case r of [] \<Rightarrow> [] | c # t \<Rightarrow> if isspace_c c then t else r)
      in if d \<noteq> [] \<and> list_all is_word r' then Some (d, r') else None)"

definition TransStrToNum :: "string \<Rightarrow> u64 \<Rightarrow> u64" where
  "TransStrToNum strNum num =
     (case match_num_unit strNum of
        Some (n, u) \<Rightarrow>
          let size1 = word_of_int (atoi n) :: u32; unit1 = TransStrUnitToNum u
          in ucast size1 * unit1
      | None \<Rightarrow> num)"

section \<open>Readers\<close>

definition GetPoolUsageInfo :: "u32 \<Rightarrow> 'd PoolUsageInfo option \<Rightarrow> 'd PoolUsageStat \<Rightarrow> int \<times> 'd PoolUsageInfo option" where
  "GetPoolUsageInfo poolId poolInfo st =
     (case poolInfo of
        None \<Rightarrow> (-22, None)
      | Some info \<Rightarrow>
          (case map_find (poolInfoMap st) poolId of
             None \<Rightarrow> (-1, Some info)
           | Some p \<Rightarrow>
               (0, Some (info\<lparr>storedSize := storedSize p, objectsNum := objectsNum p,
                   usedSize := usedSize p, useRatio := useRatio p, maxAvail := maxAvail p\<rparr>))))"

fun used_avail :: "('k \<times> 'd PoolUsageInfo) list \<Rightarrow> u64 \<Rightarrow> u64 \<Rightarrow> u64 \<times> u64" where
  "used_avail [] used avail = (used, avail)"
| "used_avail ((k, p) # m) used avail =
     used_avail m (used + usedSize p)
       (if avail = 0 \<and> maxAvail p \<noteq> 0 then maxAvail p else avail)"

definition GetPoolAllUsedAndAvail :: "'d PoolUsageStat \<Rightarrow> int \<times> u64 \<times> u64" where
  "GetPoolAllUsedAndAvail st =
     (let avail0 = (case poolInfoMap st of [] \<Rightarrow> 0 | (k, p) # m \<Rightarrow> maxAvail p)
      in (0, used_avail (poolInfoMap st) 0 avail0))"

record PoolInfo =
  pi_k :: u32
  pi_m :: u32
  pi_stripeUnit :: u32

definition GetPoolInfo :: "u32 \<Rightarrow> PoolInfo \<Rightarrow> 'd PoolUsageStat \<Rightarrow> int \<times> PoolInfo" where
  "GetPoolInfo poolId info st =
     (case map_find (poolInfoMap st) poolId of
        Some p \<Rightarrow> (0, info\<lparr>pi_k := pk p, pi_m := pm p, pi_stripeUnit := stripeUnit p\<rparr>)
      | None \<Rightarrow> (- ENOENT, info))"

section \<open>Profiles and replication\<close>

text \<open>\<open>erasure_code_profile:\s(\S+)\n?\<close>, matched against the whole string.\<close>

definition match_profile :: "string \<Rightarrow> string option" where
  "match_profile s =
     (let key = ''erasure_code_profile:'' in
      if take (length key) s = key then
        (case drop (length key) s of
           [] \<Rightarrow> None
         | c # t \<Rightarrow>
             let w = takeWhile (\<lambda>x. \<not> isspace_c x) t;
                 r = dropWhile (\<lambda>x. \<not> isspace_c x) t
             in if isspace_c c \<and> w \<noteq> [] \<and> (r = [] \<or> r = [CHR 0x0A]) then Some w else None)
      else None)"

definition IsECPool :: "'d mon_env \<Rightarrow> string \<Rightarrow> string \<Rightarrow> bool \<Rightarrow> int \<times> string \<times> bool" where
  \<open>IsECPool e poolName ecProfile isEC0 =
     (let cmd = ''{"var": "erasure_code_profile", "prefix": "osd pool get", "pool": "'' @ poolName @ ''"}'';
          (ret, outStr) = mon_command e cmd
      in if ret < 0 then
           (if ret = - EACCES then (0, ecProfile, False) else (ret, ecProfile, isEC0))
         else
           (case match_profile outStr of
              Some w \<Rightarrow> (0, c_str w, True)
            | None \<Rightarrow> (-1, ecProfile, True)))\<close>

text \<open>\<open>(\w+)=(\w+)\<close>, matched against the whole string.\<close>

definition match_assign :: "string \<Rightarrow> (string \<times> string) option" where
  "match_assign s =
     (let k = takeWhile is_word s
      in case dropWhile is_word s of
           [] \<Rightarrow> None
         | c # v \<Rightarrow> if k \<noteq> [] \<and> c = CHR ''='' \<and> v \<noteq> [] \<and> list_all is_word v then Some (k, v) else None)"

definition ParseECProfile :: "string \<Rightarrow> u32 \<times> u32 \<times> u32 \<Rightarrow> u32 \<times> u32 \<times> u32" where
  "ParseECProfile profile kms =
     (let (k, m, su) = kms in
      case match_assign profile of
        None \<Rightarrow> (k, m, su)
      | Some (key, v) \<Rightarrow>
          if key = ''k'' then (word_of_int (atoi v), m, su)
          else if key = ''m'' then (k, word_of_int (atoi v), su)
          else if key = ''stripe_unit'' then
            (let val = TransStrToNum v 0 in (k, m, if val \<noteq> 0 then ucast val else su))
          else (k, m, su))"

definition GetDefaultECStripeUnit :: "'d mon_env \<Rightarrow> fault + u32" where
  \<open>GetDefaultECStripeUnit e =
     (let cmd = ''{"prefix": "config get", "who": "osd.-1", "key": "osd_pool_erasure_code_stripe_unit"}'';
          (ret, out) = mon_command e cmd
      in if ret < 0 then Inr (word_of_int ret)
         else if CHR 0x0A \<notin> set out then Inl UncaughtException
         else
           let unit1 = takeWhile (\<lambda>c. c \<noteq> CHR 0x0A) out @ drop 1 (dropWhile (\<lambda>c. c \<noteq> CHR 0x0A) out);
               num = TransStrToNum unit1 0
           in Inr (if num \<noteq> 0 then ucast num else 4096))\<close>

text \<open>The default stripe unit is asked for once and kept in \<open>globalStripeSize\<close>.\<close>

definition default_stripe :: "'d mon_env \<Rightarrow> 'd PoolUsageStat \<Rightarrow> fault + u32 \<times> 'd PoolUsageStat" where
  "default_stripe e st =
     (if globalStripeSize st = 0 then
        (case GetDefaultECStripeUnit e of
           Inl f \<Rightarrow> Inl f
         | Inr su \<Rightarrow> Inr (su, st\<lparr>globalStripeSize := su\<rparr>))
      else Inr (globalStripeSize st, st))"

definition GetECProfileSize ::
    "'d mon_env \<Rightarrow> string \<Rightarrow> u32 \<times> u32 \<times> u32 \<Rightarrow> 'd PoolUsageStat
      \<Rightarrow> fault + int \<times> (u32 \<times> u32 \<times> u32) \<times> 'd PoolUsageStat" where
  \<open>GetECProfileSize e profileName kms st =
     (let cmd = ''{"prefix": "osd erasure-code-profile get", "name": "'' @ profileName @ ''"}'';
          (ret, out) = mon_command e cmd
      in if ret \<noteq> 0 then Inr (ret, kms, st)
         else
           (case default_stripe e st of
              Inl f \<Rightarrow> Inl f
            | Inr (su, st1) \<Rightarrow>
                let (k, m, _) = kms;
                    infoVector = strtok (CHR 0x0A) (c_str out)
                in Inr (0, foldl (\<lambda>acc l. ParseECProfile l acc) (k, m, su) infoVector, st1)))\<close>

definition GetPoolReplicationSize ::
    "'d mon_env \<Rightarrow> u32 \<Rightarrow> 'd \<Rightarrow> 'd PoolUsageStat \<Rightarrow> fault + int \<times> 'd \<times> 'd PoolUsageStat" where
  "GetPoolReplicationSize e poolId rep st =
     (let (ioctx, s) = GetIoCtx2 (renv e) (uint poolId) (mpx st);
          st1 = st\<lparr>mpx := s\<rparr>;
          d = dops e
      in case ioctx of
           None \<Rightarrow> Inr (-1, rep, st1)
         | Some p \<Rightarrow>
             (case GetPoolStat (renv e) True (Some p) s zero_CephPoolStat of
                Inl f \<Rightarrow> Inl f
              | Inr (ret, stat) \<Rightarrow>
                  if ret \<noteq> 0 then Inr (-1, rep, st1)
                  else if numObjects stat = 0 \<or> numObjectCopies stat = 0 then Inr (0, d_of_u64 d 3, st1)
                  else Inr (0, d_div d (d_mul d (d_of_u64 d (numObjectCopies stat)) (d_of_u64 d 1))
                                 (d_of_u64 d (numObjects stat)), st1)))"

section \<open>One line of the report\<close>

text \<open>Group \<open>i\<close> of the match; the match of the \<open>df\<close> expression has eleven groups.\<close>

definition smatch_group :: "string list \<Rightarrow> nat \<Rightarrow> string" where
  "smatch_group result i = (if 1 \<le> i \<and> i \<le> length result then result ! (i - 1) else [])"

definition ParseToRecordInfo ::
    "'d mon_env \<Rightarrow> string list \<Rightarrow> 'd RecordInfo \<Rightarrow> int \<times> 'd RecordInfo" where
  "ParseToRecordInfo e result info =
     (let d = dops e;
          g = (\<lambda>i. c_str (smatch_group result i));
          has = (\<lambda>i. i \<le> length result);
          i1 = (if has 1 then info\<lparr>ri_poolName := g 1\<rparr> else info);
          idn = atoi (g 2)
      in if has 2 \<and> idn < 0 then (-1, i1)
         else
           let i2 = (if has 2 then i1\<lparr>ri_poolId := word_of_int idn\<rparr> else i1);
               i3 = (if has 3 then i2\<lparr>ri_storedSize := d_atof d (g 3)\<rparr> else i2);
               i4 = (if has 4 then i3\<lparr>ri_storedSizeUnit := TransStrUnitToNum (g 4)\<rparr> else i3);
               i5 = (if has 5 then i4\<lparr>ri_objectsNum := d_atof d (g 5)\<rparr> else i4);
               i6 = (if has 6 then
                       (if length (smatch_group result 6) = 0 then i5\<lparr>ri_numUnit := 1\<rparr>
                        else if g 6 = ''k'' then i5\<lparr>ri_numUnit := 1024\<rparr>
                        else if g 6 = ''m'' then i5\<lparr>ri_numUnit := 1024 * 1024\<rparr>
                        else i5)
                     else i5);
               i7 = (if has 7 then i6\<lparr>ri_usedSize := d_atof d (g 7)\<rparr> else i6);
               i8 = (if has 8 then i7\<lparr>ri_usedSizeUnit := TransStrUnitToNum (g 8)\<rparr> else i7);
               i9 = (if has 9 then i8\<lparr>ri_useRatio := d_atof d (g 9)\<rparr> else i8);
               i10 = (if has 10 then i9\<lparr>ri_maxAvail := d_atof d (g 10)\<rparr> else i9);
               i11 = (if has 11 then i10\<lparr>ri_maxAvailUnit := TransStrUnitToNum (g 11)\<rparr> else i10);
               (ret, prof, ec) = IsECPool e (ri_poolName i11) (ri_profile i11) (ri_isEC i11);
               i12 = i11\<lparr>ri_profile := prof, ri_isEC := ec\<rparr>
           in if ret \<noteq> 0 then (-1, i12) else (0, i12))"

definition CalPoolSize ::
    "'d mon_env \<Rightarrow> 'd RecordInfo \<Rightarrow> 'd PoolUsageStat \<Rightarrow> fault + int \<times> 'd RecordInfo \<times> 'd PoolUsageStat" where
  "CalPoolSize e info st =
     (let d = dops e in
      if ri_isEC info then
        (case GetECProfileSize e (ri_profile info) (ri_ec_k info, ri_ec_m info, ri_stripeUnit info) st of
           Inl f \<Rightarrow> Inl f
         | Inr (ret, (k, m, su), st1) \<Rightarrow>
             let i1 = info\<lparr>ri_ec_k := k, ri_ec_m := m, ri_stripeUnit := su\<rparr>
             in if ret \<noteq> 0 then Inr (-1, i1, st1)
                else Inr (0, i1\<lparr>ri_rep := d_div d (d_mul d (d_of_u64 d (ucast (k + m))) (d_of_u64 d 1))
                                            (d_of_u64 d (ucast k))\<rparr>, st1))
      else
        (case default_stripe e st of
           Inl f \<Rightarrow> Inl f
         | Inr (su, st1) \<Rightarrow>
             let i1 = info\<lparr>ri_ec_k := 1, ri_ec_m := 2, ri_stripeUnit := su\<rparr>
             in (case GetPoolReplicationSize e (ri_poolId i1) (ri_rep i1) st1 of
                   Inl f \<Rightarrow> Inl f
                 | Inr (ret, rep, st2) \<Rightarrow>
                     if ret \<noteq> 0 then Inr (-1, i1\<lparr>ri_rep := rep\<rparr>, st2)
                     else Inr (0, i1\<lparr>ri_rep := rep\<rparr>, st2))))"

definition zero_RecordInfo :: "'d double_ops \<Rightarrow> 'd RecordInfo" where
  "zero_RecordInfo d =
     \<lparr>ri_poolId = 0, ri_storedSize = d_zero d, ri_storedSizeUnit = 1, ri_objectsNum = d_zero d, ri_numUnit = 1,
      ri_usedSize = d_zero d, ri_usedSizeUnit = 1, ri_maxAvail = d_zero d, ri_maxAvailUnit = 1,
      ri_useRatio = d_zero d, ri_poolName = [], ri_profile = [], ri_isEC = False, ri_ec_k = 0, ri_ec_m = 0,
      ri_stripeUnit = 0, ri_rep = d_zero d\<rparr>"

definition zero_PoolUsageInfo :: "'d double_ops \<Rightarrow> 'd PoolUsageInfo" where
  "zero_PoolUsageInfo d =
     \<lparr>storedSize = 0, objectsNum = 0, usedSize = 0, useRatio = d_zero d, maxAvail = 0, version = 0,
      pk = 0, pm = 0, stripeUnit = 0, isEC = False\<rparr>"

text \<open>\<open>m[key]\<close> on a map of usage records: the entry, or a zero one.\<close>

definition usage_at :: "'d double_ops \<Rightarrow> (u32, 'd PoolUsageInfo) std_map \<Rightarrow> u32 \<Rightarrow> 'd PoolUsageInfo" where
  "usage_at d m k = (case map_find m k of None \<Rightarrow> zero_PoolUsageInfo d | Some p \<Rightarrow> p)"

definition Record :: "'d mon_env \<Rightarrow> string list \<Rightarrow> 'd PoolUsageStat \<Rightarrow> fault + int \<times> 'd PoolUsageStat" where
  "Record e result st =
     (let d = dops e;
          (ret, info) = ParseToRecordInfo e result (zero_RecordInfo d)
      in if ret < 0 then Inr (-1, st)
         else
           (case CalPoolSize e info st of
              Inl f \<Rightarrow> Inl f
            | Inr (ret1, i1, st1) \<Rightarrow>
                if ret1 < 0 then Inr (ret1, st1)
                else
                  let k = ri_poolId i1;
                      p = (usage_at d (tmpPoolInfoMap st1) k)
                        \<lparr>storedSize := d_to_u64 d (d_mul d (ri_storedSize i1) (d_of_u64 d (ri_storedSizeUnit i1))),
                         objectsNum := d_to_u64 d (d_mul d (ri_objectsNum i1) (d_of_u64 d (ri_numUnit i1))),
                         usedSize := d_to_u64 d (d_mul d (ri_usedSize i1) (d_of_u64 d (ri_usedSizeUnit i1))),
                         useRatio := ri_useRatio i1,
                         maxAvail := d_to_u64 d (d_mul d (d_mul d (ri_maxAvail i1)
                                        (d_of_u64 d (ri_maxAvailUnit i1))) (ri_rep i1)),
                         pk := ri_ec_k i1, pm := ri_ec_m i1, stripeUnit := ri_stripeUnit i1,
                         isEC := ri_isEC i1\<rparr>
                  in Inr (0, st1\<lparr>tmpPoolInfoMap := map_put k p (tmpPoolInfoMap st1),
                                 poolList := poolList st1 @ [k]\<rparr>)))"

section \<open>Publishing a scan\<close>

definition publish_one ::
    "'d double_ops \<Rightarrow> (u32, 'd PoolUsageInfo) std_map \<Rightarrow> (u32, 'd PoolUsageInfo) std_map \<Rightarrow> u32
      \<Rightarrow> (u32, 'd PoolUsageInfo) std_map" where
  "publish_one d tmp m k =
     (let t = usage_at d tmp k
      in map_put k ((usage_at d m k)
           \<lparr>storedSize := storedSize t, objectsNum := objectsNum t, usedSize := usedSize t,
            useRatio := useRatio t, maxAvail := maxAvail t, pk := pk t, pm := pm t, isEC := isEC t,
            stripeUnit := stripeUnit t\<rparr>) m)"

text \<open>\<open>tmpPoolInfoMap[poolId]\<close> would insert a missing entry; it is dropped with the rest of the map.\<close>

definition Compare :: "'d double_ops \<Rightarrow> 'd PoolUsageStat \<Rightarrow> 'd PoolUsageStat" where
  "Compare d st =
     (let m1 = foldl (publish_one d (tmpPoolInfoMap st)) (poolInfoMap st) (poolList st);
          deletedPool = filter (\<lambda>k. k \<notin> set (poolList st)) (map fst m1);
          m2 = foldl (\<lambda>m k. map_erase k m) m1 deletedPool
      in st\<lparr>poolInfoMap := m2\<rparr>)"

fun record_lines :: "'d mon_env \<Rightarrow> string list \<Rightarrow> 'd PoolUsageStat \<Rightarrow> fault + int \<times> 'd PoolUsageStat" where
  "record_lines e [] st = Inr (0, st)"
| "record_lines e (l # ls) st =
     (case df_match e l of
        None \<Rightarrow> record_lines e ls st
      | Some result \<Rightarrow>
          (case Record e result st of
             Inl f \<Rightarrow> Inl f
           | Inr (ret, st1) \<Rightarrow> if ret \<noteq> 0 then Inr (-1, st1) else record_lines e ls st1))"

definition GetPoolStorageUsage :: "'d mon_env \<Rightarrow> string \<Rightarrow> 'd PoolUsageStat \<Rightarrow> fault + int \<times> 'd PoolUsageStat" where
  "GetPoolStorageUsage e input st =
     (case record_lines e (strtok (CHR 0x0A) (c_str input)) st of
        Inl f \<Rightarrow> Inl f
      | Inr (ret, st1) \<Rightarrow> if ret \<noteq> 0 then Inr (-1, st1) else Inr (0, Compare (dops e) st1))"

definition ReportCreatePool :: "bool \<Rightarrow> u32 list \<Rightarrow> ClusterManagerAdaptor \<Rightarrow> int \<times> u32 list option" where
  "ReportCreatePool malloc_ok1 pools a =
     (if pools \<noteq> [] \<and> \<not> malloc_ok1 then (-1, None)
      else case notifyCreateFunc a of
             Some f \<Rightarrow> (if f pools \<noteq> 0 then -1 else 0, Some pools)
           | None \<Rightarrow> (0, None))"

definition RegisterPoolCreateReportFn ::
    "(u32 list \<Rightarrow> int) option \<Rightarrow> ClusterManagerAdaptor \<Rightarrow> int \<times> ClusterManagerAdaptor" where
  "RegisterPoolCreateReportFn f a =
     (if f = None then (-1, a)
      else case notifyCreateFunc a of
             Some _ \<Rightarrow> (-1, a)
           | None \<Rightarrow> (0, a\<lparr>notifyCreateFunc := f\<rparr>))"

definition ReportPoolNewAndDel :: "bool \<Rightarrow> u32 list \<Rightarrow> 'd PoolUsageStat \<Rightarrow> fault + int \<times> u32 list option" where
  "ReportPoolNewAndDel malloc_ok1 newPools st =
     (case ccm_adaptor st of
        None \<Rightarrow> Inl NullDeref
      | Some a \<Rightarrow>
          let (ret, reported) = ReportCreatePool malloc_ok1 newPools a
          in Inr (if ret \<noteq> 0 then -1 else 0, reported))"

definition UpdatePoolList ::
    "bool \<Rightarrow> 'd PoolUsageStat \<Rightarrow> fault + int \<times> u32 list option \<times> 'd PoolUsageStat" where
  "UpdatePoolList malloc_ok1 st =
     (let tmpList = poolList st;
          st1 = st\<lparr>poolList := [], tmpPoolInfoMap := []\<rparr>
      in case ReportPoolNewAndDel malloc_ok1 tmpList st1 of
           Inl f \<Rightarrow> Inl f
         | Inr (ret, reported) \<Rightarrow> Inr (if ret \<noteq> 0 then -1 else 0, reported, st1))"

definition UpdatePoolUsage ::
    "'d mon_env \<Rightarrow> 'd PoolUsageStat \<Rightarrow> fault + int \<times> u32 list option \<times> 'd PoolUsageStat" where
  \<open>UpdatePoolUsage e st =
     (let (ret, out) = mon_command e ''{"prefix":"df"}''
      in if ret < 0 then Inr (ret, None, st)
         else
           (case GetPoolStorageUsage e out st of
              Inl f \<Rightarrow> Inl f
            | Inr (ret1, st1) \<Rightarrow>
                if ret1 \<noteq> 0 then Inr (-1, None, st1)
                else
                  (case UpdatePoolList (malloc_ok e) st1 of
                     Inl f \<Rightarrow> Inl f
                   | Inr (ret2, reported, st2) \<Rightarrow>
                       Inr (if ret2 \<noteq> 0 then -1 else 0, reported, st2))))\<close>

definition RegisterPoolNewNotifyFn ::
    "(u32 list \<Rightarrow> int) option \<Rightarrow> 'd PoolUsageStat \<Rightarrow> int \<times> 'd PoolUsageStat" where
  "RegisterPoolNewNotifyFn f st =
     (case ccm_adaptor st of
        None \<Rightarrow> (-1, st)
      | Some a \<Rightarrow>
          let (ret, a') = RegisterPoolCreateReportFn f a
          in if ret \<noteq> 0 then (-1, st) else (0, st\<lparr>ccm_adaptor := Some a'\<rparr>))"

text \<open>\<open>Start\<close> up to the creation of the timer thread, and one round of the timer.\<close>

definition PoolUsageStat_Start ::
    "bool \<Rightarrow> 'd mon_env \<Rightarrow> 'd PoolUsageStat \<Rightarrow> fault + u32 list option \<times> 'd PoolUsageStat" where
  "PoolUsageStat_Start alloc e st =
     (if \<not> alloc then Inr (None, st\<lparr>ccm_adaptor := None\<rparr>)
      else
        (case UpdatePoolUsage e (st\<lparr>ccm_adaptor := Some \<lparr>notifyCreateFunc = None\<rparr>\<rparr>) of
           Inl f \<Rightarrow> Inl f
         | Inr (ret, reported, st1) \<Rightarrow> Inr (reported, st1)))"

definition PoolUsageTimer_round ::
    "'d mon_env \<Rightarrow> 'd PoolUsageStat \<Rightarrow> fault + bool \<times> u32 list option \<times> 'd PoolUsageStat" where
  "PoolUsageTimer_round e st =
     (if stop st then Inr (False, None, st)
      else
        (case UpdatePoolUsage e st of
           Inl f \<Rightarrow> Inl f
         | Inr (ret, reported, st1) \<Rightarrow> Inr (True, reported, st1)))"

definition PoolUsageStat_Stop :: "'d PoolUsageStat \<Rightarrow> 'd PoolUsageStat" where
  "PoolUsageStat_Stop st = st\<lparr>stop := True\<rparr>"

section \<open>What a scan changes\<close>

definition line_pool :: "string list \<Rightarrow> u32" where
  "line_pool result = word_of_int (atoi (c_str (smatch_group result 2)))"

definition scan_pools :: "'d mon_env \<Rightarrow> string list \<Rightarrow> u32 list" where
  "scan_pools e ls = map line_pool (List.map_filter (df_match e) ls)"

text \<open>Everything but \<open>globalStripeSize\<close> and the context cache.\<close>

definition same_tables :: "'d PoolUsageStat \<Rightarrow> 'd PoolUsageStat \<Rightarrow> bool" where
  "same_tables st st' \<longleftrightarrow>
     poolInfoMap st' = poolInfoMap st \<and> tmpPoolInfoMap st' = tmpPoolInfoMap st \<and>
     poolList st' = poolList st \<and> ccm_adaptor st' = ccm_adaptor st \<and> stop st' = stop st"

lemma same_tables_trans: "same_tables a b \<Longrightarrow> same_tables b c \<Longrightarrow> same_tables a c"
  by (simp add: same_tables_def)

lemma default_stripe_tables: "default_stripe e st = Inr (su, st') \<Longrightarrow> same_tables st st' \<and> mpx st' = mpx st"
  by (auto simp: default_stripe_def same_tables_def split: sum.splits if_splits)

lemma GetPoolReplicationSize_tables:
  "GetPoolReplicationSize e k rep st = Inr (ret, rep', st') \<Longrightarrow> same_tables st st'"
  by (auto simp: GetPoolReplicationSize_def same_tables_def Let_def
      split: sum.splits if_splits option.splits prod.splits)

lemma GetECProfileSize_tables:
  "GetECProfileSize e pr kms st = Inr (ret, kms', st') \<Longrightarrow> same_tables st st'"
proof -
  assume *: "GetECProfileSize e pr kms st = Inr (ret, kms', st')"
  then consider "st' = st" | su where "default_stripe e st = Inr (su, st')"
    by (auto simp: GetECProfileSize_def Let_def split: prod.splits if_splits sum.splits)
  then show ?thesis using default_stripe_tables by cases (auto simp: same_tables_def)
qed

lemma CalPoolSize_tables:
  assumes "CalPoolSize e info st = Inr (ret, info', st')"
  shows "same_tables st st' \<and> ri_poolId info' = ri_poolId info"
proof (cases "ri_isEC info")
  case True
  obtain r k m su st1 where g: "GetECProfileSize e (ri_profile info) (ri_ec_k info, ri_ec_m info, ri_stripeUnit info) st =
      Inr (r, (k, m, su), st1)"
    using assms True by (auto simp: CalPoolSize_def Let_def split: sum.splits prod.splits)
  have "st' = st1 \<and> ri_poolId info' = ri_poolId info"
    using assms True g by (auto simp: CalPoolSize_def Let_def split: if_splits)
  then show ?thesis using GetECProfileSize_tables [OF g] by simp
next
  case False
  obtain su st1 where d: "default_stripe e st = Inr (su, st1)"
    using assms False by (auto simp: CalPoolSize_def Let_def split: sum.splits prod.splits)
  obtain r rep st2 where g: "GetPoolReplicationSize e (ri_poolId info) (ri_rep info) st1 = Inr (r, rep, st2)"
    using assms False d by (auto simp: CalPoolSize_def Let_def split: sum.splits prod.splits)
  have "st' = st2 \<and> ri_poolId info' = ri_poolId info"
    using assms False d g by (auto simp: CalPoolSize_def Let_def split: if_splits)
  then show ?thesis
    using default_stripe_tables [OF d] GetPoolReplicationSize_tables [OF g] same_tables_trans by blast
qed

lemma ParseToRecordInfo_pool:
  assumes "ParseToRecordInfo e result info = (0, info')" and "2 \<le> length result"
  shows "ri_poolId info' = line_pool result"
  using assms by (auto simp: ParseToRecordInfo_def line_pool_def Let_def split: prod.splits if_splits)

lemma ParseToRecordInfo_ret: "fst (ParseToRecordInfo e result info) = 0 \<or> fst (ParseToRecordInfo e result info) = -1"
  by (simp add: ParseToRecordInfo_def Let_def split: prod.splits)

lemma Record_ok:
  assumes "Record e result st = Inr (0, st')" and "2 \<le> length result"
  obtains p where "poolList st' = poolList st @ [line_pool result]" "poolInfoMap st' = poolInfoMap st"
    "tmpPoolInfoMap st' = map_put (line_pool result) p (tmpPoolInfoMap st)"
    "ccm_adaptor st' = ccm_adaptor st"
proof -
  obtain ret info where p: "ParseToRecordInfo e result (zero_RecordInfo (dops e)) = (ret, info)" by fastforce
  then have r0: "ret = 0"
    using assms(1) ParseToRecordInfo_ret [of e result "zero_RecordInfo (dops e)"] by (auto simp: Record_def Let_def)
  obtain ret1 i1 st1 where c: "CalPoolSize e info st = Inr (ret1, i1, st1)"
    using assms(1) p r0 by (auto simp: Record_def Let_def split: sum.splits prod.splits)
  note t = CalPoolSize_tables [OF c] and id = ParseToRecordInfo_pool [OF p [unfolded r0] assms(2)]
  show ?thesis
    using assms(1) p r0 c t id that by (auto simp: Record_def Let_def same_tables_def split: if_splits)
qed

lemma record_lines_ok:
  assumes "record_lines e ls st = Inr (0, st')" and "\<And>l r. df_match e l = Some r \<Longrightarrow> length r = 11"
  shows "poolList st' = poolList st @ scan_pools e ls \<and> poolInfoMap st' = poolInfoMap st \<and>
     ccm_adaptor st' = ccm_adaptor st \<and> (map_wf (tmpPoolInfoMap st) \<longrightarrow> map_wf (tmpPoolInfoMap st'))"
  using assms(1)
proof (induction ls arbitrary: st)
  case (Cons l ls)
  show ?case
  proof (cases "df_match e l")
    case None
    then show ?thesis using Cons by (simp add: scan_pools_def List.map_filter_simps)
  next
    case (Some r)
    obtain st1 where r1: "Record e r st = Inr (0, st1)" and r2: "record_lines e ls st1 = Inr (0, st')"
      using Cons.prems Some by (auto split: sum.splits prod.splits if_splits)
    have "2 \<le> length r" using assms(2) [OF Some] by simp
    from r1 this obtain p where "poolList st1 = poolList st @ [line_pool r]" "poolInfoMap st1 = poolInfoMap st"
      "tmpPoolInfoMap st1 = map_put (line_pool r) p (tmpPoolInfoMap st)" "ccm_adaptor st1 = ccm_adaptor st"
      by (rule Record_ok)
    then show ?thesis using Cons.IH [OF r2] Some by (simp add: scan_pools_def List.map_filter_simps)
  qed
qed (simp add: scan_pools_def List.map_filter_simps)

lemma publish_keys:
  "map_wf m \<Longrightarrow> map_wf (foldl (publish_one d tmp) m ks) \<and>
   dom (map_find (foldl (publish_one d tmp) m ks)) = dom (map_find m) \<union> set ks"
  by (induction ks arbitrary: m) (auto simp: publish_one_def Let_def split: if_splits)

lemma erase_keys:
  "map_wf m \<Longrightarrow> map_wf (foldl (\<lambda>m k. map_erase k m) m ks) \<and>
   map_find (foldl (\<lambda>m k. map_erase k m) m ks) = (map_find m) |` (- set ks)"
proof (induction ks arbitrary: m)
  case (Cons k ks)
  then show ?case using Cons.IH [of "map_erase k m"] by (auto simp: restrict_map_def fun_eq_iff)
qed (auto simp: restrict_map_def)

lemma Compare_keys:
  assumes "map_wf (poolInfoMap st)"
  shows "map_wf (poolInfoMap (Compare d st)) \<and> dom (map_find (poolInfoMap (Compare d st))) = set (poolList st)"
proof -
  let ?m = "foldl (publish_one d (tmpPoolInfoMap st)) (poolInfoMap st) (poolList st)"
  note p = publish_keys [OF assms, of d "tmpPoolInfoMap st" "poolList st"]
  then have "set (map fst ?m) = dom (map_find ?m)" using smap.dom_find [of ?m] by simp
  then show ?thesis using p erase_keys [of ?m] by (auto simp: Compare_def Let_def)
qed

section \<open>Properties\<close>


text \<open>
  A monitor to evaluate scans on: numbers are integers, a \<open>df\<close> line is its pool id, pool 1 is replicated and
  the profile query of pool 2 fails.
\<close>

definition demo_dops :: "int double_ops" where
  "demo_dops = \<lparr>d_zero = 0, d_atof = atoi, d_of_u64 = uint, d_mul = (*), d_div = (div), d_to_u64 = word_of_int\<rparr>"

definition demo_mon :: "string \<Rightarrow> int mon_env" where
  "demo_mon df =
     \<lparr>mon_command = (\<lambda>cmd. if cmd = ''{\"prefix\":\"df\"}'' then (0, df)
          else if cmd = ''{\"var\": \"erasure_code_profile\", \"prefix\": \"osd pool get\", \"pool\": \"1\"}'' then (- EACCES, [])
          else if cmd = ''{\"prefix\": \"config get\", \"who\": \"osd.-1\", \"key\": \"osd_pool_erasure_code_stripe_unit\"}''
            then (0, ''4K'' @ [CHR 0x0A])
          else (- EIO, [])),
      df_match = (\<lambda>l. if l = ''1'' \<or> l = ''2'' then Some [l, l, ''8'', ''KiB'', ''5'', [], ''16'', ''KiB'', ''0'', ''3'', ''B''] else None),
      dops = demo_dops, renv = demo_env, malloc_ok = True\<rparr>"

definition demo_stat :: "int PoolUsageStat" where
  "demo_stat = \<lparr>poolInfoMap = [], tmpPoolInfoMap = [], poolList = [], globalStripeSize = 0,
     ccm_adaptor = Some \<lparr>notifyCreateFunc = Some (\<lambda>_. 0)\<rparr>, stop = False, mpx = demo_empty\<rparr>"


text \<open>
  A scan that fails half-way poisons the next one: after a report of pools 1 and 2 whose second pool
  cannot be resolved, the scan fails; the next scan reports no pool at all and succeeds,
  and pool 1 is published and reported to the listener although the monitor no longer lists it.
\<close>

theorem failed_scan_leaves_pools:
  "\<exists>st1 st2. UpdatePoolUsage (demo_mon (''1'' @ [CHR 0x0A] @ ''2'')) demo_stat = Inr (-1, None, st1) \<and>
     UpdatePoolUsage (demo_mon []) st1 = Inr (0, Some [1], st2) \<and> map fst (poolInfoMap st2) = [1] \<and>
     scan_pools (demo_mon []) (strtok (CHR 0x0A) (c_str [])) = []"
proof -
  let ?r1 = "UpdatePoolUsage (demo_mon (''1'' @ [CHR 0x0A] @ ''2'')) demo_stat"
  let ?c2 = "\<lambda>st1. case UpdatePoolUsage (demo_mon []) st1 of Inl f \<Rightarrow> False
       | Inr (r2, rep2, st2) \<Rightarrow> r2 = 0 \<and> rep2 = Some [1] \<and> map fst (poolInfoMap st2) = [1]"
  have "case ?r1 of Inl f \<Rightarrow> False | Inr (r, rep, st1) \<Rightarrow> r = -1 \<and> rep = None \<and> ?c2 st1" by code_simp
  then obtain st1 where r1: "?r1 = Inr (-1, None, st1)" and c2: "?c2 st1" by (cases ?r1) auto
  then obtain st2 where "UpdatePoolUsage (demo_mon []) st1 = Inr (0, Some [1], st2)" "map fst (poolInfoMap st2) = [1]"
    by (cases "UpdatePoolUsage (demo_mon []) st1") auto
  moreover have "scan_pools (demo_mon []) (strtok (CHR 0x0A) (c_str [])) = []" by code_simp
  ultimately show ?thesis using r1 by (intro exI [of _ st1] exI [of _ st2] conjI)
qed

text \<open>
  The totals: the used size is the sum over the published pools (modulo \<open>2^64\<close>), and the
  available size is that of the first pool, in ascending pool id, that reports a non-zero one.
\<close>

theorem GetPoolAllUsedAndAvail_totals:
  "GetPoolAllUsedAndAvail st =
     (0, sum_list (map (\<lambda>kp. usedSize (snd kp)) (poolInfoMap st)),
      case filter (\<lambda>a. a \<noteq> 0) (map (\<lambda>kp. maxAvail (snd kp)) (poolInfoMap st)) of [] \<Rightarrow> 0 | a # _ \<Rightarrow> a)"
proof -
  let ?first = "\<lambda>m. case filter (\<lambda>a. a \<noteq> 0) (map (\<lambda>kp. maxAvail (snd kp)) m) of [] \<Rightarrow> 0 | a # _ \<Rightarrow> a"
  have "used_avail m u a = (u + sum_list (map (\<lambda>kp. usedSize (snd kp)) m), if a \<noteq> 0 then a else ?first m)"
    for m :: "(u32 \<times> 'a PoolUsageInfo) list" and u a
    by (induction m arbitrary: u a) (auto split: list.splits)
  then show ?thesis by (cases "poolInfoMap st") (auto simp: GetPoolAllUsedAndAvail_def split: list.splits)
qed

text \<open>
  When the monitor refuses the query of the default stripe unit, its negative error code, read as
  an unsigned 32-bit number, becomes the stripe unit of the pool and is kept: every later scan
  uses it without asking again, whatever the monitor would then answer.
\<close>

theorem stripe_error_sticks:
  assumes "globalStripeSize st = 0" and "ret < 0" and "- (2 ^ 31) \<le> ret"
    and "mon_command e ''{\"prefix\": \"config get\", \"who\": \"osd.-1\", \"key\": \"osd_pool_erasure_code_stripe_unit\"}'' = (ret, out)"
  shows "\<exists>su st'. default_stripe e st = Inr (su, st') \<and> uint su = 2 ^ 32 + ret \<and>
     (\<forall>e'. default_stripe e' st' = Inr (su, st'))"
proof -
  let ?w = "word_of_int ret :: u32"
  have u: "uint ?w = 2 ^ 32 + ret"
  proof -
    have "ret mod 2 ^ 32 = (ret + 2 ^ 32) mod 2 ^ 32" by simp
    also have "\<dots> = ret + 2 ^ 32" using assms(2,3) by (intro mod_pos_pos_trivial) auto
    finally show ?thesis by (simp add: uint_word_of_int)
  qed
  have "?w \<noteq> 0"
  proof
    assume "?w = 0"
    then have "2 ^ 32 + ret = 0" using u by simp
    then show False using assms(3) by simp
  qed
  then show ?thesis
    using assms u by (simp add: default_stripe_def GetDefaultECStripeUnit_def)
qed

theorem stripe_error_sticks_witness:
  "\<exists>su st'. default_stripe ((demo_mon [])\<lparr>mon_command := \<lambda>_. (- EACCES, [])\<rparr>) demo_stat = Inr (su, st') \<and>
     uint su = 4294967283 \<and> default_stripe (demo_mon []) st' = Inr (su, st')"
  using stripe_error_sticks [of demo_stat "- EACCES" "(demo_mon [])\<lparr>mon_command := \<lambda>_. (- EACCES, [])\<rparr>" "[]"]
  by (auto simp: demo_stat_def)

text \<open>The object count of a pool with millions of objects loses its unit.\<close>

lemma million_objects_unit:
  assumes "ParseToRecordInfo e result (zero_RecordInfo d) = (0, info)" and "length result = 11"
    and "smatch_group result 6 = ''M''"
  shows "ri_numUnit info = 1"
  using assms by (auto simp: ParseToRecordInfo_def zero_RecordInfo_def c_str_def Let_def split: prod.splits if_splits)

end
