(* ===== verification/Config_Read.thy ===== *)
theory Config_Read
  imports Rados_Client
begin

text \<open>
  \<open>ceph_proxy/ConfigRead.cc\<close> and \<open>server_adaptor/config_read.cpp\<close>: the two global configuration structures and how they are
  filled.

  The functions \<open>GetCfgItemCstr\<close> and \<open>GetCfgItemUint64\<close> belong to the configuration library of the cache and are a
  parameter: their return code and what they write. A character array of a structure is the string it holds; a
  write that does not fit into the array with its terminating NUL is \<open>OutOfBounds\<close>.
\<close>

section \<open>The configuration library\<close>

record cfg_env =
  GetCfgItemCstr :: "nat \<Rightarrow> string \<Rightarrow> string \<Rightarrow> int \<times> string option"
  GetCfgItemUint64 :: "string \<Rightarrow> string \<Rightarrow> int \<times> u64 option"

text \<open>What the library documents of \<open>GetCfgItemCstr\<close>: it never writes more than the size it is given.\<close>

definition cfg_env_ok :: "cfg_env \<Rightarrow> bool" where
  "cfg_env_ok E \<longleftrightarrow> (\<forall>n unit key s. snd (GetCfgItemCstr E n unit key) = Some s \<longrightarrow> length s < n)"

text \<open>
  One item: read it with the size the caller passes into an array of \<open>cap\<close> bytes, and go on when the library reports
  success.
\<close>

definition get_str ::
    "cfg_env \<Rightarrow> nat \<Rightarrow> nat \<Rightarrow> string \<Rightarrow> string \<Rightarrow> (string \<Rightarrow> 'c \<Rightarrow> 'c) \<Rightarrow> 'c \<Rightarrow> ('c \<Rightarrow> fault + int \<times> 'c) \<Rightarrow> fault + int \<times> 'c" where
  "get_str E cap destSize unit key upd c k =
     (case GetCfgItemCstr E destSize unit key of (ret, written) \<Rightarrow>
        (case written of
           Some s \<Rightarrow>
             if cap \<le> length s then Inl OutOfBounds
             else if ret \<noteq> 0 then Inr (-1, upd s c) else k (upd s c)
         | None \<Rightarrow> if ret \<noteq> 0 then Inr (-1, c) else k c))"

definition get_u64 ::
    "cfg_env \<Rightarrow> string \<Rightarrow> string \<Rightarrow> (u64 \<Rightarrow> 'c \<Rightarrow> 'c) \<Rightarrow> 'c \<Rightarrow> ('c \<Rightarrow> fault + int \<times> 'c) \<Rightarrow> fault + int \<times> 'c" where
  "get_u64 E unit key upd c k =
     (case GetCfgItemUint64 E unit key of (ret, written) \<Rightarrow>
        (let c1 = (case written of Some v \<Rightarrow> upd v c | None \<Rightarrow> c)
         in if ret \<noteq> 0 then Inr (-1, c1) else k c1))"

section \<open>The proxy\<close>

record ProxyControlCfg =
  zkServerList :: string
  cephConfPath :: string
  cephKeyringPath :: string
  coreIds :: string
  workerNum :: u64
  msgrAmount :: u64
  bindCore :: u64
  osdTimeout :: u64
  monTimeout :: u64

abbreviation MAX_PATH_LEN :: nat where "MAX_PATH_LEN \<equiv> 128"
abbreviation MAX_CORE_NUMBER :: nat where "MAX_CORE_NUMBER \<equiv> 128"

definition zero_ProxyCfg :: ProxyControlCfg where
  "zero_ProxyCfg =
     \<lparr>zkServerList = '''', cephConfPath = '''', cephKeyringPath = '''', coreIds = '''', workerNum = 0, msgrAmount = 0,
      bindCore = 0, osdTimeout = 0, monTimeout = 0\<rparr>"

definition InitClusterCfg :: "ProxyControlCfg \<Rightarrow> ProxyControlCfg" where
  "InitClusterCfg c =
     c\<lparr>zkServerList := ''localhost:2181'', cephConfPath := ''/etc/ceph/ceph.conf'', coreIds := ''26,27,28,29'',
       bindCore := 0, workerNum := 1, msgrAmount := 3, osdTimeout := 0, monTimeout := 0\<rparr>"

definition proxy_ReadConfig :: "cfg_env \<Rightarrow> ProxyControlCfg \<Rightarrow> fault + int \<times> ProxyControlCfg" where
  "proxy_ReadConfig E c0 =
     get_str E (MAX_PATH_LEN + 1) (MAX_PATH_LEN + 1) ''proxy'' ''ceph_conf_path'' (\<lambda>v. cephConfPath_update (\<lambda>_. v)) c0 (\<lambda>c1.
     get_str E (MAX_PATH_LEN + 1) (MAX_PATH_LEN + 1) ''proxy'' ''ceph_keyring_path'' (\<lambda>v. cephKeyringPath_update (\<lambda>_. v)) c1 (\<lambda>c2.
     get_str E (MAX_CORE_NUMBER + 1) (MAX_CORE_NUMBER + 1) ''proxy'' ''core_number'' (\<lambda>v. coreIds_update (\<lambda>_. v)) c2 (\<lambda>c3.
     get_u64 E ''proxy'' ''bind_core'' (\<lambda>v. bindCore_update (\<lambda>_. v)) c3 (\<lambda>c4.
     get_u64 E ''proxy'' ''rados_mon_op_timeout'' (\<lambda>v. monTimeout_update (\<lambda>_. v)) c4 (\<lambda>c5.
     get_u64 E ''proxy'' ''rados_osd_op_timeout'' (\<lambda>v. osdTimeout_update (\<lambda>_. v)) c5 (\<lambda>c6. Inr (0, c6)))))))"

definition ProxyConfigInit :: "cfg_env \<Rightarrow> fault + int \<times> ProxyControlCfg" where
  "ProxyConfigInit E = proxy_ReadConfig E (InitClusterCfg zero_ProxyCfg)"

text \<open>The accessors of the numbers return \<open>uint32_t\<close> or \<open>uint64_t\<close>.\<close>

definition ProxyGetBindCore :: "ProxyControlCfg \<Rightarrow> u32" where
  "ProxyGetBindCore c = ucast (bindCore c)"

definition ProxyGetWorkerNum :: "ProxyControlCfg \<Rightarrow> u32" where
  "ProxyGetWorkerNum c = ucast (workerNum c)"

definition ProxyGetMsgrAmount :: "ProxyControlCfg \<Rightarrow> u32" where
  "ProxyGetMsgrAmount c = ucast (msgrAmount c)"

definition ProxyGetZkServerList :: "ProxyControlCfg \<Rightarrow> string" where
  "ProxyGetZkServerList c = zkServerList c"

definition ProxyGetCoreNumber :: "ProxyControlCfg \<Rightarrow> string" where
  "ProxyGetCoreNumber c = coreIds c"

definition ProxyGetCephConf :: "ProxyControlCfg \<Rightarrow> string" where
  "ProxyGetCephConf c = cephConfPath c"

definition ProxyGetCephKeyring :: "ProxyControlCfg \<Rightarrow> string" where
  "ProxyGetCephKeyring c = cephKeyringPath c"

definition ProxyGetOsdTimeOut :: "ProxyControlCfg \<Rightarrow> u64" where
  "ProxyGetOsdTimeOut c = osdTimeout c"

definition ProxyGetMonTimeOut :: "ProxyControlCfg \<Rightarrow> u64" where
  "ProxyGetMonTimeOut c = monTimeout c"

lemmas proxy_getters [simp] = ProxyGetZkServerList_def ProxyGetCoreNumber_def ProxyGetCephConf_def ProxyGetCephKeyring_def
  ProxyGetOsdTimeOut_def ProxyGetMonTimeOut_def

section \<open>The health probe\<close>

text \<open>
  \<open>ceph_status\<close> of \<open>RadosWrapper.cc\<close> opens a connection of its own with the C interface of librados. The trace
  holds the calls that matter for the connection; the results of the two \<open>rados_conf_set\<close> calls are not looked at.
\<close>

definition read_path :: "cfg_env \<Rightarrow> string \<Rightarrow> int \<times> string" where
  "read_path E key = (case GetCfgItemCstr E 128 ''proxy'' key of (ret, w) \<Rightarrow> (ret, case w of None \<Rightarrow> '''' | Some s \<Rightarrow> s))"

definition proxyConfigSet :: "cfg_env \<Rightarrow> rados_env \<Rightarrow> int \<times> rados_event list" where
  "proxyConfigSet E e =
     (let (r1, conf) = read_path E ''ceph_conf_path'' in
      if r1 \<noteq> 0 then (r1, [])
      else let (r2, keyring) = read_path E ''ceph_keyring_path'' in
      if r2 \<noteq> 0 then (r2, [])
      else let r3 = conf_read_file_ret e conf; t3 = [EvConfReadFile conf] in
      if r3 \<noteq> 0 then (r3, t3)
      else let (r4, auth) = conf_get e ''auth_cluster_required'' in
      if r4 \<noteq> 0 then (r4, t3)
      else let t5 = t3 @ [EvConfSet ''client_mount_timeout'' ''0.9'', EvConfSet ''rados_mon_op_timeout'' ''0.9'']
      in (0, if c_str auth = ''cephx'' then t5 @ [EvConfSet ''keyring'' keyring] else t5))"

definition ceph_status :: "cfg_env \<Rightarrow> rados_env \<Rightarrow> bool \<times> rados_event list" where
  "ceph_status E e =
     (let (ret, t) = proxyConfigSet E e in
      if ret \<noteq> 0 then (False, t)
      else if connect_ret e 0 \<noteq> 0 then (False, t @ [EvConnect])
      else (fst (cluster_stat e) = 0, t @ [EvConnect, EvShutdown]))"

section \<open>The server adaptor\<close>

record SA_ClusterControlCfg =
  listenIp :: string
  listenPort :: string
  coreNumber :: string
  sc_queueAmount :: u64
  sc_msgrAmount :: u64
  sc_bindCore :: u64
  sc_bindQueueCore :: u64
  sc_queueMaxCapacity :: u64
  sc_writeQoS :: u64
  sc_getQuotaCyc :: u64
  sc_getMessengerThrottle :: u64
  sc_saOpThrottle :: u64

definition zero_SaCfg :: SA_ClusterControlCfg where
  "zero_SaCfg =
     \<lparr>listenIp = '''', listenPort = '''', coreNumber = '''', sc_queueAmount = 0, sc_msgrAmount = 0, sc_bindCore = 0,
      sc_bindQueueCore = 0, sc_queueMaxCapacity = 0, sc_writeQoS = 0, sc_getQuotaCyc = 0, sc_getMessengerThrottle = 0,
      sc_saOpThrottle = 0\<rparr>"

abbreviation MAX_IPV4_ADDR_LEN :: nat where "MAX_IPV4_ADDR_LEN \<equiv> 16"
abbreviation MAX_PORT_SIZE :: nat where "MAX_PORT_SIZE \<equiv> 128"

definition core_key :: "int \<Rightarrow> string" where
  "core_key cpuNum =
     (if cpuNum < 96 then ''core_number_64''
      else if cpuNum < 128 then ''core_number_96''
      else if cpuNum < 256 then ''core_number_128''
      else ''core_number_256'')"

definition SetCfgCorenum ::
    "cfg_env \<Rightarrow> int \<Rightarrow> SA_ClusterControlCfg \<Rightarrow> (SA_ClusterControlCfg \<Rightarrow> fault + int \<times> SA_ClusterControlCfg)
     \<Rightarrow> fault + int \<times> SA_ClusterControlCfg" where
  "SetCfgCorenum E cpuNum c k = get_str E MAX_PORT_SIZE MAX_PORT_SIZE ''sa'' (core_key cpuNum) (\<lambda>v. coreNumber_update (\<lambda>_. v)) c k"

definition sa_ReadNumbers :: "cfg_env \<Rightarrow> SA_ClusterControlCfg \<Rightarrow> fault + int \<times> SA_ClusterControlCfg" where
  "sa_ReadNumbers E c3 =
     get_u64 E ''sa'' ''queue_amount'' (\<lambda>v. sc_queueAmount_update (\<lambda>_. v)) c3 (\<lambda>c4.
     get_u64 E ''sa'' ''queue_max_capacity'' (\<lambda>v. sc_queueMaxCapacity_update (\<lambda>_. v)) c4 (\<lambda>c5.
     get_u64 E ''sa'' ''msgr_amount'' (\<lambda>v. sc_msgrAmount_update (\<lambda>_. v)) c5 (\<lambda>c6.
     get_u64 E ''sa'' ''bind_core'' (\<lambda>v. sc_bindCore_update (\<lambda>_. v)) c6 (\<lambda>c7.
     get_u64 E ''sa'' ''bind_queue_core'' (\<lambda>v. sc_bindQueueCore_update (\<lambda>_. v)) c7 (\<lambda>c8.
     get_u64 E ''sa'' ''write_qos'' (\<lambda>v. sc_writeQoS_update (\<lambda>_. v)) c8 (\<lambda>c9.
     get_u64 E ''sa'' ''get_quota_cyc'' (\<lambda>v. sc_getQuotaCyc_update (\<lambda>_. v)) c9 (\<lambda>c10.
     get_u64 E ''sa'' ''enable_messenger_throttle'' (\<lambda>v. sc_getMessengerThrottle_update (\<lambda>_. v)) c10 (\<lambda>c11.
     get_u64 E ''sa'' ''sa_op_throttle'' (\<lambda>v. sc_saOpThrottle_update (\<lambda>_. v)) c11 (\<lambda>c12. Inr (0, c12))))))))))"

text \<open>The port item is read with the size of an address, although its array is larger.\<close>

definition sa_ReadConfig :: "cfg_env \<Rightarrow> int \<Rightarrow> SA_ClusterControlCfg \<Rightarrow> fault + int \<times> SA_ClusterControlCfg" where
  "sa_ReadConfig E cpuNum c0 =
     get_str E MAX_IPV4_ADDR_LEN MAX_IPV4_ADDR_LEN ''communicate'' ''public_ipv4_addr'' (\<lambda>v. listenIp_update (\<lambda>_. v)) c0 (\<lambda>c1.
     get_str E MAX_PORT_SIZE MAX_IPV4_ADDR_LEN ''communicate'' ''local_port'' (\<lambda>v. listenPort_update (\<lambda>_. v)) c1 (\<lambda>c2.
     SetCfgCorenum E cpuNum c2 (sa_ReadNumbers E)))"

definition CacheClusterConfigInit :: "cfg_env \<Rightarrow> int \<Rightarrow> fault + int \<times> SA_ClusterControlCfg" where
  "CacheClusterConfigInit E cpuNum = sa_ReadConfig E cpuNum zero_SaCfg"

definition GetQueueAmount :: "SA_ClusterControlCfg \<Rightarrow> u32" where
  "GetQueueAmount c = ucast (sc_queueAmount c)"

definition GetMsgrAmount :: "SA_ClusterControlCfg \<Rightarrow> u32" where
  "GetMsgrAmount c = ucast (sc_msgrAmount c)"

definition GetBindCore :: "SA_ClusterControlCfg \<Rightarrow> u32" where
  "GetBindCore c = ucast (sc_bindCore c)"

definition GetBindQueueCore :: "SA_ClusterControlCfg \<Rightarrow> u32" where
  "GetBindQueueCore c = ucast (sc_bindQueueCore c)"

definition GetQueueMaxCapacity :: "SA_ClusterControlCfg \<Rightarrow> u32" where
  "GetQueueMaxCapacity c = ucast (sc_queueMaxCapacity c)"

definition GetWriteQoS :: "SA_ClusterControlCfg \<Rightarrow> u32" where
  "GetWriteQoS c = ucast (sc_writeQoS c)"

definition GetQuotCyc :: "SA_ClusterControlCfg \<Rightarrow> u32" where
  "GetQuotCyc c = ucast (sc_getQuotaCyc c)"

definition GetMessengerThrottle :: "SA_ClusterControlCfg \<Rightarrow> u32" where
  "GetMessengerThrottle c = ucast (sc_getMessengerThrottle c)"

definition GetSaOpThrottle :: "SA_ClusterControlCfg \<Rightarrow> u64" where
  "GetSaOpThrottle c = sc_saOpThrottle c"

text \<open>The caller makes a \<open>std::string\<close> of the array, which ends at the first null byte.\<close>

definition GetListenIp :: "SA_ClusterControlCfg \<Rightarrow> string" where
  "GetListenIp c = c_str (listenIp c)"

definition GetListenPort :: "SA_ClusterControlCfg \<Rightarrow> string" where
  "GetListenPort c = c_str (listenPort c)"

definition GetCoreNumber :: "SA_ClusterControlCfg \<Rightarrow> string" where
  "GetCoreNumber c = c_str (coreNumber c)"

lemmas sa_getters [simp] = GetListenIp_def GetListenPort_def GetCoreNumber_def

section \<open>Facts\<close>

text \<open>A property of every outcome of an item follows from its three ways on.\<close>

lemma get_str_ok:
  assumes "cfg_env_ok E" and "destSize \<le> cap"
    and "\<And>s. length s < destSize \<Longrightarrow> P (Inr (-1, upd s c))" and "P (Inr (-1, c))"
    and "\<And>s. length s < destSize \<Longrightarrow> P (k (upd s c))" and "P (k c)"
  shows "P (get_str E cap destSize unit key upd c k)"
proof -
  obtain ret w where g: "GetCfgItemCstr E destSize unit key = (ret, w)" by fastforce
  have "length s < destSize" if "w = Some s" for s
    using assms(1) g that unfolding cfg_env_ok_def by (metis snd_conv)
  then show ?thesis
    using g assms(2-) by (cases w) (auto simp: get_str_def)
qed

lemma get_u64_ok:
  assumes "\<And>v. P (Inr (-1, upd v c))" and "P (Inr (-1, c))" and "\<And>v. P (k (upd v c))" and "P (k c)"
  shows "P (get_u64 E unit key upd c k)"
  using assms by (cases "GetCfgItemUint64 E unit key"; cases "snd (GetCfgItemUint64 E unit key)") (auto simp: get_u64_def Let_def)

definition no_fault :: "fault + 'c \<Rightarrow> bool" where
  "no_fault x \<longleftrightarrow> (\<forall>f. x \<noteq> Inl f)"

lemma no_fault_simps [simp]: "no_fault (Inr y)" "\<not> no_fault (Inl f)"
  by (simp_all add: no_fault_def)

lemmas get_str_safe = get_str_ok [where P = no_fault, simplified]
  and get_u64_safe = get_u64_ok [where P = no_fault, simplified]

section \<open>Properties\<close>

lemma proxy_ReadConfig_safe: "cfg_env_ok E \<Longrightarrow> no_fault (proxy_ReadConfig E c)"
  unfolding proxy_ReadConfig_def by (intro get_str_safe get_u64_safe) simp_all

text \<open>The strings of the server adaptor's configuration with their bounds.\<close>

definition sa_cfg_fits :: "SA_ClusterControlCfg \<Rightarrow> bool" where
  "sa_cfg_fits c \<longleftrightarrow> length (listenIp c) < 16 \<and> length (listenPort c) < 16 \<and> length (coreNumber c) < MAX_PORT_SIZE"

definition sa_result :: "fault + int \<times> SA_ClusterControlCfg \<Rightarrow> bool" where
  "sa_result x \<longleftrightarrow> (\<exists>r c. x = Inr (r, c) \<and> r \<in> {0, -1} \<and> sa_cfg_fits c)"

lemma sa_result_Inr [simp]: "sa_result (Inr (r, c)) \<longleftrightarrow> r \<in> {0, -1} \<and> sa_cfg_fits c"
  by (auto simp: sa_result_def)

lemma sa_ReadNumbers_result: "sa_cfg_fits c \<Longrightarrow> sa_result (sa_ReadNumbers E c)"
  unfolding sa_ReadNumbers_def by (intro get_u64_ok [where P = sa_result]) (auto simp: sa_cfg_fits_def)

lemma sa_ReadConfig_result:
  assumes "cfg_env_ok E" and "sa_cfg_fits c0"
  shows "sa_result (sa_ReadConfig E cpuNum c0)"
  unfolding sa_ReadConfig_def SetCfgCorenum_def
  by (intro get_str_ok [where P = sa_result] sa_ReadNumbers_result assms(1))
    (use assms(2) in \<open>auto simp: sa_cfg_fits_def\<close>)

lemma CacheClusterConfigInit_result: "cfg_env_ok E \<Longrightarrow> sa_result (CacheClusterConfigInit E cpuNum)"
  unfolding CacheClusterConfigInit_def
  by (rule sa_ReadConfig_result) (simp_all add: sa_cfg_fits_def zero_SaCfg_def)

definition demo_cfg :: "string \<Rightarrow> cfg_env" where
  "demo_cfg port =
     \<lparr>GetCfgItemCstr = (\<lambda>n u k. if n = 0 then (-1, None) else (0, Some (take (n - 1) (if k = ''local_port'' then port else ''10.0.0.1'')))),
      GetCfgItemUint64 = (\<lambda>u k. (0, Some 1))\<rparr>"

lemma demo_cfg_ok: "cfg_env_ok (demo_cfg port)"
  by (auto simp: cfg_env_ok_def demo_cfg_def)

text \<open>What the six items of the proxy's configuration report.\<close>

definition proxy_items_ok :: "cfg_env \<Rightarrow> bool" where
  "proxy_items_ok E \<longleftrightarrow>
     list_all (\<lambda>k. fst (GetCfgItemCstr E 129 ''proxy'' k) = 0) [''ceph_conf_path'', ''ceph_keyring_path'', ''core_number''] \<and>
     list_all (\<lambda>k. fst (GetCfgItemUint64 E ''proxy'' k) = 0) [''bind_core'', ''rados_mon_op_timeout'', ''rados_osd_op_timeout'']"

definition proxy_cfg_fits :: "ProxyControlCfg \<Rightarrow> bool" where
  "proxy_cfg_fits c \<longleftrightarrow>
     length (cephConfPath c) \<le> MAX_PATH_LEN \<and> length (cephKeyringPath c) \<le> MAX_PATH_LEN \<and> length (coreIds c) \<le> MAX_CORE_NUMBER \<and>
     zkServerList c = ''localhost:2181'' \<and> workerNum c = 1 \<and> msgrAmount c = 3"

definition cfg_result :: "fault + int \<times> ProxyControlCfg \<Rightarrow> bool" where
  "cfg_result x \<longleftrightarrow> (\<exists>r c. x = Inr (r, c) \<and> r \<in> {0, -1} \<and> proxy_cfg_fits c)"

lemma cfg_result_Inr [simp]: "cfg_result (Inr (r, c)) \<longleftrightarrow> r \<in> {0, -1} \<and> proxy_cfg_fits c"
  by (auto simp: cfg_result_def)

lemma proxy_ReadConfig_result:
  assumes "cfg_env_ok E" and "proxy_cfg_fits c0"
  shows "cfg_result (proxy_ReadConfig E c0)"
  unfolding proxy_ReadConfig_def
  by (intro get_str_ok [where P = cfg_result] get_u64_ok [where P = cfg_result] assms(1))
    (use assms(2) in \<open>auto simp: proxy_cfg_fits_def\<close>)

text \<open>The return code: success exactly when every item reports success.\<close>

lemma get_str_ret:
  "no_fault (get_str E n n u key upd c k) \<Longrightarrow>
   (\<exists>c'. get_str E n n u key upd c k = Inr (0, c')) \<longleftrightarrow>
   fst (GetCfgItemCstr E n u key) = 0 \<and>
     (\<exists>c'. k (case snd (GetCfgItemCstr E n u key) of None \<Rightarrow> c | Some s \<Rightarrow> upd s c) = Inr (0, c'))"
  by (auto simp: get_str_def split: prod.splits option.splits if_splits)

lemma get_u64_ret:
  "(\<exists>c'. get_u64 E u key upd c k = Inr (0, c')) \<longleftrightarrow>
   fst (GetCfgItemUint64 E u key) = 0 \<and>
     (\<exists>c'. k (case snd (GetCfgItemUint64 E u key) of None \<Rightarrow> c | Some s \<Rightarrow> upd s c) = Inr (0, c'))"
  by (auto simp: get_u64_def Let_def split: prod.splits option.splits)

lemma proxy_ReadConfig_ret:
  assumes "cfg_env_ok E"
  shows "(\<exists>c. proxy_ReadConfig E c0 = Inr (0, c)) \<longleftrightarrow> proxy_items_ok E"
  unfolding proxy_ReadConfig_def
  apply (subst get_str_ret, (intro get_str_safe get_u64_safe assms; simp))+
  apply (simp add: get_u64_ret proxy_items_ok_def)
  done

text \<open>
  Reading the configuration of the proxy never overruns an array and always leaves a usable configuration: the result is
  0 exactly when the library finds every item, and -1 otherwise; in both cases the strings are terminated within
  their arrays and the fields that are not read keep their defaults, so that \<open>Init\<close> can go on with it.
\<close>

theorem ProxyConfigInit_outcome:
  assumes "cfg_env_ok E"
  shows "\<exists>c. ProxyConfigInit E = Inr (if proxy_items_ok E then 0 else -1, c) \<and> proxy_cfg_fits c"
proof -
  have "proxy_cfg_fits (InitClusterCfg zero_ProxyCfg)"
    by (simp add: proxy_cfg_fits_def InitClusterCfg_def zero_ProxyCfg_def)
  then have "cfg_result (ProxyConfigInit E)"
    unfolding ProxyConfigInit_def by (rule proxy_ReadConfig_result [OF assms])
  then show ?thesis
    using proxy_ReadConfig_ret [OF assms, of "InitClusterCfg zero_ProxyCfg"]
    by (auto simp: cfg_result_def ProxyConfigInit_def)
qed

theorem ProxyConfigInit_outcome_witness:
  "\<exists>c. ProxyConfigInit (demo_cfg ''7880'') = Inr (0, c) \<and> proxy_cfg_fits c"
  using ProxyConfigInit_outcome [OF demo_cfg_ok, of "''7880''"] by (simp add: proxy_items_ok_def demo_cfg_def)

text \<open>
  The health probe answers true only for a cluster it has reached: both paths were configured, the configuration file and
  the authentication option could be read, the connection was made and the cluster answered the query. It then has shut
  its connection down; the key ring is set exactly when the cluster asks for \<open>cephx\<close>.
\<close>

theorem ceph_status_healthy:
  assumes "ceph_status E e = (True, t)"
  shows "fst (read_path E ''ceph_conf_path'') = 0 \<and> fst (read_path E ''ceph_keyring_path'') = 0 \<and>
     conf_read_file_ret e (snd (read_path E ''ceph_conf_path'')) = 0 \<and> fst (conf_get e ''auth_cluster_required'') = 0 \<and>
     connect_ret e 0 = 0 \<and> fst (cluster_stat e) = 0 \<and> last t = EvShutdown \<and>
     ((\<exists>k. EvConfSet ''keyring'' k \<in> set t) \<longleftrightarrow> c_str (snd (conf_get e ''auth_cluster_required'')) = ''cephx'')"
  using assms
  by (cases "read_path E ''ceph_conf_path''"; cases "read_path E ''ceph_keyring_path''"; cases "conf_get e ''auth_cluster_required''")
    (auto simp: ceph_status_def proxyConfigSet_def Let_def split: if_splits)

theorem ceph_status_healthy_witness:
  "\<exists>t. ceph_status (demo_cfg ''7880'') (demo_env\<lparr>connect_ret := \<lambda>_. 0\<rparr>) = (True, t) \<and> last t = EvShutdown"
proof -
  let ?x = "ceph_status (demo_cfg ''7880'') (demo_env\<lparr>connect_ret := \<lambda>_. 0\<rparr>)"
  have "fst ?x"
    by (simp add: ceph_status_def proxyConfigSet_def read_path_def demo_cfg_def demo_env_def Let_def)
  then have x: "?x = (True, snd ?x)" by (simp add: prod_eq_iff)
  show ?thesis using ceph_status_healthy [OF x] x by blast
qed

end
