(* ===== verification/Ceph_Proxy.thy ===== *)
theory Ceph_Proxy
  imports Worker_Pool Rados_Monitor Config_Read
begin

text \<open>
  \<open>ceph_proxy/CephProxy.cc\<close>, \<open>CephProxy.h\<close> and \<open>CephProxyInterface.cc\<close>: the proxy object that ties the parts together (client,
  context table, I/O workers, pool monitor), its initialisation and shutdown, and the C interface on a handle.

  The constructor initialises only the state, so that a pointer member is first \<open>Uninit\<close>. A proxy is an object at an
  address of the process; the interface works on a handle that may be null or outdated. The writing of an operation
  (\<open>CephProxyWriteOp...\<close>, \<open>CephProxyReadOp...\<close>) is forwarded unchanged to the functions of \<open>Rados_Op\<close>.
\<close>

section \<open>The proxy object\<close>

datatype 'a slot = Uninit | Null | Obj 'a | Dangling

datatype CephProxyState = PROXY_INITING | PROXY_ACTIVE | PROXY_DOWN

record ProxyConfig =
  cf_cephConfigFile :: string
  cf_logPath :: string
  cf_workerNum :: u64

record 'd CephProxy =
  radosClient :: "unit slot"
  pctx :: proxy_ctx
  pconfig :: ProxyConfig
  worker :: "RadosWorker slot"
  poolStatManager :: "('d PoolUsageStat \<times> bool) slot"
  pstate :: CephProxyState

text \<open>
  The monitor object comes with whether its timer thread runs (a \<open>std::thread\<close> is joinable only then).
  \<open>pe_tasks\<close> is what \<open>/proc\<close> says of the threads.
\<close>

record 'd proxy_env =
  pe_cfg :: cfg_env
  pe_rados :: rados_env
  pe_pid :: int
  pe_tasks :: "(string \<times> string option) list"
  pe_alloc_worker :: bool
  pe_alloc_pools :: bool
  pe_alloc_ccm :: bool
  pe_mon :: "'d mon_env"

definition new_CephProxy :: "ctx_heap \<Rightarrow> 'd CephProxy" where
  "new_CephProxy h =
     \<lparr>radosClient = Uninit, pctx = \<lparr>ptable = \<lparr>table1 = [], table2 = []\<rparr>, ctxs = h\<rparr>,
      pconfig = \<lparr>cf_cephConfigFile = '''', cf_logPath = '''', cf_workerNum = 0\<rparr>,
      worker = Uninit, poolStatManager = Uninit, pstate = PROXY_DOWN\<rparr>"

definition new_PoolUsageStat :: "proxy_ctx \<Rightarrow> 'd PoolUsageStat" where
  "new_PoolUsageStat s =
     \<lparr>poolInfoMap = [], tmpPoolInfoMap = [], poolList = [], globalStripeSize = 0, ccm_adaptor = None, stop = False, mpx = s\<rparr>"

definition client_options :: "ProxyControlCfg \<Rightarrow> client_opts" where
  "client_options c =
     \<lparr>opt_ceph_conf = ProxyGetCephConf c, opt_keyring = ProxyGetCephKeyring c, opt_mon_timeout = ProxyGetMonTimeOut c,
      opt_osd_timeout = ProxyGetOsdTimeOut c\<rparr>"

definition bind_cores :: "'d proxy_env \<Rightarrow> ProxyControlCfg \<Rightarrow> fault + u32 list" where
  "bind_cores env cfg =
     (if pe_pid env \<noteq> - ENOSYS \<and> ProxyGetBindCore cfg = 1 then
        (let cores = map (\<lambda>t. word_of_int (atoi t)) (strtok (CHR 0x2C) (ProxyGetCoreNumber cfg)) in
         case RadosBindMsgrWorker cores (pe_tasks env) of Inl f \<Rightarrow> Inl f | Inr _ \<Rightarrow> Inr cores)
      else Inr [])"

definition set_client :: "client_slot \<Rightarrow> 'd CephProxy \<Rightarrow> 'd CephProxy" where
  "set_client sl p =
     (case sl of
        Untouched \<Rightarrow> p
      | ClientNull \<Rightarrow> p\<lparr>radosClient := Null\<rparr>
      | ClientReady \<Rightarrow> p\<lparr>radosClient := Obj ()\<rparr>)"

text \<open>The last part of \<open>Init\<close>: the monitor, whose first scan already uses the context table.\<close>

definition init_pools :: "'d proxy_env \<Rightarrow> int \<Rightarrow> 'd CephProxy \<Rightarrow> fault + int \<times> 'd CephProxy" where
  "init_pools env ret p =
     (if \<not> pe_alloc_pools env then Inr (-1, p\<lparr>poolStatManager := Null\<rparr>)
      else
        (case PoolUsageStat_Start (pe_alloc_ccm env) (pe_mon env) (new_PoolUsageStat (pctx p)) of
           Inl f \<Rightarrow> Inl f
         | Inr (reported, st1) \<Rightarrow>
             Inr (ret, p\<lparr>poolStatManager := Obj (st1, pe_alloc_ccm env), pctx := mpx st1, pstate := PROXY_ACTIVE\<rparr>)))"

definition CephProxy_Init :: "'d proxy_env \<Rightarrow> string \<Rightarrow> string \<Rightarrow> u64 \<Rightarrow> 'd CephProxy \<Rightarrow> fault + int \<times> 'd CephProxy" where
  "CephProxy_Init env cephConf logPath wNum p =
     (case ProxyConfigInit (pe_cfg env) of
        Inl f \<Rightarrow> Inl f
      | Inr (_, cfg) \<Rightarrow>
          let p1 = p\<lparr>pconfig := \<lparr>cf_cephConfigFile = cephConf, cf_logPath = logPath, cf_workerNum = wNum\<rparr>, pstate := PROXY_INITING\<rparr>;
              (ret, sl, evs) = RadosClientInit (pe_rados env) (client_options cfg);
              p2 = set_client sl p1
          in if ret < 0 then Inr (ret, p2)
             else
               let (ret3, t) = IOCtxTable_Init (ptable (pctx p2));
                   p3 = p2\<lparr>pctx := (pctx p2)\<lparr>ptable := t\<rparr>\<rparr>
               in if ret3 \<noteq> 0 then Inr (ret3, p3\<lparr>radosClient := Dangling\<rparr>)
                  else
                    (case bind_cores env cfg of
                       Inl f \<Rightarrow> Inl f
                     | Inr cores \<Rightarrow>
                         if \<not> pe_alloc_worker env then Inr (-1, p3\<lparr>worker := Null\<rparr>)
                         else init_pools env ret3 (p3\<lparr>worker := Obj (RadosWorker_Start \<lparr>ioWorkers = []\<rparr>)\<rparr>)))"

section \<open>Shutdown\<close>

text \<open>
  \<open>run\<close> is what the threads do while \<open>Stop\<close> waits for them: it takes the shared table and the workers to the state in which
  \<open>Stop\<close> has joined the last one.
\<close>

type_synonym schedule = "proxy_ctx \<times> RadosWorker \<Rightarrow> proxy_ctx \<times> RadosWorker"

definition stop_pools :: "'d CephProxy \<Rightarrow> fault + 'd CephProxy" where
  "stop_pools p =
     (case poolStatManager p of
        Uninit \<Rightarrow> Inl UninitRead
      | Null \<Rightarrow> Inr p
      | Dangling \<Rightarrow> Inl UseAfterFree
      | Obj (_, timer) \<Rightarrow> if timer then Inr (p\<lparr>poolStatManager := Null\<rparr>) else Inl UncaughtException)"

definition stop_worker :: "schedule \<Rightarrow> 'd CephProxy \<Rightarrow> fault + 'd CephProxy" where
  "stop_worker run p =
     (case worker p of
        Uninit \<Rightarrow> Inl UninitRead
      | Null \<Rightarrow> Inr p
      | Dangling \<Rightarrow> Inl UseAfterFree
      | Obj ws \<Rightarrow> (case run (pctx p, ws) of (s, ws1) \<Rightarrow> Inr (p\<lparr>pctx := s, worker := Null\<rparr>)))"

definition close_client :: "'d CephProxy \<Rightarrow> fault + 'd CephProxy" where
  "close_client p =
     (case radosClient p of
        Uninit \<Rightarrow> Inl UninitRead
      | Null \<Rightarrow> Inr p
      | Dangling \<Rightarrow> Inl UseAfterFree
      | Obj _ \<Rightarrow> Inr (p\<lparr>radosClient := Dangling\<rparr>))"

definition CephProxy_Shutdown :: "schedule \<Rightarrow> 'd CephProxy \<Rightarrow> fault + 'd CephProxy" where
  "CephProxy_Shutdown run p =
     (case stop_pools p of
        Inl f \<Rightarrow> Inl f
      | Inr p1 \<Rightarrow>
          (case stop_worker run p1 of
             Inl f \<Rightarrow> Inl f
           | Inr p2 \<Rightarrow>
               (case IOCtxTable_Clear (ptable (pctx p2)) (ctxs (pctx p2)) of
                  Inl f \<Rightarrow> Inl f
                | Inr (t, h) \<Rightarrow>
                    (case close_client (p2\<lparr>pctx := \<lparr>ptable = t, ctxs = h\<rparr>\<rparr>) of
                       Inl f \<Rightarrow> Inl f
                     | Inr p3 \<Rightarrow> Inr (p3\<lparr>pstate := PROXY_DOWN\<rparr>)))))"

section \<open>Requests on a proxy\<close>

definition CephProxy_Enqueue ::
    "bool \<Rightarrow> rados_object option \<Rightarrow> Completion \<Rightarrow> 'd CephProxy \<Rightarrow> fault + int \<times> 'd CephProxy" where
  "CephProxy_Enqueue alloc op c p =
     (case worker p of
        Uninit \<Rightarrow> Inl UninitRead
      | Null \<Rightarrow> Inl NullDeref
      | Dangling \<Rightarrow> Inl UseAfterFree
      | Obj ws \<Rightarrow>
          (case RadosWorker_Queue alloc (pctx p) op c ws of
             Inl f \<Rightarrow> Inl f
           | Inr (ret, ws1) \<Rightarrow> Inr (ret, p\<lparr>worker := Obj ws1\<rparr>)))"

text \<open>A call that goes to librados uses the client object.\<close>

definition with_client :: "'d CephProxy \<Rightarrow> fault + 'a \<Rightarrow> fault + 'a" where
  "with_client p x =
     (case radosClient p of Uninit \<Rightarrow> Inl UninitRead | Null \<Rightarrow> Inl NullDeref | Dangling \<Rightarrow> Inl UseAfterFree | Obj _ \<Rightarrow> x)"

text \<open>A query of the monitor, which is tested for null.\<close>

definition with_pools :: "'d CephProxy \<Rightarrow> fault + 'a \<Rightarrow> ('d PoolUsageStat \<Rightarrow> bool \<Rightarrow> fault + 'a) \<Rightarrow> fault + 'a" where
  "with_pools p down f =
     (case poolStatManager p of
        Uninit \<Rightarrow> Inl UninitRead
      | Null \<Rightarrow> down
      | Dangling \<Rightarrow> Inl UseAfterFree
      | Obj (st, timer) \<Rightarrow> f st timer)"

definition CephProxy_GetPoolUsedSizeAndMaxAvail :: "u64 \<times> u64 \<Rightarrow> 'd CephProxy \<Rightarrow> fault + int \<times> u64 \<times> u64" where
  "CephProxy_GetPoolUsedSizeAndMaxAvail ua p =
     with_pools p (Inr (-1, fst ua, snd ua)) (\<lambda>st _. Inr (GetPoolAllUsedAndAvail st))"

definition CephProxy_RegisterPoolNewNotifyFn :: "(u32 list \<Rightarrow> int) option \<Rightarrow> 'd CephProxy \<Rightarrow> fault + int \<times> 'd CephProxy" where
  "CephProxy_RegisterPoolNewNotifyFn f p =
     with_pools p (Inr (-1, p))
       (\<lambda>st timer. case RegisterPoolNewNotifyFn f st of (ret, st1) \<Rightarrow> Inr (ret, p\<lparr>poolStatManager := Obj (st1, timer)\<rparr>))"

definition CephProxy_GetPoolInfo :: "u32 \<Rightarrow> PoolInfo \<Rightarrow> 'd CephProxy \<Rightarrow> fault + int \<times> PoolInfo" where
  "CephProxy_GetPoolInfo pid info p = with_pools p (Inr (-1, info)) (\<lambda>st _. Inr (GetPoolInfo pid info st))"

section \<open>The process and the C interface\<close>

record 'd process =
  the_instance :: "nat option"
  proxies :: "(nat \<times> 'd CephProxy) list"
  next_proxy :: nat
  orphan_ctxs :: ctx_heap

type_synonym ceph_proxy_t = "nat option"

definition set_proxy :: "nat \<Rightarrow> 'd CephProxy \<Rightarrow> 'd process \<Rightarrow> 'd process" where
  "set_proxy a p pr = pr\<lparr>proxies := (a, p) # filter (\<lambda>x. fst x \<noteq> a) (proxies pr)\<rparr>"

text \<open>The member call \<open>cephProxy->f(...)\<close>.\<close>

definition call_proxy :: "ceph_proxy_t \<Rightarrow> 'd process \<Rightarrow> ('d CephProxy \<Rightarrow> fault + 'a) \<Rightarrow> fault + 'a" where
  "call_proxy h pr f =
     (case h of
        None \<Rightarrow> Inl NullDeref
      | Some a \<Rightarrow> (case map_of (proxies pr) a of None \<Rightarrow> Inl UseAfterFree | Some p \<Rightarrow> f p))"

text \<open>The same for a call that changes the proxy.\<close>

definition update_proxy ::
    "ceph_proxy_t \<Rightarrow> 'd process \<Rightarrow> ('d CephProxy \<Rightarrow> fault + 'a \<times> 'd CephProxy) \<Rightarrow> fault + 'a \<times> 'd process" where
  "update_proxy h pr f =
     call_proxy h pr (\<lambda>p. case f p of Inl e \<Rightarrow> Inl e | Inr (r, p1) \<Rightarrow> Inr (r, set_proxy (the h) p1 pr))"

definition GetProxy :: "bool \<Rightarrow> 'd process \<Rightarrow> ceph_proxy_t \<times> 'd process" where
  "GetProxy alloc pr =
     (case the_instance pr of
        Some a \<Rightarrow> (Some a, pr)
      | None \<Rightarrow>
          if alloc then
            (Some (next_proxy pr),
             (set_proxy (next_proxy pr) (new_CephProxy (orphan_ctxs pr)) pr)
               \<lparr>the_instance := Some (next_proxy pr), next_proxy := Suc (next_proxy pr)\<rparr>)
          else (None, pr))"

text \<open>The result of \<open>CephProxyInit\<close> has what is stored in \<open>*proxy\<close>, if anything is.\<close>

definition CephProxyInit ::
    "bool \<Rightarrow> 'd proxy_env \<Rightarrow> string option \<Rightarrow> u64 \<Rightarrow> string option \<Rightarrow> bool \<Rightarrow> 'd process
     \<Rightarrow> fault + int \<times> ceph_proxy_t option \<times> 'd process" where
  "CephProxyInit alloc env conf wNum log proxy_nonnull pr =
     (case (conf, log, proxy_nonnull) of
        (Some cf, Some lg, True) \<Rightarrow>
          (let (h, pr1) = GetProxy alloc pr in
           case update_proxy h pr1 (CephProxy_Init env (c_str cf) (c_str lg) wNum) of
             Inl f \<Rightarrow> Inl f
           | Inr (ret, pr2) \<Rightarrow> if ret < 0 then Inr (ret, Some None, pr2) else Inr (ret, Some h, pr2))
      | _ \<Rightarrow> Inr (- EINVAL, None, pr))"

text \<open>Contexts that the table did not own outlive the proxy.\<close>

definition CephProxyShutdown :: "schedule \<Rightarrow> ceph_proxy_t \<Rightarrow> 'd process \<Rightarrow> fault + 'd process" where
  "CephProxyShutdown run h pr =
     (case h of
        None \<Rightarrow> Inr pr
      | Some a \<Rightarrow>
          (case call_proxy h pr (CephProxy_Shutdown run) of
             Inl f \<Rightarrow> Inl f
           | Inr p \<Rightarrow>
               Inr (pr\<lparr>the_instance := None, proxies := filter (\<lambda>x. fst x \<noteq> a) (proxies pr), orphan_ctxs := ctxs (pctx p)\<rparr>)))"

definition GetCephProxyInstance :: "'d process \<Rightarrow> ceph_proxy_t" where
  "GetCephProxyInstance pr = the_instance pr"

definition CephProxyQueueOp ::
    "bool \<Rightarrow> ceph_proxy_t \<Rightarrow> rados_object option \<Rightarrow> Completion \<Rightarrow> 'd process \<Rightarrow> fault + int \<times> 'd process" where
  "CephProxyQueueOp alloc h op c pr =
     (if h = None then Inr (- EINVAL, pr) else update_proxy h pr (CephProxy_Enqueue alloc op c))"

text \<open>The client is used only when the table has no context for the pool.\<close>

definition CephProxyGetIoCtx :: "rados_env \<Rightarrow> ceph_proxy_t \<Rightarrow> string \<Rightarrow> 'd process \<Rightarrow> fault + rados_ioctx_t \<times> 'd process" where
  "CephProxyGetIoCtx e h poolname pr =
     update_proxy h pr (\<lambda>p.
       let r = (case GetIoCtx e (c_str poolname) (pctx p) of (io, s) \<Rightarrow> Inr (io, p\<lparr>pctx := s\<rparr>))
       in if GetIoCtx_name (c_str poolname) (ptable (pctx p)) = None then with_client p r else r)"

definition CephProxyGetIoCtx2 :: "rados_env \<Rightarrow> ceph_proxy_t \<Rightarrow> int \<Rightarrow> 'd process \<Rightarrow> fault + rados_ioctx_t \<times> 'd process" where
  "CephProxyGetIoCtx2 e h pid pr =
     (if h = None then Inr (None, pr)
      else update_proxy h pr (\<lambda>p.
        let r = (case GetIoCtx2 e pid (pctx p) of (io, s) \<Rightarrow> Inr (io, p\<lparr>pctx := s\<rparr>))
        in if GetIoCtx_id pid (ptable (pctx p)) = None then with_client p r else r))"

definition CephProxyGetIoCtxFromCeph ::
    "rados_env \<Rightarrow> ceph_proxy_t \<Rightarrow> int \<Rightarrow> 'd process \<Rightarrow> fault + rados_ioctx_t \<times> 'd process" where
  "CephProxyGetIoCtxFromCeph e h pid pr =
     (if h = None then Inr (None, pr)
      else update_proxy h pr (\<lambda>p. with_client p (case GetIoCtxFromCeph e pid (pctx p) of (io, s) \<Rightarrow> Inr (io, p\<lparr>pctx := s\<rparr>))))"

definition CephProxyGetPoolIdByPoolName :: "rados_env \<Rightarrow> ceph_proxy_t \<Rightarrow> string \<Rightarrow> 'd process \<Rightarrow> fault + int \<times> 'd process" where
  "CephProxyGetPoolIdByPoolName e h pool pr =
     update_proxy h pr (\<lambda>p. with_client p
       (case GetPoolIdByPoolName e (c_str pool) (pctx p) of Inl f \<Rightarrow> Inl f | Inr (r, s) \<Rightarrow> Inr (r, p\<lparr>pctx := s\<rparr>)))"

definition CephProxyGetPoolNameByPoolId ::
    "rados_env \<Rightarrow> ceph_proxy_t \<Rightarrow> int \<Rightarrow> bytes \<Rightarrow> u32 \<Rightarrow> 'd process \<Rightarrow> fault + (int \<times> bytes) \<times> 'd process" where
  "CephProxyGetPoolNameByPoolId e h pid dest maxLen pr =
     update_proxy h pr (\<lambda>p. with_client p
       (case GetPoolNameByPoolId e pid dest maxLen (pctx p) of
          Inl f \<Rightarrow> Inl f | Inr (r, dest1, s) \<Rightarrow> Inr ((r, dest1), p\<lparr>pctx := s\<rparr>)))"

definition CephProxyGetPoolIdByCtx :: "rados_env \<Rightarrow> ceph_proxy_t \<Rightarrow> rados_ioctx_t \<Rightarrow> 'd process \<Rightarrow> fault + int" where
  "CephProxyGetPoolIdByCtx e h ioctx pr = call_proxy h pr (\<lambda>p. GetPoolIdByCtx e ioctx (pctx p))"

definition CephProxyGetMinAllocSize ::
    "rados_env \<Rightarrow> ceph_proxy_t \<Rightarrow> u32 \<Rightarrow> CEPH_BDEV_TYPE_E \<Rightarrow> 'd process \<Rightarrow> fault + int \<times> u32" where
  "CephProxyGetMinAllocSize e h minAllocSize ty pr = call_proxy h pr (\<lambda>p. with_client p (Inr (GetMinAllocSize e minAllocSize ty)))"

definition CephProxyGetClusterStat ::
    "rados_env \<Rightarrow> ceph_proxy_t \<Rightarrow> CephClusterStat option \<Rightarrow> 'd process \<Rightarrow> fault + int \<times> CephClusterStat option" where
  "CephProxyGetClusterStat e h res pr =
     (case (h, res) of
        (Some _, Some stat) \<Rightarrow> call_proxy h pr (\<lambda>p. with_client p (Inr (map_prod id Some (GetClusterStat e stat))))
      | _ \<Rightarrow> Inr (- EINVAL, res))"

definition CephProxyGetPoolStat ::
    "rados_env \<Rightarrow> ceph_proxy_t \<Rightarrow> rados_ioctx_t \<Rightarrow> CephPoolStat option \<Rightarrow> 'd process \<Rightarrow> fault + int \<times> CephPoolStat option" where
  "CephProxyGetPoolStat e h io stats pr =
     (case (h, stats) of
        (Some _, Some stat) \<Rightarrow>
          call_proxy h pr (\<lambda>p.
            let r = (\<lambda>nonnull. case GetPoolStat e nonnull io (pctx p) stat of Inl f \<Rightarrow> Inl f | Inr (r, stat1) \<Rightarrow> Inr (r, Some stat1))
            in if io = None \<or> radosClient p = Null then r False else with_client p (r True))
      | _ \<Rightarrow> Inr (- EINVAL, stats))"

definition CephProxyGetPoolsStat ::
    "rados_env \<Rightarrow> ceph_proxy_t \<Rightarrow> CephPoolStat list \<Rightarrow> u64 list \<Rightarrow> 'd process \<Rightarrow> fault + int \<times> CephPoolStat list" where
  "CephProxyGetPoolsStat e h stats pids pr =
     (if h = None then Inr (- EINVAL, stats) else call_proxy h pr (\<lambda>p. with_client p (Inr (GetPoolsStat e stats pids))))"

definition state_code :: "CephProxyState \<Rightarrow> int" where
  "state_code s = (case s of PROXY_INITING \<Rightarrow> 1 | PROXY_ACTIVE \<Rightarrow> 2 | PROXY_DOWN \<Rightarrow> 3)"

definition CephProxyGetState :: "ceph_proxy_t \<Rightarrow> 'd process \<Rightarrow> fault + int" where
  "CephProxyGetState h pr = call_proxy h pr (\<lambda>p. Inr (state_code (pstate p)))"

definition CephProxyGetUsedSizeAndMaxAvail :: "ceph_proxy_t \<Rightarrow> u64 \<times> u64 \<Rightarrow> 'd process \<Rightarrow> fault + int \<times> u64 \<times> u64" where
  "CephProxyGetUsedSizeAndMaxAvail h ua pr =
     (if h = None then Inr (- EINVAL, fst ua, snd ua) else call_proxy h pr (CephProxy_GetPoolUsedSizeAndMaxAvail ua))"

definition CephProxyRegisterPoolNewNotifyFn :: "(u32 list \<Rightarrow> int) option \<Rightarrow> 'd process \<Rightarrow> fault + int \<times> 'd process" where
  "CephProxyRegisterPoolNewNotifyFn f pr =
     (let h = GetCephProxyInstance pr
      in if h = None then Inr (- EINVAL, pr) else update_proxy h pr (CephProxy_RegisterPoolNewNotifyFn f))"

definition CephProxyGetPoolInfo :: "ceph_proxy_t \<Rightarrow> u32 \<Rightarrow> PoolInfo option \<Rightarrow> 'd process \<Rightarrow> fault + int \<times> PoolInfo option" where
  "CephProxyGetPoolInfo h pid info pr =
     (case (h, info) of
        (Some _, Some i) \<Rightarrow>
          call_proxy h pr (\<lambda>p. case CephProxy_GetPoolInfo pid i p of Inl f \<Rightarrow> Inl f | Inr (r, i1) \<Rightarrow> Inr (r, Some i1))
      | _ \<Rightarrow> Inr (- EINVAL, info))"

definition CephProxyWriteOpInit2 :: "bool \<Rightarrow> bool \<Rightarrow> int \<Rightarrow> string option \<Rightarrow> int \<times> RadosObjectWriteOp option option" where
  "CephProxyWriteOpInit2 alloc op_nonnull pid oid =
     (case (op_nonnull, oid) of
        (True, Some name) \<Rightarrow> (let op = RadosWriteOpInit2 alloc pid (c_str name) in (if op = None then -1 else 0, Some op))
      | _ \<Rightarrow> (- EINVAL, None))"

definition CephProxyReadOpInit2 :: "bool \<Rightarrow> bool \<Rightarrow> int \<Rightarrow> string option \<Rightarrow> int \<times> RadosObjectReadOp option option" where
  "CephProxyReadOpInit2 alloc op_nonnull pid oid =
     (case (op_nonnull, oid) of
        (True, Some name) \<Rightarrow> (let op = RadosReadOpInit2 alloc pid (c_str name) in (if op = None then -1 else 0, Some op))
      | _ \<Rightarrow> (- EINVAL, None))"

section \<open>The monitor on the shared table\<close>

text \<open>A scan looks contexts up and so only adds to the table.\<close>

definition mon_grows :: "'d PoolUsageStat \<Rightarrow> 'd PoolUsageStat \<Rightarrow> bool" where
  "mon_grows st st' \<longleftrightarrow> (provider_inv (mpx st) \<longrightarrow> provider_inv (mpx st') \<and> ids_kept (mpx st) (mpx st'))"

lemma mon_grows_same: "mpx st' = mpx st \<Longrightarrow> mon_grows st st'"
  by (simp add: mon_grows_def)

lemma mon_grows_trans: "mon_grows st st1 \<Longrightarrow> mon_grows st1 st2 \<Longrightarrow> mon_grows st st2"
  by (auto simp: mon_grows_def ids_kept_def)

lemma GetPoolReplicationSize_grows:
  assumes "GetPoolReplicationSize e k rep st = Inr (ret, rep', st')"
  shows "mon_grows st st'"
proof -
  obtain r s1 where g: "GetIoCtx2 (renv e) (uint k) (mpx st) = (r, s1)" by fastforce
  have "mpx st' = s1"
    using assms g by (auto simp: GetPoolReplicationSize_def Let_def split: option.splits sum.splits prod.splits if_splits)
  then show ?thesis
    using proxy.get_inv [OF _ g] proxy.get_keeps [OF _ g] by (auto simp: mon_grows_def ids_kept_def)
qed

lemma GetECProfileSize_grows:
  assumes "GetECProfileSize e pr kms st = Inr (ret, kms', st')"
  shows "mon_grows st st'"
proof -
  consider "st' = st" | su where "default_stripe e st = Inr (su, st')"
    using assms by (auto simp: GetECProfileSize_def Let_def split: prod.splits if_splits sum.splits)
  then show ?thesis using default_stripe_tables mon_grows_same by cases blast+
qed

lemma CalPoolSize_grows:
  assumes "CalPoolSize e info st = Inr (ret, info', st')"
  shows "mon_grows st st'"
proof -
  consider r kms where "GetECProfileSize e (ri_profile info) (ri_ec_k info, ri_ec_m info, ri_stripeUnit info) st = Inr (r, kms, st')"
    | su st1 r rep where "default_stripe e st = Inr (su, st1)"
        "GetPoolReplicationSize e (ri_poolId info) (ri_rep info) st1 = Inr (r, rep, st')"
    using assms by (fastforce simp: CalPoolSize_def Let_def split: sum.splits prod.splits if_splits)
  then show ?thesis
  proof cases
    case 1
    then show ?thesis by (rule GetECProfileSize_grows)
  next
    case 2
    then have "mon_grows st st1" using default_stripe_tables mon_grows_same by blast
    then show ?thesis using GetPoolReplicationSize_grows [OF 2(2)] by (rule mon_grows_trans)
  qed
qed

lemma Record_grows:
  assumes "Record e result st = Inr (ret, st')"
  shows "mon_grows st st'"
proof -
  consider "st' = st" | info r i1 st1 where "CalPoolSize e info st = Inr (r, i1, st1)" "mpx st' = mpx st1"
    using assms by (fastforce simp: Record_def Let_def split: sum.splits prod.splits if_splits)
  then show ?thesis
    using CalPoolSize_grows mon_grows_same mon_grows_trans by cases blast+
qed

lemma record_lines_grows: "record_lines e ls st = Inr (ret, st') \<Longrightarrow> mon_grows st st'"
proof (induction ls arbitrary: st)
  case (Cons l ls)
  show ?case
  proof (cases "df_match e l")
    case None
    then show ?thesis using Cons by simp
  next
    case (Some r)
    then obtain r1 st1 where rec: "Record e r st = Inr (r1, st1)" and "st' = st1 \<or> record_lines e ls st1 = Inr (ret, st')"
      using Cons.prems by (auto split: sum.splits prod.splits if_splits)
    then show ?thesis using Record_grows [OF rec] Cons.IH mon_grows_trans by blast
  qed
qed (simp add: mon_grows_same)

lemma UpdatePoolUsage_grows:
  assumes "UpdatePoolUsage e st = Inr (ret, reported, st')"
  shows "mon_grows st st'"
proof -
  consider "st' = st"
    | ls r st1 where "record_lines e ls st = Inr (r, st1)" "mpx st' = mpx st1"
    using assms
    by (auto simp: UpdatePoolUsage_def GetPoolStorageUsage_def UpdatePoolList_def Compare_def Let_def
        split: sum.splits prod.splits if_splits)
  then show ?thesis
    using record_lines_grows mon_grows_same mon_grows_trans by cases blast+
qed

lemma PoolUsageStat_Start_grows:
  assumes "PoolUsageStat_Start alloc e st = Inr (reported, st')"
  shows "mon_grows st st'"
proof (cases alloc)
  case True
  obtain r where "UpdatePoolUsage e (st\<lparr>ccm_adaptor := Some \<lparr>notifyCreateFunc = None\<rparr>\<rparr>) = Inr (r, reported, st')"
    using assms True by (auto simp: PoolUsageStat_Start_def split: sum.splits prod.splits)
  from UpdatePoolUsage_grows [OF this] show ?thesis by (simp add: mon_grows_def)
qed (use assms in \<open>auto simp: PoolUsageStat_Start_def intro: mon_grows_same\<close>)

section \<open>Life cycle\<close>

lemma provider_inv_empty: "heap_wf h \<Longrightarrow> provider_inv \<lparr>ptable = \<lparr>table1 = [], table2 = []\<rparr>, ctxs = h\<rparr>"
  by (simp add: provider_inv_def proxy_inv_def table_inv_def no_null_ids_def owned_def)

lemma ctx_reset:
  "(s :: proxy_ctx)\<lparr>ptable := (ptable s)\<lparr>table1 := [], table2 := []\<rparr>\<rparr> = \<lparr>ptable = \<lparr>table1 = [], table2 = []\<rparr>, ctxs = ctxs s\<rparr>"
  by (cases s; cases "ptable s") simp

text \<open>What \<open>Init\<close> leaves when it returns a value that is not negative.\<close>

definition active :: "'d CephProxy \<Rightarrow> bool" where
  "active p \<longleftrightarrow>
     pstate p = PROXY_ACTIVE \<and> radosClient p = Obj () \<and> provider_inv (pctx p) \<and>
     (\<exists>st timer. poolStatManager p = Obj (st, timer)) \<and> (\<exists>ws. worker p = Obj ws \<and> ioWorkers ws = [])"

text \<open>librados reports success as 0 and an error as a negative number.\<close>

definition rados_codes :: "rados_env \<Rightarrow> bool" where
  "rados_codes e \<longleftrightarrow> (\<forall>k. fst (conf_get e k) \<le> 0) \<and> (\<forall>k v. conf_set_ret e k v \<le> 0)"

lemma RadosClientInit_ready:
  assumes "rados_codes e" and "RadosClientInit e opts = (ret, sl, evs)"
  shows "(0 \<le> ret \<longrightarrow> ret = 0 \<and> sl = ClientReady) \<and> (ret < 0 \<longrightarrow> sl \<noteq> ClientReady)"
proof -
  have g: "fst (conf_get e k) \<noteq> 0 \<Longrightarrow> fst (conf_get e k) < 0" "conf_set_ret e k v \<noteq> 0 \<Longrightarrow> conf_set_ret e k v < 0" for k v
    using assms(1) by (auto simp: rados_codes_def order_less_le)
  obtain r2 auth where a: "conf_get e ''auth_cluster_required'' = (r2, auth)" by fastforce
  show ?thesis
    using assms(2) g(1) [of "''auth_cluster_required''"] g(2) [of "''keyring''" "opt_keyring opts"]
      g(2) [of "''rados_mon_op_timeout''" "to_string (unat (opt_mon_timeout opts))"]
      g(2) [of "''rados_osd_op_timeout''" "to_string (unat (opt_osd_timeout opts))"] a
    unfolding RadosClientInit_def client_init_out_def Let_def
    by (auto split: prod.splits if_splits)
qed

lemma init_pools_result:
  assumes "init_pools env 0 p = Inr (ret, p')" and "provider_inv (pctx p)"
    and "pstate p = PROXY_INITING" "radosClient p = Obj ()" "\<exists>ws. worker p = Obj ws \<and> ioWorkers ws = []"
  shows "(ret = 0 \<and> active p' \<and> (\<exists>st. poolStatManager p' = Obj (st, pe_alloc_ccm env))) \<or> (ret = -1 \<and> pstate p' = PROXY_INITING)"
proof (cases "pe_alloc_pools env")
  case True
  obtain rep st1 where st: "PoolUsageStat_Start (pe_alloc_ccm env) (pe_mon env) (new_PoolUsageStat (pctx p)) = Inr (rep, st1)"
      "p' = p\<lparr>poolStatManager := Obj (st1, pe_alloc_ccm env), pctx := mpx st1, pstate := PROXY_ACTIVE\<rparr>" "ret = 0"
    using assms(1) True by (auto simp: init_pools_def split: sum.splits prod.splits)
  have "provider_inv (mpx st1)"
    using PoolUsageStat_Start_grows [OF st(1)] assms(2) by (simp add: mon_grows_def new_PoolUsageStat_def)
  then show ?thesis using st assms(4,5) by (simp add: active_def)
qed (use assms(1,3) in \<open>auto simp: init_pools_def\<close>)

lemma Init_result:
  assumes "CephProxy_Init env conf lg n p = Inr (ret, p')" and "rados_codes (pe_rados env)" and "heap_wf (ctxs (pctx p))"
  shows "(ret = 0 \<and> active p' \<and> (\<exists>st. poolStatManager p' = Obj (st, pe_alloc_ccm env))) \<or> (ret < 0 \<and> pstate p' = PROXY_INITING)"
proof -
  obtain r0 cfg where cfg: "ProxyConfigInit (pe_cfg env) = Inr (r0, cfg)"
    using assms(1) by (auto simp: CephProxy_Init_def split: sum.splits)
  obtain r1 sl evs where cl: "RadosClientInit (pe_rados env) (client_options cfg) = (r1, sl, evs)" by (metis prod_cases3)
  let ?p1 = "p\<lparr>pconfig := \<lparr>cf_cephConfigFile = conf, cf_logPath = lg, cf_workerNum = n\<rparr>, pstate := PROXY_INITING\<rparr>"
  note ready = RadosClientInit_ready [OF assms(2) cl]
  show ?thesis
  proof (cases "r1 < 0")
    case True
    then show ?thesis
      using assms(1) cfg cl by (auto simp: CephProxy_Init_def set_client_def Let_def split: client_slot.splits)
  next
    case False
    let ?p3 = "?p1\<lparr>radosClient := Obj (), pctx := \<lparr>ptable = \<lparr>table1 = [], table2 = []\<rparr>, ctxs = ctxs (pctx p)\<rparr>\<rparr>"
    have "(ret = -1 \<and> p' = ?p3\<lparr>worker := Null\<rparr>) \<or>
        init_pools env 0 (?p3\<lparr>worker := Obj \<lparr>ioWorkers = []\<rparr>\<rparr>) = Inr (ret, p')"
      using assms(1) cfg cl False ready
      by (auto simp: CephProxy_Init_def set_client_def IOCtxTable_Init_def RadosWorker_Start_def ctx_reset Let_def split: sum.splits if_splits)
    then show ?thesis
      using init_pools_result [of env "?p3\<lparr>worker := Obj \<lparr>ioWorkers = []\<rparr>\<rparr>" ret p'] provider_inv_empty [OF assms(3)]
      by auto
  qed
qed

text \<open>
  Initialisation of the proxy. Whenever \<open>Init\<close> returns, on a new object or on one that has been used before, it
  has returned 0 and the proxy is active (connected client, an empty table of contexts or the ones the first scan
  of the monitor opened, no worker yet, a monitor), or it has returned a negative number and the state says that the
  proxy is still initialising. No other outcome exists.
\<close>

theorem Init_outcome:
  assumes "CephProxy_Init env conf lg n p = Inr (ret, p')" and "rados_codes (pe_rados env)" and "heap_wf (ctxs (pctx p))"
  shows "(ret = 0 \<and> active p') \<or> (ret < 0 \<and> pstate p' = PROXY_INITING)"
  using Init_result [OF assms] by blast

definition demo_penv :: "int proxy_env" where
  "demo_penv =
     \<lparr>pe_cfg = demo_cfg ''7880'', pe_rados = demo_env, pe_pid = - ENOSYS, pe_tasks = [], pe_alloc_worker = True,
      pe_alloc_pools = True, pe_alloc_ccm = True, pe_mon = demo_mon []\<rparr>"

definition demo_heap0 :: ctx_heap where
  "demo_heap0 = \<lparr>fresh = 0, live = []\<rparr>"

lemma demo_cfg_reads: "\<exists>cfg. ProxyConfigInit (demo_cfg port) = Inr (0, cfg)"
  using proxy_ReadConfig_ret [OF demo_cfg_ok, of port "InitClusterCfg zero_ProxyCfg"]
  by (simp add: ProxyConfigInit_def proxy_items_ok_def demo_cfg_def)

lemma demo_connects: "\<exists>evs. RadosClientInit demo_env opts = (0, ClientReady, evs)"
proof -
  have "fst (connect_loop demo_env 0 0) = 0"
    by (simp add: demo_env_def connect_loop.simps Let_def split: prod.splits)
  then show ?thesis
    by (auto simp: RadosClientInit_def demo_env_def c_str_def Let_def split: prod.splits)
qed

lemma demo_scan:
  "PoolUsageStat_Start True (demo_mon []) (new_PoolUsageStat s) = Inr (None, (new_PoolUsageStat s)\<lparr>ccm_adaptor := Some \<lparr>notifyCreateFunc = None\<rparr>\<rparr>)"
  by (simp add: PoolUsageStat_Start_def UpdatePoolUsage_def GetPoolStorageUsage_def demo_mon_def c_str_def strtok.simps
      Compare_def UpdatePoolList_def ReportPoolNewAndDel_def ReportCreatePool_def new_PoolUsageStat_def Let_def)

lemma demo_init:
  "\<exists>p1. CephProxy_Init demo_penv ''c'' ''l'' 1 (new_CephProxy demo_heap0) = Inr (0, p1) \<and> pctx p1 = demo_empty"
proof -
  obtain cfg where cfg: "ProxyConfigInit (demo_cfg ''7880'') = Inr (0, cfg)" using demo_cfg_reads by blast
  obtain evs where cl: "RadosClientInit demo_env (client_options cfg) = (0, ClientReady, evs)" using demo_connects by blast
  let ?p = "(new_CephProxy demo_heap0 :: int CephProxy)\<lparr>pconfig := \<lparr>cf_cephConfigFile = ''c'', cf_logPath = ''l'', cf_workerNum = 1\<rparr>,
      pstate := PROXY_INITING, radosClient := Obj (), pctx := demo_empty, worker := Obj \<lparr>ioWorkers = []\<rparr>\<rparr>"
  have e: "pe_cfg demo_penv = demo_cfg ''7880''" "pe_rados demo_penv = demo_env" "pe_alloc_worker demo_penv"
      "pe_alloc_pools demo_penv" "pe_alloc_ccm demo_penv" "pe_mon demo_penv = demo_mon []" "bind_cores demo_penv cfg = Inr []"
    by (simp_all add: demo_penv_def bind_cores_def)
  have n: "pctx (new_CephProxy demo_heap0 :: int CephProxy) = demo_empty"
    by (simp add: new_CephProxy_def demo_heap0_def demo_empty_def)
  have "CephProxy_Init demo_penv ''c'' ''l'' 1 (new_CephProxy demo_heap0) = init_pools demo_penv 0 ?p"
    by (simp add: CephProxy_Init_def e cfg cl set_client_def IOCtxTable_Init_def RadosWorker_Start_def n Let_def)
      (simp add: demo_empty_def)
  then show ?thesis
    by (simp add: init_pools_def e demo_scan) (simp add: new_PoolUsageStat_def)
qed

lemma demo_penv_codes: "rados_codes (pe_rados demo_penv)" "pe_alloc_ccm demo_penv"
    "heap_wf (ctxs (pctx (new_CephProxy demo_heap0 :: int CephProxy)))"
  by (auto simp: rados_codes_def demo_penv_def demo_env_def heap_wf_def new_CephProxy_def demo_heap0_def)

theorem Init_outcome_witness:
  "\<exists>p1. CephProxy_Init demo_penv ''c'' ''l'' 1 (new_CephProxy demo_heap0) = Inr (0, p1) \<and> active p1"
proof -
  obtain p1 where p1: "CephProxy_Init demo_penv ''c'' ''l'' 1 (new_CephProxy demo_heap0) = Inr (0, p1)" using demo_init by blast
  then show ?thesis using Init_outcome [OF p1 demo_penv_codes(1,3)] by auto
qed

text \<open>Releasing the table, in the form \<open>Shutdown\<close> uses it.\<close>

lemma Clear_provider:
  assumes "provider_inv s"
  shows "\<exists>h. IOCtxTable_Clear (ptable s) (ctxs s) = Inr (\<lparr>table1 = [], table2 = []\<rparr>, h) \<and> heap_wf h \<and>
     live h = filter (\<lambda>x. fst x \<notin> set (owned (ptable s))) (live (ctxs s))"
proof -
  let ?t = "ptable s" let ?h = "ctxs s"
  have inv: "table_inv ?t ?h" using assms by (simp add: provider_inv_def proxy_inv_def)
  obtain h1 where h1: "release_all (map snd (table1 ?t)) ?h = Inr h1" "heap_wf h1"
    "live h1 = filter (\<lambda>x. fst x \<notin> set (handles (map snd (table1 ?t)))) (live ?h)"
    using release_all_spec [of "map snd (table1 ?t)" ?h] inv by (auto simp: table_inv_def owned_handles)
  have "set (handles (map snd (table2 ?t))) \<subseteq> fst ` set (live h1)"
    using inv h1(3) by (force simp: table_inv_def owned_handles)
  then obtain h2 where "release_all (map snd (table2 ?t)) h1 = Inr h2" "heap_wf h2"
    "live h2 = filter (\<lambda>x. fst x \<notin> set (handles (map snd (table2 ?t)))) (live h1)"
    using release_all_spec [of "map snd (table2 ?t)" h1] inv h1(2) by (auto simp: table_inv_def owned_handles)
  then show ?thesis
    using h1 by (cases ?t) (auto simp: IOCtxTable_Clear_def owned_handles intro!: filter_cong)
qed

text \<open>
  C1: The whole life of a proxy. After an \<open>Init\<close> that returned 0 with the timer thread running, let the workers and the
  threads that look up contexts run in any interleaving, up to the point where \<open>Stop\<close> has joined every worker. Then \<open>Shutdown\<close>
  does not fault; the proxy is down, without workers and monitor, its table of contexts is empty and every context
  the table owned has been released, exactly once; a context that stays live is one the table never owned. Every request a
  worker accepted before its queue was found empty has been handled.
\<close>

theorem proxy_lifecycle:
  assumes init: "CephProxy_Init env conf lg n p = Inr (0, p1)" and env: "rados_codes (pe_rados env)" "pe_alloc_ccm env"
    and heap: "heap_wf (ctxs (pctx p))"
    and ws: "worker p1 = Obj ws1" and run: "pstep\<^sup>*\<^sup>* (pctx p1, ws1) (run (pctx p1, ws1))"
    and joined: "all_joined (snd (run (pctx p1, ws1)))"
  shows "\<exists>p2. CephProxy_Shutdown run p1 = Inr p2 \<and> pstate p2 = PROXY_DOWN \<and> worker p2 = Null \<and> poolStatManager p2 = Null \<and>
     ptable (pctx p2) = \<lparr>table1 = [], table2 = []\<rparr> \<and>
     live (ctxs (pctx p2)) =
       filter (\<lambda>x. fst x \<notin> set (owned (ptable (fst (run (pctx p1, ws1)))))) (live (ctxs (fst (run (pctx p1, ws1))))) \<and>
     (\<forall>k w. GetIOWorker k (snd (run (pctx p1, ws1))) = Some w \<and> \<not> late w \<longrightarrow> map fst (handled w) = accepted w)"
proof -
  obtain s ws2 where r: "run (pctx p1, ws1) = (s, ws2)" by fastforce
  have act: "active p1" and timer: "\<exists>st. poolStatManager p1 = Obj (st, True)"
    using Init_result [OF init env(1) heap] env(2) by auto
  then have start: "pool_start (pctx p1, ws1)" using ws by (simp add: pool_start_def active_def)
  have reach: "pstep\<^sup>*\<^sup>* (pctx p1, ws1) (s, ws2)" using run r by simp
  have inv: "pool_inv (s, ws2)" by (rule pool_inv_reach [OF start reach])
  then obtain h where "IOCtxTable_Clear (ptable s) (ctxs s) = Inr (\<lparr>table1 = [], table2 = []\<rparr>, h)"
    "live h = filter (\<lambda>x. fst x \<notin> set (owned (ptable s))) (live (ctxs s))"
    using Clear_provider [of s] by (auto simp: pool_inv_def)
  then have "\<exists>p2. CephProxy_Shutdown run p1 = Inr p2 \<and> pstate p2 = PROXY_DOWN \<and> worker p2 = Null \<and> poolStatManager p2 = Null \<and>
      ptable (pctx p2) = \<lparr>table1 = [], table2 = []\<rparr> \<and> live (ctxs (pctx p2)) = filter (\<lambda>x. fst x \<notin> set (owned (ptable s))) (live (ctxs s))"
    using timer act ws r
    by (auto simp: CephProxy_Shutdown_def stop_pools_def stop_worker_def close_client_def active_def)
  moreover have "map fst (handled w) = accepted w" if "GetIOWorker k ws2 = Some w" "\<not> late w" for k w
    using drained [OF inv _ that] joined r by simp
  ultimately show ?thesis using r by auto
qed

theorem proxy_lifecycle_witness:
  "\<exists>p1 run p2. CephProxy_Init demo_penv ''c'' ''l'' 1 (new_CephProxy demo_heap0) = Inr (0, p1) \<and>
     (\<exists>w. GetIOWorker 1 (snd (run (pctx p1, demo_ws0))) = Some w \<and> map fst (handled w) = [demo_req 1]) \<and>
     CephProxy_Shutdown run p1 = Inr p2 \<and> pstate p2 = PROXY_DOWN"
proof -
  obtain p1 where p1: "CephProxy_Init demo_penv ''c'' ''l'' 1 (new_CephProxy demo_heap0) = Inr (0, p1)" and c: "pctx p1 = demo_empty"
    using demo_init by blast
  have ws: "worker p1 = Obj demo_ws0"
    using Init_result [OF p1 demo_penv_codes(1,3)] by (auto simp: active_def demo_ws0_def)
  obtain w where w: "wstep\<^sup>+\<^sup>+ demo_w1 w" "accepted w = accepted demo_w1" "stopper w = Joined" "\<not> late w"
    using demo_run3 by blast
  let ?ws = "demo_ws1\<lparr>ioWorkers := map_put 1 w (ioWorkers demo_ws1)\<rparr>" let ?run = "\<lambda>_. (px w, ?ws)"
  have r: "pstep\<^sup>*\<^sup>* (pctx p1, demo_ws0) (?run (pctx p1, demo_ws0))"
    using demo_enqueued pstep_thread_run [where w = demo_w1 and s = demo_empty and w' = w and k = 1 and ws = demo_ws1] w(1,2) c by simp
  have j: "all_joined (snd (?run (pctx p1, demo_ws0)))" using w(3) by (simp add: all_joined_def demo_ws1_def)
  have g: "GetIOWorker 1 (snd (?run (pctx p1, demo_ws0))) = Some w" by (simp add: GetIOWorker_def)
  have acc: "accepted w = [demo_req 1]"
    using w(2) by (simp add: demo_w1_def demo_w0_def io_Queue_def new_ioworker_def notify_handler_def)
  from proxy_lifecycle [OF p1 demo_penv_codes ws r j] obtain p2 where
    "CephProxy_Shutdown ?run p1 = Inr p2" "pstate p2 = PROXY_DOWN" "map fst (handled w) = accepted w" using g w(4) by blast
  then show ?thesis using p1 g acc by (intro exI [of _ p1] exI [of _ ?run] exI [of _ p2]) auto
qed

text \<open>
  A failed start leaves a half-built proxy behind. When the client cannot connect on the first \<open>CephProxyInit\<close>, the caller
  gets the error and a null handle, but the instance is kept; a call that goes through the instance, such as
  the registration of a listener, then reads the pointer to the monitor that nothing has initialised.
\<close>

theorem failed_init_leaves_instance:
  assumes "the_instance pr = None" and "ProxyConfigInit (pe_cfg env) = Inr (r0, cfg)"
    and "fst (RadosClientInit (pe_rados env) (client_options cfg)) < 0"
  shows "\<exists>ret pr'. CephProxyInit True env (Some conf) n (Some lg) True pr = Inr (ret, Some None, pr') \<and> ret < 0 \<and>
     GetCephProxyInstance pr' \<noteq> None \<and> CephProxyRegisterPoolNewNotifyFn f pr' = Inl UninitRead"
proof -
  obtain ret sl evs where cl: "RadosClientInit (pe_rados env) (client_options cfg) = (ret, sl, evs)" "ret < 0"
    using assms(3) by (cases "RadosClientInit (pe_rados env) (client_options cfg)") auto
  have "\<exists>p'. CephProxy_Init env (c_str conf) (c_str lg) n (new_CephProxy (orphan_ctxs pr)) = Inr (ret, p') \<and> poolStatManager p' = Uninit"
    using assms(2) cl
    by (auto simp: CephProxy_Init_def Let_def set_client_def new_CephProxy_def split: client_slot.splits)
  then obtain p' where p': "CephProxy_Init env (c_str conf) (c_str lg) n (new_CephProxy (orphan_ctxs pr)) = Inr (ret, p')"
      "poolStatManager p' = Uninit" by blast
  let ?pr = "pr\<lparr>the_instance := Some (next_proxy pr), next_proxy := Suc (next_proxy pr),
      proxies := (next_proxy pr, p') # filter (\<lambda>x. fst x \<noteq> next_proxy pr) (proxies pr)\<rparr>"
  show ?thesis
    by (intro exI [of _ ret] exI [of _ ?pr])
     (use assms(1) cl(2) p' in \<open>simp add: CephProxyInit_def GetProxy_def update_proxy_def call_proxy_def set_proxy_def GetCephProxyInstance_def
        CephProxyRegisterPoolNewNotifyFn_def CephProxy_RegisterPoolNewNotifyFn_def with_pools_def Let_def\<close>)
qed

definition demo_process :: "int process" where
  "demo_process = \<lparr>the_instance = None, proxies = [], next_proxy = 0, orphan_ctxs = demo_heap0\<rparr>"

theorem failed_init_leaves_instance_witness:
  "\<exists>ret pr'. CephProxyInit True (demo_penv\<lparr>pe_rados := demo_env\<lparr>init_ret := -5\<rparr>\<rparr>) (Some ''c'') 1 (Some ''l'') True demo_process =
       Inr (ret, Some None, pr') \<and> CephProxyRegisterPoolNewNotifyFn None pr' = Inl UninitRead"
proof -
  obtain cfg where cfg: "ProxyConfigInit (pe_cfg (demo_penv\<lparr>pe_rados := demo_env\<lparr>init_ret := -5\<rparr>\<rparr>)) = Inr (0, cfg)"
    using demo_cfg_reads [of "''7880''"] by (auto simp: demo_penv_def)
  show ?thesis
    using failed_init_leaves_instance [OF _ cfg, of demo_process "''c''" 1 "''l''" None]
    by (auto simp: demo_process_def demo_penv_def demo_env_def RadosClientInit_def)
qed

text \<open>Addresses are not reused while the process runs.\<close>

definition process_wf :: "'d process \<Rightarrow> bool" where
  "process_wf pr \<longleftrightarrow>
     (\<forall>a \<in> fst ` set (proxies pr). a < next_proxy pr) \<and> (\<forall>a. the_instance pr = Some a \<longrightarrow> a \<in> fst ` set (proxies pr))"

lemma update_proxy_frame:
  assumes "update_proxy h pr f = Inr (r, pr')"
  shows "the_instance pr' = the_instance pr \<and> next_proxy pr' = next_proxy pr \<and> fst ` set (proxies pr') = fst ` set (proxies pr)"
proof -
  obtain a p where a: "h = Some a" "map_of (proxies pr) a = Some p"
    using assms by (auto simp: update_proxy_def call_proxy_def split: option.splits)
  then have m: "a \<in> fst ` set (proxies pr)" by (metis map_of_SomeD fst_conv image_eqI)
  obtain p' where "pr' = set_proxy a p' pr"
    using assms a by (auto simp: update_proxy_def call_proxy_def split: sum.splits prod.splits)
  moreover have "fst ` set (filter (\<lambda>x. fst x \<noteq> a) (proxies pr)) = fst ` set (proxies pr) - {a}" by force
  ultimately show ?thesis using m by (simp add: set_proxy_def insert_absorb)
qed

text \<open>
  A handle is good for nothing after \<open>CephProxyShutdown\<close>, and the next start gets a new one. The instance is
  gone, calls on the old handle use freed memory (the interface tests only for null), and a
  later successful \<open>CephProxyInit\<close> hands out another address.
\<close>

theorem shutdown_invalidates_handle:
  assumes "process_wf pr" and "CephProxyShutdown run (Some a) pr = Inr pr'"
  shows "GetCephProxyInstance pr' = None \<and> CephProxyGetState (Some a) pr' = Inl UseAfterFree \<and>
     CephProxyQueueOp alloc (Some a) op c pr' = Inl UseAfterFree \<and>
     CephProxyGetPoolInfo (Some a) pid (Some info) pr' = Inl UseAfterFree \<and> process_wf pr' \<and>
     (CephProxyInit al env conf n lg nn pr' = Inr (0, Some h, pr'') \<longrightarrow> h \<noteq> Some a \<and> GetCephProxyInstance pr'' = h)"
proof -
  have pr': "the_instance pr' = None" "proxies pr' = filter (\<lambda>x. fst x \<noteq> a) (proxies pr)" "next_proxy pr' = next_proxy pr"
    and a: "a \<in> fst ` set (proxies pr)"
    using assms(2)
    by (auto simp: CephProxyShutdown_def call_proxy_def split: sum.splits option.splits intro: rev_image_eqI dest: map_of_SomeD)
  have gone: "map_of (proxies pr') a = None" unfolding pr'(2) map_of_eq_None_iff by auto
  have wf: "process_wf pr'" using assms(1) pr' by (auto simp: process_wf_def)
  have "h \<noteq> Some a \<and> GetCephProxyInstance pr'' = h" if i: "CephProxyInit al env conf n lg nn pr' = Inr (0, Some h, pr'')"
  proof -
    obtain pr1 f and ret :: int where g: "GetProxy al pr' = (h, pr1)" and u: "update_proxy h pr1 f = Inr (ret, pr'')"
      using i
      by (cases conf; cases lg; cases nn; cases "GetProxy al pr'")
        (auto simp: CephProxyInit_def Let_def split: sum.splits prod.splits if_splits)
    have "h \<noteq> None" using u by (cases h) (auto simp: update_proxy_def call_proxy_def)
    then have "h = Some (next_proxy pr)" "the_instance pr1 = h"
      using g pr' by (auto simp: GetProxy_def split: if_splits)
    then show ?thesis
      using update_proxy_frame [OF u] a assms(1) by (auto simp: process_wf_def GetCephProxyInstance_def)
  qed
  then show ?thesis
    using gone wf pr'(1)
    by (simp add: GetCephProxyInstance_def CephProxyGetState_def CephProxyQueueOp_def CephProxyGetPoolInfo_def update_proxy_def
        call_proxy_def)
qed

text \<open>A process in which one proxy has been started.\<close>

lemma demo_started:
  "\<exists>p1. CephProxyInit True demo_penv (Some ''c'') 1 (Some ''l'') True demo_process =
      Inr (0, Some (Some 0), \<lparr>the_instance = Some 0, proxies = [(0, p1)], next_proxy = 1, orphan_ctxs = demo_heap0\<rparr>) \<and>
    CephProxy_Shutdown (\<lambda>x. x) p1 = Inr (p1\<lparr>poolStatManager := Null, worker := Null, radosClient := Dangling, pstate := PROXY_DOWN\<rparr>)"
proof -
  obtain p1 where p1: "CephProxy_Init demo_penv ''c'' ''l'' 1 (new_CephProxy demo_heap0) = Inr (0, p1)" and c: "pctx p1 = demo_empty"
    using demo_init by blast
  obtain st where a: "poolStatManager p1 = Obj (st, True)" "worker p1 = Obj \<lparr>ioWorkers = []\<rparr>" "radosClient p1 = Obj ()"
    using Init_result [OF p1 demo_penv_codes(1,3)] demo_penv_codes(2) by (auto simp: active_def)
  have "c_str ''c'' = ''c''" "c_str ''l'' = ''l''" by (simp_all add: c_str_def)
  then show ?thesis
    using p1 a c
    by (intro exI [of _ p1])
      (simp add: CephProxyInit_def GetProxy_def demo_process_def update_proxy_def call_proxy_def set_proxy_def
        CephProxy_Shutdown_def stop_pools_def stop_worker_def close_client_def IOCtxTable_Clear_def demo_empty_def)
qed

theorem shutdown_invalidates_handle_witness:
  "\<exists>pr pr'. CephProxyInit True demo_penv (Some ''c'') 1 (Some ''l'') True demo_process = Inr (0, Some (Some 0), pr) \<and>
     CephProxyShutdown (\<lambda>x. x) (Some 0) pr = Inr pr' \<and> CephProxyGetState (Some 0) pr' = Inl UseAfterFree"
proof -
  obtain p1 where i: "CephProxyInit True demo_penv (Some ''c'') 1 (Some ''l'') True demo_process =
      Inr (0, Some (Some 0), \<lparr>the_instance = Some 0, proxies = [(0, p1)], next_proxy = 1, orphan_ctxs = demo_heap0\<rparr>)"
    and s: "CephProxy_Shutdown (\<lambda>x. x) p1 = Inr (p1\<lparr>poolStatManager := Null, worker := Null, radosClient := Dangling, pstate := PROXY_DOWN\<rparr>)"
    using demo_started by blast
  let ?pr = "\<lparr>the_instance = Some 0, proxies = [(0, p1)], next_proxy = 1, orphan_ctxs = demo_heap0\<rparr> :: int process"
  obtain pr' where d: "CephProxyShutdown (\<lambda>x. x) (Some 0) ?pr = Inr pr'"
    using s by (simp add: CephProxyShutdown_def call_proxy_def)
  have "process_wf ?pr" by (simp add: process_wf_def)
  from shutdown_invalidates_handle [OF this d] have "CephProxyGetState (Some 0) pr' = Inl UseAfterFree" by blast
  then show ?thesis using i d by blast
qed

end
