(* ===== verification/Proxy_Interface.thy ===== *)
theory Proxy_Interface
  imports Ceph_Proxy
begin

text \<open>
  The part of \<open>ceph_proxy/CephProxyInterface.cc\<close> that works on operations: a client gets a handle from \<open>CephProxyWriteOpInit2\<close> or
  \<open>CephProxyReadOpInit2\<close>, builds the operation with the functions below and queues it. A handle is a \<open>void *\<close>; every function casts it
  to the class of its own kind without a check and calls the function of \<open>Rados_Op\<close>. Reading an object as one of another class is the
  fault \<open>WrongCast\<close>. Result pointers (\<open>prval\<close>, \<open>psize\<close>, ...) are only stored for librados and are left out.
\<close>

section \<open>Casts\<close>

definition as_write ::
    "rados_object option \<Rightarrow> (RadosObjectWriteOp option \<Rightarrow> fault + RadosObjectWriteOp option) \<Rightarrow> fault + rados_object option" where
  "as_write op f =
     (case op of
        None \<Rightarrow> map_sum id (map_option WriteObj) (f None)
      | Some (WriteObj w) \<Rightarrow> map_sum id (map_option WriteObj) (f (Some w))
      | Some _ \<Rightarrow> Inl WrongCast)"

definition as_read ::
    "rados_object option \<Rightarrow> (RadosObjectReadOp option \<Rightarrow> fault + RadosObjectReadOp option) \<Rightarrow> fault + rados_object option" where
  "as_read op f =
     (case op of
        None \<Rightarrow> map_sum id (map_option ReadObj) (f None)
      | Some (ReadObj r) \<Rightarrow> map_sum id (map_option ReadObj) (f (Some r))
      | Some _ \<Rightarrow> Inl WrongCast)"

section \<open>Building a write\<close>

definition CephProxyWriteOpRelease :: "rados_object option \<Rightarrow> fault + rados_object option" where
  "CephProxyWriteOpRelease op = as_write op (\<lambda>p. Inr (RadosWriteOpRelease p))"

definition CephProxyWriteOpSetFlags ::
    "rados_object option \<Rightarrow> int \<Rightarrow> fault + rados_object option" where
  "CephProxyWriteOpSetFlags op flags = as_write op (\<lambda>p. RadosWriteOpSetFlags p flags)"

definition CephProxyWriteOpAssertExists ::
    "rados_object option \<Rightarrow> fault + rados_object option" where
  "CephProxyWriteOpAssertExists op = as_write op (RadosWriteOpAssertExists)"

definition CephProxyWriteOpAssertVersion ::
    "rados_object option \<Rightarrow> u64 \<Rightarrow> fault + rados_object option" where
  "CephProxyWriteOpAssertVersion op ver = as_write op (\<lambda>p. RadosWriteOpAssertVersion p ver)"

definition CephProxyWriteOpCmpext ::
    "rados_object option \<Rightarrow> cbuf \<Rightarrow> u64 \<Rightarrow> u64 \<Rightarrow> fault + rados_object option" where
  "CephProxyWriteOpCmpext op cmpBuf cmpLen off = as_write op (\<lambda>p. RadosWriteOpCmpext p cmpBuf cmpLen off)"

definition CephProxyWriteOpCmpXattr ::
    "rados_object option \<Rightarrow> string \<Rightarrow> u8 \<Rightarrow> cbuf \<Rightarrow> u64 \<Rightarrow> fault + rados_object option" where
  "CephProxyWriteOpCmpXattr op name compOperator v valLen = as_write op (\<lambda>p. RadosWriteOpCmpXattr p name compOperator v valLen)"

definition CephProxyWriteOpOmapCmp ::
    "rados_object option \<Rightarrow> string \<Rightarrow> u8 \<Rightarrow> cbuf \<Rightarrow> u64 \<Rightarrow> fault + rados_object option" where
  "CephProxyWriteOpOmapCmp op key compOperator v valLen = as_write op (\<lambda>p. RadosWriteOpOmapCmp p key compOperator v valLen)"

definition CephProxyWriteOpSetXattr ::
    "rados_object option \<Rightarrow> string \<Rightarrow> cbuf \<Rightarrow> u64 \<Rightarrow> fault + rados_object option" where
  "CephProxyWriteOpSetXattr op name v valLen = as_write op (\<lambda>p. RadosWriteOpSetXattr p name v valLen)"

definition CephProxyWriteOpRemoveXattr ::
    "rados_object option \<Rightarrow> string \<Rightarrow> fault + rados_object option" where
  "CephProxyWriteOpRemoveXattr op name = as_write op (\<lambda>p. RadosWriteOpRemoveXattr p name)"

definition CephProxyWriteOpCreateObject ::
    "rados_object option \<Rightarrow> int \<Rightarrow> fault + rados_object option" where
  "CephProxyWriteOpCreateObject op exclusive = as_write op (\<lambda>p. RadosWriteOpCreateObject p exclusive)"

definition CephProxyWriteOpWrite ::
    "rados_object option \<Rightarrow> cbuf \<Rightarrow> u64 \<Rightarrow> u64 \<Rightarrow> fault + rados_object option" where
  "CephProxyWriteOpWrite op buffer n off = as_write op (\<lambda>p. RadosWriteOpWrite p buffer n off)"

definition CephProxyWriteOpWriteSGL ::
    "rados_object option \<Rightarrow> SGL_S list \<Rightarrow> u64 \<Rightarrow> u64 \<Rightarrow> AlignBuffer option \<Rightarrow> bool \<Rightarrow> fault + rados_object option" where
  "CephProxyWriteOpWriteSGL op s len1 off alignBuffer isRelease = as_write op (\<lambda>p. RadosWriteOpWriteSGL p s len1 off alignBuffer isRelease)"

definition CephProxyWriteOpWriteFull ::
    "rados_object option \<Rightarrow> cbuf \<Rightarrow> u64 \<Rightarrow> fault + rados_object option" where
  "CephProxyWriteOpWriteFull op buffer n = as_write op (\<lambda>p. RadosWriteOpWriteFull p buffer n)"

definition CephProxyWriteOpWriteFullSGL ::
    "rados_object option \<Rightarrow> SGL_S list \<Rightarrow> u64 \<Rightarrow> bool \<Rightarrow> fault + rados_object option" where
  "CephProxyWriteOpWriteFullSGL op s n isRelease = as_write op (\<lambda>p. RadosWriteOpWriteFullSGL p s n isRelease)"

definition CephProxyWriteOpWriteSame ::
    "rados_object option \<Rightarrow> cbuf \<Rightarrow> u64 \<Rightarrow> u64 \<Rightarrow> u64 \<Rightarrow> fault + rados_object option" where
  "CephProxyWriteOpWriteSame op buffer dataLen writeLen off = as_write op (\<lambda>p. RadosWriteOpWriteSame p buffer dataLen writeLen off)"

definition CephProxyWriteOpWriteSameSGL ::
    "rados_object option \<Rightarrow> SGL_S list \<Rightarrow> u64 \<Rightarrow> u64 \<Rightarrow> u64 \<Rightarrow> bool \<Rightarrow> fault + rados_object option" where
  "CephProxyWriteOpWriteSameSGL op s dataLen writeLen off isRelease = as_write op (\<lambda>p. RadosWriteOpWriteSameSGL p s dataLen writeLen off isRelease)"

definition CephProxyWriteOpAppend ::
    "rados_object option \<Rightarrow> cbuf \<Rightarrow> u64 \<Rightarrow> fault + rados_object option" where
  "CephProxyWriteOpAppend op buffer n = as_write op (\<lambda>p. RadosWriteOpAppend p buffer n)"

definition CephProxyWriteOpAppend_sgl ::
    "rados_object option \<Rightarrow> SGL_S list \<Rightarrow> u64 \<Rightarrow> bool \<Rightarrow> fault + rados_object option" where
  "CephProxyWriteOpAppend_sgl op s n isRelease = as_write op (\<lambda>p. RadosWriteOpAppendSGL p s n isRelease)"

definition CephProxyWriteOpRemove ::
    "rados_object option \<Rightarrow> fault + rados_object option" where
  "CephProxyWriteOpRemove op = as_write op (RadosWriteOpRemove)"

definition CephProxyWriteOpTruncate ::
    "rados_object option \<Rightarrow> u64 \<Rightarrow> fault + rados_object option" where
  "CephProxyWriteOpTruncate op off = as_write op (\<lambda>p. RadosWriteOpTruncate p off)"

definition CephProxyWriteOpZero ::
    "rados_object option \<Rightarrow> u64 \<Rightarrow> u64 \<Rightarrow> fault + rados_object option" where
  "CephProxyWriteOpZero op off n = as_write op (\<lambda>p. RadosWriteOpZero p off n)"

definition CephProxyWriteOpOmapSet ::
    "rados_object option \<Rightarrow> string list \<Rightarrow> bytes list \<Rightarrow> u64 list \<Rightarrow> nat \<Rightarrow> fault + rados_object option" where
  "CephProxyWriteOpOmapSet op ks vals lens num = as_write op (\<lambda>p. RadosWriteOpOmapSet p ks vals lens num)"

definition CephProxyWriteOpOmapRmKeys ::
    "rados_object option \<Rightarrow> string list \<Rightarrow> nat \<Rightarrow> fault + rados_object option" where
  "CephProxyWriteOpOmapRmKeys op ks keysLen = as_write op (\<lambda>p. RadosWriteOpOmapRmKeys p ks keysLen)"

definition CephProxyWriteOpOmapClear ::
    "rados_object option \<Rightarrow> fault + rados_object option" where
  "CephProxyWriteOpOmapClear op = as_write op (RadosWriteOpOmapClear)"

definition CephProxyWriteOpSetAllocHint ::
    "rados_object option \<Rightarrow> u64 \<Rightarrow> u64 \<Rightarrow> u32 \<Rightarrow> fault + rados_object option" where
  "CephProxyWriteOpSetAllocHint op expectedObjSize expectedWriteSize flags = as_write op (\<lambda>p. RadosWriteOpSetAllocHint p expectedObjSize expectedWriteSize flags)"

section \<open>Building a read\<close>

definition CephProxyReadOpRelease :: "rados_object option \<Rightarrow> fault + rados_object option" where
  "CephProxyReadOpRelease op = as_read op (\<lambda>p. Inr (RadosReadOpRelease p))"

definition CephProxyReadOpSetFlags ::
    "rados_object option \<Rightarrow> int \<Rightarrow> fault + rados_object option" where
  "CephProxyReadOpSetFlags op flags = as_read op (\<lambda>p. RadosReadOpSetFlags p flags)"

definition CephProxyReadOpAssertExists ::
    "rados_object option \<Rightarrow> fault + rados_object option" where
  "CephProxyReadOpAssertExists op = as_read op (RadosReadOpAssertExists)"

definition CephProxyReadOpAssertVersion ::
    "rados_object option \<Rightarrow> u64 \<Rightarrow> fault + rados_object option" where
  "CephProxyReadOpAssertVersion op ver = as_read op (\<lambda>p. RadosReadOpAssertVersion p ver)"

definition CephProxyReadOpCmpext ::
    "rados_object option \<Rightarrow> cbuf \<Rightarrow> u64 \<Rightarrow> u64 \<Rightarrow> fault + rados_object option" where
  "CephProxyReadOpCmpext op cmpBuf cmpLen off = as_read op (\<lambda>p. RadosReadOpCmpext p cmpBuf cmpLen off)"

definition CephProxyReadOpCmpXattr ::
    "rados_object option \<Rightarrow> string \<Rightarrow> u8 \<Rightarrow> cbuf \<Rightarrow> u64 \<Rightarrow> fault + rados_object option" where
  "CephProxyReadOpCmpXattr op name compOperator v valueLen = as_read op (\<lambda>p. RadosReadOpCmpXattr p name compOperator v valueLen)"

definition CephProxyReadOpGetXattrs ::
    "rados_object option \<Rightarrow> bool \<Rightarrow> fault + rados_object option" where
  "CephProxyReadOpGetXattrs op alloc = as_read op (RadosReadOpGetXattrs alloc)"

definition CephProxyReadOpOmapCmp ::
    "rados_object option \<Rightarrow> string \<Rightarrow> u8 \<Rightarrow> cbuf \<Rightarrow> u64 \<Rightarrow> fault + rados_object option" where
  "CephProxyReadOpOmapCmp op key compOperator v valLen = as_read op (\<lambda>p. RadosReadOpOmapCmp p key compOperator v valLen)"

definition CephProxyReadOpStat ::
    "rados_object option \<Rightarrow> fault + rados_object option" where
  "CephProxyReadOpStat op = as_read op (RadosReadOpStat)"

definition CephProxyReadOpRead ::
    "rados_object option \<Rightarrow> u64 \<Rightarrow> u64 \<Rightarrow> bytes option \<Rightarrow> u64 option \<Rightarrow> fault + rados_object option" where
  "CephProxyReadOpRead op offset n buffer bytesRead = as_read op (\<lambda>p. RadosReadOpRead p offset n buffer bytesRead)"

definition CephProxyReadOpReadSGL ::
    "rados_object option \<Rightarrow> u64 \<Rightarrow> u64 \<Rightarrow> SGL_S list option \<Rightarrow> bool \<Rightarrow> fault + rados_object option" where
  "CephProxyReadOpReadSGL op offset n s isRelease = as_read op (\<lambda>p. RadosReadOpReadSGL p offset n s isRelease)"

definition CephProxyReadOpCheckSum ::
    "rados_object option \<Rightarrow> int \<Rightarrow> cbuf \<Rightarrow> u64 \<Rightarrow> u64 \<Rightarrow> u64 \<Rightarrow> u64 \<Rightarrow> bytes option \<Rightarrow> u64 \<Rightarrow> fault + rados_object option" where
  "CephProxyReadOpCheckSum op type initValue initValueLen offset n chunkSize pCheckSum checkSumLen = as_read op (\<lambda>p. RadosReadOpCheckSum p type initValue initValueLen offset n chunkSize pCheckSum checkSumLen)"

section \<open>Completions and contexts\<close>

definition CephProxyCreateCompletion :: "bool \<Rightarrow> nat option \<Rightarrow> nat \<Rightarrow> Completion option" where
  "CephProxyCreateCompletion alloc f arg = CompletionInit alloc f arg"

definition CompletionDestroy :: "Completion option \<Rightarrow> Completion option" where
  "CompletionDestroy c = None"

definition CephProxyCompletionDestroy :: "Completion option \<Rightarrow> Completion option" where
  "CephProxyCompletionDestroy c = CompletionDestroy c"

definition CephProxyReleaseIoCtx :: "rados_ioctx_t \<Rightarrow> ctx_heap \<Rightarrow> fault + ctx_heap" where
  "CephProxyReleaseIoCtx ioctx h = RadosReleaseIoCtx ioctx h"

section \<open>Sessions\<close>

text \<open>One call on an operation, and a client that makes a list of them.\<close>

datatype op_call =
    IWSetFlags int
  | IWAssertExists
  | IWAssertVersion u64
  | IWCmpext cbuf u64 u64
  | IWCmpXattr string u8 cbuf u64
  | IWOmapCmp string u8 cbuf u64
  | IWSetXattr string cbuf u64
  | IWRemoveXattr string
  | IWCreateObject int
  | IWWrite cbuf u64 u64
  | IWWriteSGL "SGL_S list" u64 u64 "AlignBuffer option" bool
  | IWWriteFull cbuf u64
  | IWWriteFullSGL "SGL_S list" u64 bool
  | IWWriteSame cbuf u64 u64 u64
  | IWWriteSameSGL "SGL_S list" u64 u64 u64 bool
  | IWAppend cbuf u64
  | IWAppendSGL "SGL_S list" u64 bool
  | IWRemove
  | IWTruncate u64
  | IWZero u64 u64
  | IWOmapSet "string list" "bytes list" "u64 list" nat
  | IWOmapRmKeys "string list" nat
  | IWOmapClear
  | IWSetAllocHint u64 u64 u32
  | IRSetFlags int
  | IRAssertExists
  | IRAssertVersion u64
  | IRCmpext cbuf u64 u64
  | IRCmpXattr string u8 cbuf u64
  | IRGetXattrs bool
  | IROmapCmp string u8 cbuf u64
  | IRStat
  | IRRead u64 u64 "bytes option" "u64 option"
  | IRReadSGL u64 u64 "SGL_S list option" bool
  | IRCheckSum int cbuf u64 u64 u64 u64 "bytes option" u64

fun call_op :: "op_call \<Rightarrow> rados_object option \<Rightarrow> fault + rados_object option" where
  "call_op (IWSetFlags flags) op = CephProxyWriteOpSetFlags op flags"
| "call_op IWAssertExists op = CephProxyWriteOpAssertExists op"
| "call_op (IWAssertVersion ver) op = CephProxyWriteOpAssertVersion op ver"
| "call_op (IWCmpext cmpBuf cmpLen off) op = CephProxyWriteOpCmpext op cmpBuf cmpLen off"
| "call_op (IWCmpXattr name compOperator v valLen) op = CephProxyWriteOpCmpXattr op name compOperator v valLen"
| "call_op (IWOmapCmp key compOperator v valLen) op = CephProxyWriteOpOmapCmp op key compOperator v valLen"
| "call_op (IWSetXattr name v valLen) op = CephProxyWriteOpSetXattr op name v valLen"
| "call_op (IWRemoveXattr name) op = CephProxyWriteOpRemoveXattr op name"
| "call_op (IWCreateObject exclusive) op = CephProxyWriteOpCreateObject op exclusive"
| "call_op (IWWrite buffer n off) op = CephProxyWriteOpWrite op buffer n off"
| "call_op (IWWriteSGL s len1 off alignBuffer isRelease) op = CephProxyWriteOpWriteSGL op s len1 off alignBuffer isRelease"
| "call_op (IWWriteFull buffer n) op = CephProxyWriteOpWriteFull op buffer n"
| "call_op (IWWriteFullSGL s n isRelease) op = CephProxyWriteOpWriteFullSGL op s n isRelease"
| "call_op (IWWriteSame buffer dataLen writeLen off) op = CephProxyWriteOpWriteSame op buffer dataLen writeLen off"
| "call_op (IWWriteSameSGL s dataLen writeLen off isRelease) op = CephProxyWriteOpWriteSameSGL op s dataLen writeLen off isRelease"
| "call_op (IWAppend buffer n) op = CephProxyWriteOpAppend op buffer n"
| "call_op (IWAppendSGL s n isRelease) op = CephProxyWriteOpAppend_sgl op s n isRelease"
| "call_op IWRemove op = CephProxyWriteOpRemove op"
| "call_op (IWTruncate off) op = CephProxyWriteOpTruncate op off"
| "call_op (IWZero off n) op = CephProxyWriteOpZero op off n"
| "call_op (IWOmapSet ks vals lens num) op = CephProxyWriteOpOmapSet op ks vals lens num"
| "call_op (IWOmapRmKeys ks keysLen) op = CephProxyWriteOpOmapRmKeys op ks keysLen"
| "call_op IWOmapClear op = CephProxyWriteOpOmapClear op"
| "call_op (IWSetAllocHint expectedObjSize expectedWriteSize flags) op = CephProxyWriteOpSetAllocHint op expectedObjSize expectedWriteSize flags"
| "call_op (IRSetFlags flags) op = CephProxyReadOpSetFlags op flags"
| "call_op IRAssertExists op = CephProxyReadOpAssertExists op"
| "call_op (IRAssertVersion ver) op = CephProxyReadOpAssertVersion op ver"
| "call_op (IRCmpext cmpBuf cmpLen off) op = CephProxyReadOpCmpext op cmpBuf cmpLen off"
| "call_op (IRCmpXattr name compOperator v valueLen) op = CephProxyReadOpCmpXattr op name compOperator v valueLen"
| "call_op (IRGetXattrs alloc) op = CephProxyReadOpGetXattrs op alloc"
| "call_op (IROmapCmp key compOperator v valLen) op = CephProxyReadOpOmapCmp op key compOperator v valLen"
| "call_op IRStat op = CephProxyReadOpStat op"
| "call_op (IRRead offset n buffer bytesRead) op = CephProxyReadOpRead op offset n buffer bytesRead"
| "call_op (IRReadSGL offset n s isRelease) op = CephProxyReadOpReadSGL op offset n s isRelease"
| "call_op (IRCheckSum type initValue initValueLen offset n chunkSize pCheckSum checkSumLen) op = CephProxyReadOpCheckSum op type initValue initValueLen offset n chunkSize pCheckSum checkSumLen"

fun call_all :: "op_call list \<Rightarrow> rados_object option \<Rightarrow> fault + rados_object option" where
  "call_all [] op = Inr op"
| "call_all (c # cs) op = (case call_op c op of Inl f \<Rightarrow> Inl f | Inr op' \<Rightarrow> call_all cs op')"

section \<open>Types of handles\<close>

fun is_write_call :: "op_call \<Rightarrow> bool" where
  "is_write_call (IRSetFlags _) = False"
| "is_write_call IRAssertExists = False"
| "is_write_call (IRAssertVersion _) = False"
| "is_write_call (IRCmpext _ _ _) = False"
| "is_write_call (IRCmpXattr _ _ _ _) = False"
| "is_write_call (IRGetXattrs _) = False"
| "is_write_call (IROmapCmp _ _ _ _) = False"
| "is_write_call IRStat = False"
| "is_write_call (IRRead _ _ _ _) = False"
| "is_write_call (IRReadSGL _ _ _ _) = False"
| "is_write_call (IRCheckSum _ _ _ _ _ _ _ _) = False"
| "is_write_call _ = True"

text \<open>What a caller owes: buffers of at least the stated length, and scatter-gather lists and arrays that hold what is announced.\<close>

definition buf_ok :: "cbuf \<Rightarrow> u64 \<Rightarrow> bool" where
  "buf_ok b n \<longleftrightarrow> n = 0 \<or> (case b of None \<Rightarrow> False | Some m \<Rightarrow> unat n \<le> length m)"

definition sgl_ok :: "bool \<Rightarrow> SGL_S list \<Rightarrow> u64 \<Rightarrow> bool" where
  "sgl_ok isRelease s n \<longleftrightarrow> list_all (node_ok isRelease) s \<and> unat (ucast n :: u32) \<le> segs isRelease (chain_entries s)"

definition align_ok :: "AlignBuffer option \<Rightarrow> bool" where
  "align_ok a = (case a of None \<Rightarrow> True
     | Some b \<Rightarrow> (prevAlignBuffer b = None \<or> buf_ok (prevAlignBuffer b) (prevAlignLen b)) \<and>
         (backAlignBuffer b = None \<or> buf_ok (backAlignBuffer b) (backAlignLen b)))"

definition arrays_ok :: "string list \<Rightarrow> bytes list \<Rightarrow> u64 list \<Rightarrow> nat \<Rightarrow> bool" where
  "arrays_ok ks vals lens num \<longleftrightarrow> num = length ks \<and> length vals = num \<and> length lens = num \<and> list_all2 (\<lambda>v l. unat l \<le> length v) vals lens"

fun args_ok :: "op_call \<Rightarrow> bool" where
  "args_ok (IWCmpext b n off) = buf_ok b n"
| "args_ok (IWCmpXattr name c b n) = buf_ok b n"
| "args_ok (IWOmapCmp key c b n) = buf_ok b n"
| "args_ok (IWSetXattr name b n) = buf_ok b n"
| "args_ok (IWWrite b n off) = (b = None \<or> buf_ok b n)"
| "args_ok (IWWriteSGL s n off a r) = (sgl_ok r s n \<and> align_ok a)"
| "args_ok (IWWriteFull b n) = buf_ok b n"
| "args_ok (IWWriteFullSGL s n r) = sgl_ok r s n"
| "args_ok (IWWriteSame b n wn off) = buf_ok b n"
| "args_ok (IWWriteSameSGL s n wn off r) = sgl_ok r s n"
| "args_ok (IWAppend b n) = buf_ok b n"
| "args_ok (IWAppendSGL s n r) = sgl_ok r s n"
| "args_ok (IWOmapSet ks vals lens num) = arrays_ok ks vals lens num"
| "args_ok (IWOmapRmKeys ks num) = (num \<le> length ks)"
| "args_ok (IRCmpext b n off) = buf_ok b n"
| "args_ok (IRCmpXattr name c b n) = buf_ok b n"
| "args_ok (IROmapCmp key c b n) = buf_ok b n"
| "args_ok (IRCheckSum t b n off m ch p l) = buf_ok b n"
| "args_ok _ = True"

text \<open>Calls that are ignored: a write or a read without a buffer, and an iterator that cannot be allocated.\<close>

fun counted :: "op_call \<Rightarrow> bool" where
  "counted (IWWrite b n off) = (b \<noteq> None)"
| "counted (IRRead off n b br) = (b \<noteq> None \<and> br \<noteq> None)"
| "counted (IRGetXattrs alloc) = alloc"
| "counted _ = True"

text \<open>A handle of one kind, for the pool and object it was created for, with \<open>k\<close> calls recorded in it.\<close>

definition handle_ok :: "bool \<Rightarrow> int \<Rightarrow> string \<Rightarrow> nat \<Rightarrow> rados_object option \<Rightarrow> bool" where
  "handle_ok wr pid oid k op =
     (case op of
        Some (WriteObj w) \<Rightarrow> wr \<and> opType w = BATCH_WRITE_OP \<and> poolId w = pid \<and> objectId w = oid \<and> callback w = None \<and> length (w_op w) = k
      | Some (ReadObj r) \<Rightarrow> \<not> wr \<and> opType r = BATCH_READ_OP \<and> poolId r = pid \<and> objectId r = oid \<and> callback r = None \<and> length (r_op r) = k
      | _ \<Rightarrow> False)"

lemma append_buf_ok: "buf_ok b n \<Longrightarrow> \<exists>bl'. append_buf bl b n = Inr bl'"
  by (auto simp: buf_ok_def append_buf_def split: option.splits)

lemma gather_ok: "sgl_ok r s n \<Longrightarrow> \<exists>bl'. gather_loop r s 0 (ucast n) bl = Inr bl'"
  by (auto simp: sgl_ok_def gather_content)

lemma append_align_ok: "b = None \<or> buf_ok b n \<Longrightarrow> \<exists>bl'. append_align bl b n = Inr bl'"
  using append_buf_ok by (auto simp: append_align_def)

lemma collect_ok: "arrays_ok ks vals lens num \<Longrightarrow> \<exists>es. omap_collect num ks vals lens [] = Inr es"
  using omap_collect_spec [of vals ks lens "[]"] by (auto simp: arrays_ok_def list_all2_conv_all_nth)

lemma write_handle:
  assumes "handle_ok True pid oid k op"
  obtains w where "op = Some (WriteObj w)"
  using assms by (auto simp: handle_ok_def split: option.splits rados_object.splits)

lemma read_handle:
  assumes "handle_ok False pid oid k op"
  obtains r where "op = Some (ReadObj r)"
  using assms by (auto simp: handle_ok_def split: option.splits rados_object.splits)

text \<open>A builder whose argument check succeeds records one call.\<close>

lemma as_write_step:
  assumes "handle_ok True pid oid k (Some (WriteObj w))" "f (Some w) = Inr (Some w')"
    "opType w' = opType w" "poolId w' = poolId w" "objectId w' = objectId w" "callback w' = callback w" "length (w_op w') = length (w_op w) + j"
  shows "\<exists>op'. as_write (Some (WriteObj w)) f = Inr op' \<and> handle_ok True pid oid (k + j) op'"
  using assms by (simp add: as_write_def handle_ok_def)

lemma as_read_step:
  assumes "handle_ok False pid oid k (Some (ReadObj r))" "f (Some r) = Inr (Some r')"
    "opType r' = opType r" "poolId r' = poolId r" "objectId r' = objectId r" "callback r' = callback r" "length (r_op r') = length (r_op r) + j"
  shows "\<exists>op'. as_read (Some (ReadObj r)) f = Inr op' \<and> handle_ok False pid oid (k + j) op'"
  using assms by (simp add: as_read_def handle_ok_def)

lemma bufs_ok: "buf_ok b n \<Longrightarrow> (\<exists>bl'. append_buf [] b n = Inr bl') \<and> (\<exists>bl'. append_buf bl b n = Inr bl')"
  using append_buf_ok by blast

lemma write_sgl_ok:
  assumes "handle_ok True pid oid k (Some (WriteObj w))" "sgl_ok r s n" "align_ok a"
  shows "\<exists>op'. CephProxyWriteOpWriteSGL (Some (WriteObj w)) s n off a r = Inr op' \<and> handle_ok True pid oid (k + 1) op'"
proof -
  obtain b1 where 1: "(case a of None \<Rightarrow> Inr (w_bl w) | Some x \<Rightarrow> append_align (w_bl w) (prevAlignBuffer x) (prevAlignLen x)) = Inr b1"
    using assms(3) append_align_ok by (fastforce simp: align_ok_def split: option.splits)
  obtain b2 where 2: "gather_loop r s 0 (ucast n) b1 = Inr b2" using gather_ok [OF assms(2)] by blast
  obtain b3 where 3: "(case a of None \<Rightarrow> Inr b2 | Some x \<Rightarrow> append_align b2 (backAlignBuffer x) (backAlignLen x)) = Inr b3"
    using assms(3) append_align_ok by (fastforce simp: align_ok_def split: option.splits)
  show ?thesis
    unfolding CephProxyWriteOpWriteSGL_def
    by (rule as_write_step [OF assms(1), where w' = "w_call (WWrite off b3) (w\<lparr>w_bl := b3\<rparr>)"])
      (simp_all add: RadosWriteOpWriteSGL_def on_op_checked_def on_op_def 1 2 3 w_call_def)
qed

lemmas iface_write_defs =
  CephProxyWriteOpSetFlags_def CephProxyWriteOpAssertExists_def CephProxyWriteOpAssertVersion_def CephProxyWriteOpCmpext_def
  CephProxyWriteOpCmpXattr_def CephProxyWriteOpOmapCmp_def CephProxyWriteOpSetXattr_def CephProxyWriteOpRemoveXattr_def
  CephProxyWriteOpCreateObject_def CephProxyWriteOpWrite_def CephProxyWriteOpWriteFull_def CephProxyWriteOpWriteFullSGL_def
  CephProxyWriteOpWriteSame_def CephProxyWriteOpWriteSameSGL_def CephProxyWriteOpAppend_def CephProxyWriteOpAppend_sgl_def
  CephProxyWriteOpRemove_def CephProxyWriteOpTruncate_def CephProxyWriteOpZero_def CephProxyWriteOpOmapSet_def
  CephProxyWriteOpOmapRmKeys_def CephProxyWriteOpOmapClear_def CephProxyWriteOpSetAllocHint_def

lemmas rados_write_defs =
  RadosWriteOpSetFlags_def RadosWriteOpAssertExists_def RadosWriteOpAssertVersion_def RadosWriteOpCmpext_def
  RadosWriteOpCmpXattr_def RadosWriteOpOmapCmp_def RadosWriteOpSetXattr_def RadosWriteOpRemoveXattr_def
  RadosWriteOpCreateObject_def RadosWriteOpWrite_def RadosWriteOpWriteFull_def RadosWriteOpWriteFullSGL_def
  RadosWriteOpWriteSame_def RadosWriteOpWriteSameSGL_def RadosWriteOpAppend_def RadosWriteOpAppendSGL_def
  RadosWriteOpRemove_def RadosWriteOpTruncate_def RadosWriteOpZero_def RadosWriteOpOmapSet_def
  RadosWriteOpOmapRmKeys_def RadosWriteOpOmapClear_def RadosWriteOpSetAllocHint_def

lemmas iface_read_defs =
  CephProxyReadOpSetFlags_def CephProxyReadOpAssertExists_def CephProxyReadOpAssertVersion_def CephProxyReadOpCmpext_def
  CephProxyReadOpCmpXattr_def CephProxyReadOpGetXattrs_def CephProxyReadOpOmapCmp_def CephProxyReadOpStat_def
  CephProxyReadOpRead_def CephProxyReadOpReadSGL_def CephProxyReadOpCheckSum_def

lemmas rados_read_defs =
  RadosReadOpSetFlags_def RadosReadOpAssertExists_def RadosReadOpAssertVersion_def RadosReadOpCmpext_def
  RadosReadOpCmpXattr_def RadosReadOpGetXattrs_def RadosReadOpOmapCmp_def RadosReadOpStat_def
  RadosReadOpRead_def RadosReadOpReadSGL_def RadosReadOpCheckSum_def

lemma call_write_ok:
  assumes h: "handle_ok True pid oid k op" and c: "is_write_call c" "args_ok c"
  shows "\<exists>op'. call_op c op = Inr op' \<and> handle_ok True pid oid (k + (if counted c then 1 else 0)) op'"
proof -
  obtain w where op: "op = Some (WriteObj w)" using write_handle [OF h] .
  note bufs = bufs_ok [where bl = "w_bl w"] and sgl = gather_ok [where bl = "w_bl w"]
  show ?thesis
  proof (cases c)
    case (IWWriteSGL s n off a r)
    then show ?thesis using write_sgl_ok h c op by simp
  next
    case (IWOmapSet ks vals lens num)
    then show ?thesis using h c op collect_ok [of ks vals lens num]
      by (auto simp: iface_write_defs rados_write_defs as_write_def handle_ok_def on_op_def w_call_def)
  qed (use h c op in \<open>auto simp: iface_write_defs rados_write_defs as_write_def handle_ok_def on_op_def on_op_checked_def w_call_def
    dest!: bufs sgl\<close>)
qed

lemma call_read_ok:
  assumes h: "handle_ok False pid oid k op" and c: "\<not> is_write_call c" "args_ok c"
  shows "\<exists>op'. call_op c op = Inr op' \<and> handle_ok False pid oid (k + (if counted c then 1 else 0)) op'"
proof -
  obtain r where op: "op = Some (ReadObj r)" using read_handle [OF h] .
  show ?thesis
    by (cases c) (use h c op in \<open>auto simp: iface_read_defs rados_read_defs as_read_def handle_ok_def on_op_def on_op_checked_def r_call_def
      dest!: append_buf_ok [where bl = "[]"]\<close>)
qed

text \<open>A call of the other kind reads the object as one of another class.\<close>

lemma call_wrong_kind:
  assumes h: "handle_ok wr pid oid k op" and c: "is_write_call c \<noteq> wr"
  shows "call_op c op = Inl WrongCast"
proof (cases wr)
  case True
  then obtain w where "op = Some (WriteObj w)" using h write_handle by metis
  then show ?thesis using c True by (cases c) (simp_all add: iface_read_defs as_read_def)
next
  case False
  then obtain r where "op = Some (ReadObj r)" using h read_handle by metis
  then show ?thesis using c False by (cases c) (simp_all add: iface_write_defs CephProxyWriteOpWriteSGL_def as_write_def)
qed

lemma call_right_kind:
  assumes "handle_ok wr pid oid k op" "is_write_call c = wr" "args_ok c"
  shows "\<exists>op'. call_op c op = Inr op' \<and> handle_ok wr pid oid (k + (if counted c then 1 else 0)) op'"
  using call_write_ok [of pid oid k op c] call_read_ok [of pid oid k op c] assms by (cases wr) auto

lemma session_ok:
  assumes "handle_ok wr pid oid k op" "list_all args_ok cs" "list_all (\<lambda>c. is_write_call c = wr) cs"
  shows "\<exists>op'. call_all cs op = Inr op' \<and> handle_ok wr pid oid (k + length (filter counted cs)) op'"
  using assms
proof (induction cs arbitrary: k op)
  case (Cons c cs)
  then obtain op1 where "call_op c op = Inr op1" "handle_ok wr pid oid (k + (if counted c then 1 else 0)) op1"
    using call_right_kind [of wr pid oid k op c] by auto
  with Cons.IH [of "k + (if counted c then 1 else 0)" op1] Cons.prems show ?case by (auto split: if_splits)
qed auto

lemma session_wrong:
  assumes "handle_ok wr pid oid k op" "list_all args_ok cs" "\<not> list_all (\<lambda>c. is_write_call c = wr) cs"
  shows "call_all cs op = Inl WrongCast"
  using assms
proof (induction cs arbitrary: k op)
  case (Cons c cs)
  show ?case
  proof (cases "is_write_call c = wr")
    case True
    with Cons.prems obtain op1 where "call_op c op = Inr op1" "handle_ok wr pid oid (k + (if counted c then 1 else 0)) op1"
      using call_right_kind [of wr pid oid k op c] by auto
    with Cons.IH [of "k + (if counted c then 1 else 0)" op1] Cons.prems True show ?thesis by simp
  qed (use call_wrong_kind Cons.prems in auto)
qed simp

section \<open>Properties\<close>

definition write_handle_of :: "RadosObjectWriteOp option option \<Rightarrow> rados_object option" where
  "write_handle_of h = (case h of Some (Some w) \<Rightarrow> Some (WriteObj w) | _ \<Rightarrow> None)"

definition read_handle_of :: "RadosObjectReadOp option option \<Rightarrow> rados_object option" where
  "read_handle_of h = (case h of Some (Some r) \<Rightarrow> Some (ReadObj r) | _ \<Rightarrow> None)"

text \<open>
  C18: The interface on untyped handles is type-sound exactly for clients that keep the two kinds apart. Take a handle that a successful
  \<open>CephProxyWriteOpInit2\<close> or \<open>CephProxyReadOpInit2\<close> has filled in, and any list of calls whose buffers are as long as announced. If all calls are
  of the handle's kind none of them faults, the handle keeps its kind, pool and object, it is not yet bound to a
  callback, and every call that is not ignored has added exactly one librados call. If a single call is of the other kind the session
  ends in a wrong cast.
\<close>

theorem interface_type_sound:
  assumes "if wr then h = write_handle_of (snd (CephProxyWriteOpInit2 alloc nn pid oid)) \<and> fst (CephProxyWriteOpInit2 alloc nn pid oid) = 0
           else h = read_handle_of (snd (CephProxyReadOpInit2 alloc nn pid oid)) \<and> fst (CephProxyReadOpInit2 alloc nn pid oid) = 0"
    and "list_all args_ok cs"
  shows "if list_all (\<lambda>c. is_write_call c = wr) cs
         then \<exists>op. call_all cs h = Inr op \<and> handle_ok wr pid (c_str (the oid)) (length (filter counted cs)) op
         else call_all cs h = Inl WrongCast"
proof -
  have "handle_ok wr pid (c_str (the oid)) 0 h"
    using assms(1)
    by (auto simp: CephProxyWriteOpInit2_def CephProxyReadOpInit2_def RadosWriteOpInit2_def RadosReadOpInit2_def new_read_op_def
        write_handle_of_def read_handle_of_def handle_ok_def Let_def split: if_splits option.splits bool.splits)
  from session_ok [OF this assms(2)] session_wrong [OF this assms(2)] show ?thesis by simp
qed

theorem interface_type_sound_witness:
  "call_all [IWWrite (Some ''abc'') 3 0, IRStat] (Some (WriteObj demo_write)) = Inl WrongCast \<and>
   (\<exists>op. call_all [IWWrite (Some ''abc'') 3 0, IWWrite None 9 0, IWRemove] (Some (WriteObj demo_write)) = Inr op \<and> handle_ok True 1 ''obj'' 2 op)"
proof -
  have i: "if True then Some (WriteObj demo_write) = write_handle_of (snd (CephProxyWriteOpInit2 True True 1 (Some ''obj''))) \<and>
        fst (CephProxyWriteOpInit2 True True 1 (Some ''obj'')) = 0
      else Some (WriteObj demo_write) = read_handle_of (snd (CephProxyReadOpInit2 True True 1 (Some ''obj''))) \<and>
        fst (CephProxyReadOpInit2 True True 1 (Some ''obj'')) = 0"
    by (simp add: CephProxyWriteOpInit2_def RadosWriteOpInit2_def write_handle_of_def demo_write_def c_str_def)
  show ?thesis
    using interface_type_sound [OF i, of "[IWWrite (Some ''abc'') 3 0, IRStat]"]
      interface_type_sound [OF i, of "[IWWrite (Some ''abc'') 3 0, IWWrite None 9 0, IWRemove]"]
    by (simp add: buf_ok_def c_str_def) (simp add: numeral_2_eq_2)
qed

end
