(* ===== verification/My_Thread.thy ===== *)
theory My_Thread
  imports Rados_Worker
begin

text \<open>
  \<open>MyThread\<close> of \<open>ceph_proxy/RadosWorker.h\<close>, the wrapper around a POSIX thread that an I/O worker runs in, and what becomes of a worker whose thread
  could not be created: \<open>Create\<close> logs the error and returns nothing, so \<open>CreateIOWorker\<close> keeps the worker.

  The calls of the POSIX library are recorded in \<open>mt_log\<close>; their results are arguments. A failed \<open>pthread_create\<close> leaves the identifier as it was.
  \<open>pid\<close> is not set by the constructor.
\<close>

unbundle bit_operations_syntax

section \<open>The thread object\<close>

datatype pcall = PAttrInit | PAttrStack u64 | PCreate "u64 option" bool | PAttrDestroy | PJoin u64 | PDetach u64 | PSetName "string option" | PAffinity int

record MyThread =
  threadId :: u64
  mt_pid :: "int option"
  mt_cpuId :: int
  threadName :: "string option"
  mt_log :: "pcall list"

definition new_MyThread :: MyThread where
  "new_MyThread = \<lparr>threadId = 0, mt_pid = None, mt_cpuId = -1, threadName = None, mt_log = []\<rparr>"

definition mt_call :: "pcall \<Rightarrow> MyThread \<Rightarrow> MyThread" where
  "mt_call c t = t\<lparr>mt_log := mt_log t @ [c]\<rparr>"

text \<open>\<open>HAVE_SCHED\<close> is the argument \<open>have\<close>; \<open>err\<close> is the result of \<open>sched_setaffinity\<close> as a negative error code or 0.\<close>

definition proxy_set_affinity :: "bool \<Rightarrow> int \<Rightarrow> int \<Rightarrow> MyThread \<Rightarrow> int \<times> MyThread" where
  "proxy_set_affinity have err cid t =
     (if have \<and> 0 \<le> cid \<and> cid < 1024 then (if err < 0 then err else 0, mt_call (PAffinity cid) t) else (0, t))"

text \<open>\<open>proxy_gettid\<close>: the kernel's number of the thread, or \<open>-ENOSYS\<close> on another system.\<close>

definition proxy_gettid :: "bool \<Rightarrow> int \<Rightarrow> int" where
  "proxy_gettid is_linux tid = (if is_linux then tid else - ENOSYS)"

definition entryWrapper :: "bool \<Rightarrow> int \<Rightarrow> int \<Rightarrow> MyThread \<Rightarrow> fault + MyThread" where
  "entryWrapper have err tid t =
     (let t1 = (if 0 < tid then t\<lparr>mt_pid := Some tid\<rparr> else t)
      in case mt_pid t1 of
           None \<Rightarrow> Inl UninitRead
         | Some p \<Rightarrow>
             let t2 = (if p \<noteq> 0 \<and> 0 \<le> mt_cpuId t1 then snd (proxy_set_affinity have err (mt_cpuId t1) t1) else t1)
             in Inr (mt_call (PSetName (threadName t2)) t2))"

definition IsStarted :: "MyThread \<Rightarrow> bool" where
  "IsStarted t \<longleftrightarrow> threadId t \<noteq> 0"

definition AmSelf :: "u64 \<Rightarrow> MyThread \<Rightarrow> bool" where
  "AmSelf self t \<longleftrightarrow> self = threadId t"

text \<open>The attribute object is filled in and destroyed, but \<open>pthread_create\<close> gets a null pointer.\<close>

definition TryCreate :: "u64 \<Rightarrow> u64 \<Rightarrow> int \<times> u64 \<Rightarrow> MyThread \<Rightarrow> int \<times> MyThread" where
  "TryCreate page stacksize res t =
     (let sz = stacksize AND NOT (page - 1);
          t1 = (if sz \<noteq> 0 then mt_call (PAttrStack sz) (mt_call PAttrInit t) else t);
          t2 = mt_call (PCreate None (fst res = 0)) t1;
          t3 = (if fst res = 0 then t2\<lparr>threadId := snd res\<rparr> else t2)
      in (fst res, if sz \<noteq> 0 then mt_call PAttrDestroy t3 else t3))"

definition Create :: "u64 \<Rightarrow> string \<Rightarrow> u64 \<Rightarrow> int \<times> u64 \<Rightarrow> MyThread \<Rightarrow> MyThread" where
  "Create page name stacksize res t = snd (TryCreate page stacksize res (t\<lparr>threadName := Some name\<rparr>))"

definition Join :: "int \<Rightarrow> MyThread \<Rightarrow> int \<times> MyThread" where
  "Join status t =
     (if threadId t = 0 then (- EINVAL, t)
      else (status, (mt_call (PJoin (threadId t)) t)\<lparr>threadId := 0\<rparr>))"

definition Detach :: "int \<Rightarrow> MyThread \<Rightarrow> int \<times> MyThread" where
  "Detach status t = (status, mt_call (PDetach (threadId t)) t)"

definition SetAffinity :: "bool \<Rightarrow> int \<Rightarrow> int \<Rightarrow> int \<Rightarrow> MyThread \<Rightarrow> fault + int \<times> MyThread" where
  "SetAffinity have err self cid t =
     (let t1 = t\<lparr>mt_cpuId := cid\<rparr>
      in case mt_pid t1 of
           None \<Rightarrow> Inl UninitRead
         | Some p \<Rightarrow> Inr (if p \<noteq> 0 \<and> self = p then proxy_set_affinity have err cid t1 else (0, t1)))"

definition StartProc :: "u64 \<Rightarrow> int \<times> u64 \<Rightarrow> MyThread \<Rightarrow> MyThread" where
  "StartProc page res t = Create page ''ioworker'' 0 res t"

section \<open>Joining\<close>

datatype thread_op = TCreate string u64 int u64 | TJoin int

fun thread_run :: "u64 \<Rightarrow> thread_op list \<Rightarrow> MyThread \<Rightarrow> MyThread" where
  "thread_run page [] t = t"
| "thread_run page (TCreate name sz r i # xs) t = thread_run page xs (Create page name sz (r, i) t)"
| "thread_run page (TJoin st # xs) t = thread_run page xs (snd (Join st t))"

definition joins :: "MyThread \<Rightarrow> nat" where
  "joins t = length (filter (\<lambda>c. case c of PJoin _ \<Rightarrow> True | _ \<Rightarrow> False) (mt_log t))"

definition creates :: "MyThread \<Rightarrow> nat" where
  "creates t = length (filter (\<lambda>c. case c of PCreate _ ok \<Rightarrow> ok | _ \<Rightarrow> False) (mt_log t))"

lemma Create_counts:
  "joins (Create page name sz res t) = joins t \<and> creates (Create page name sz res t) = creates t + (if fst res = 0 then 1 else 0) \<and>
   threadId (Create page name sz res t) = (if fst res = 0 then snd res else threadId t)"
  by (simp add: Create_def TryCreate_def mt_call_def joins_def creates_def Let_def)

lemma Join_counts:
  "joins (snd (Join status t)) = joins t + (if threadId t = 0 then 0 else 1) \<and> creates (snd (Join status t)) = creates t \<and> threadId (snd (Join status t)) = 0"
  by (simp add: Join_def mt_call_def joins_def creates_def)

lemma thread_run_joins:
  assumes "joins t + (if threadId t = 0 then 0 else 1) \<le> creates t"
  shows "joins (thread_run page xs t) + (if threadId (thread_run page xs t) = 0 then 0 else 1) \<le> creates (thread_run page xs t)"
  using assms
proof (induction page xs t rule: thread_run.induct)
  case (2 page name sz r i xs t)
  show ?case unfolding thread_run.simps
    by (rule "2.IH") (use "2.prems" Create_counts [of page name sz "(r, i)" t] in \<open>auto split: if_splits\<close>)
next
  case (3 page st xs t)
  show ?case unfolding thread_run.simps
    by (rule "3.IH") (use "3.prems" Join_counts [of st t] in \<open>auto split: if_splits\<close>)
qed simp

text \<open>
  No thread is joined twice, and none that was not created: in every sequence of \<open>Create\<close> and \<open>Join\<close> on one object
  there are at most as many calls of \<open>pthread_join\<close> as successful calls of \<open>pthread_create\<close>; a further \<open>Join\<close> answers \<open>-EINVAL\<close>.
\<close>

theorem thread_join_once:
  "joins (thread_run page xs new_MyThread) \<le> creates (thread_run page xs new_MyThread) \<and>
   fst (Join status (snd (Join st (thread_run page xs new_MyThread)))) = - EINVAL"
proof -
  have "joins new_MyThread + (if threadId new_MyThread = 0 then 0 else 1) \<le> creates new_MyThread"
    by (simp add: joins_def new_MyThread_def)
  from thread_run_joins [OF this, of page xs] Join_counts [of st "thread_run page xs new_MyThread"] show ?thesis
    by (simp add: Join_def [of status])
qed

section \<open>A worker without a thread\<close>

text \<open>All threads but the handler. \<open>Join\<close> on the thread that was never created returns at once.\<close>

inductive nt_step :: "RadosIOWorker \<Rightarrow> RadosIOWorker \<Rightarrow> bool" where
  nt_queue: "io_Queue rq w = (r, w') \<Longrightarrow> nt_step w w'"
| nt_stop_call: "stopper w = StopIdle \<Longrightarrow> nt_step w (WaitForEmpty_check w)"
| nt_stop_wake: "stopper w \<in> {EmptyWaiting, EmptyWoken} \<Longrightarrow> nt_step w (WaitForEmpty_check w)"
| nt_stop_proc: "stopper w = StopReady \<Longrightarrow> nt_step w (StopProc_signal w)"
| nt_join: "stopper w = Joining \<Longrightarrow> nt_step w (w\<lparr>stopper := Joined\<rparr>)"

definition stuck_worker :: "RadosIOWorker \<Rightarrow> bool" where
  "stuck_worker w \<longleftrightarrow> Ops w \<noteq> [] \<and> stopper w \<in> {StopIdle, EmptyWaiting, EmptyWoken}"

lemma nt_step_keeps:
  assumes "nt_step w w'" "handler w = NotStarted" "handled w = []" "Ops w = accepted w"
  shows "handler w' = NotStarted \<and> handled w' = [] \<and> Ops w' = accepted w'"
  using assms
  by (induction rule: nt_step.induct)
    (auto simp: io_Queue_def notify_handler_def WaitForEmpty_check_def StopProc_signal_def Let_def split: if_splits)

lemma nt_reach:
  "nt_step\<^sup>*\<^sup>* (new_ioworker s) w \<Longrightarrow> handler w = NotStarted \<and> handled w = [] \<and> Ops w = accepted w"
  by (induction rule: rtranclp_induct) (auto simp: new_ioworker_def dest: nt_step_keeps)

lemma stuck_step: "nt_step w w' \<Longrightarrow> stuck_worker w \<Longrightarrow> stuck_worker w'"
  by (induction rule: nt_step.induct)
    (auto simp: stuck_worker_def io_Queue_def notify_handler_def WaitForEmpty_check_def StopProc_signal_def Let_def split: if_splits)



end
