(* ===== verification/Rbd_Wrapper.thy ===== *)
theory Rbd_Wrapper
  imports Config_Read Rados_Monitor
begin

text \<open>
  \<open>ceph_proxy/RbdWrapper.cc\<close>: the block-device calls of the proxy (removing a snapshot, names of pools and images, the
  number of objects of an image, disk usage) on one librados client that the process shares and counts the users of.

  librados and librbd are parameters. The state counts the contexts and images that are open, so that a path that leaves
  one behind shows. The labels of the cleanup code (\<open>close_image\<close>, \<open>close_ioctx\<close>, \<open>shutdown\<close>) are the
  combinators \<open>with_image\<close>, \<open>with_ioctx\<close> and \<open>with_rados\<close>. The second half of the theory is the counting of
  users by several threads.
\<close>

section \<open>librbd\<close>

datatype image_ref = ImgId string | ImgName string

type_synonym image_at = "pool_ref \<times> string \<times> image_ref"

record rbd_env =
  rb_cfg :: cfg_env
  rb_rados :: rados_env
  rb_mon :: "string \<Rightarrow> int \<times> string"
  namespace_exists :: "pool_ref \<Rightarrow> string \<Rightarrow> int \<times> bool"
  rbd_open :: "image_at \<Rightarrow> int"
  rbd_get_name :: "image_at \<Rightarrow> string"
  rbd_get_id :: "image_at \<Rightarrow> string"
  rbd_stat :: "image_at \<Rightarrow> int \<times> u64 \<times> u64"
  snap_remove2 :: "image_at \<Rightarrow> string \<Rightarrow> bool \<Rightarrow> int"
  snap_remove_by_id :: "image_at \<Rightarrow> u64 \<Rightarrow> int"
  rbd_list2 :: "pool_ref \<Rightarrow> int \<times> string list"
  open_read_only :: "pool_ref \<Rightarrow> string \<Rightarrow> string option \<Rightarrow> int"
  rbd_snap_list :: "pool_ref \<Rightarrow> string \<Rightarrow> int \<times> (string \<times> u64) list"
  diff_iterate2 :: "pool_ref \<Rightarrow> string \<Rightarrow> string option \<Rightarrow> string option \<Rightarrow> u64 \<Rightarrow> int \<times> (u64 \<times> u64 \<times> bool) list"

record ProxyCtx =
  init_flag :: bool
  cref :: int
  open_ioctxs :: nat
  open_images :: nat

section \<open>The shared client\<close>

definition RadosShutdown :: "ProxyCtx \<Rightarrow> ProxyCtx" where
  "RadosShutdown s =
     (let s1 = s\<lparr>cref := cref s - 1\<rparr> in if cref s1 = 0 then s1\<lparr>init_flag := False\<rparr> else s1)"

text \<open>The results of \<open>conf_set\<close> on the running client are only logged.\<close>

definition FastInitRados :: "ProxyCtx \<Rightarrow> ProxyCtx" where
  "FastInitRados s = s\<lparr>cref := cref s + 1\<rparr>"

definition GetCephPath :: "cfg_env \<Rightarrow> int \<times> (string \<times> string) option" where
  "GetCephPath E =
     (let (r1, conf) = read_path E ''ceph_conf_path'' in
      if r1 \<noteq> 0 then (r1, None)
      else let (r2, keyring) = read_path E ''ceph_keyring_path'' in
      if r2 \<noteq> 0 then (r2, None) else (0, Some (conf, keyring)))"

fun conf_set_all :: "rados_env \<Rightarrow> (string \<times> string) list \<Rightarrow> int \<Rightarrow> int" where
  "conf_set_all e [] ret = ret"
| "conf_set_all e ((k, v) # m) ret = (let r = conf_set_ret e (c_str k) (c_str v) in if r < 0 then r else conf_set_all e m r)"

definition RadosInit :: "rbd_env \<Rightarrow> (string \<times> string) list \<Rightarrow> ProxyCtx \<Rightarrow> int \<times> ProxyCtx" where
  "RadosInit B conf_map s =
     (let e = rb_rados B in
      if init_flag s then (0, FastInitRados s)
      else if init_ret e \<noteq> 0 then (init_ret e, s)
      else
        (case GetCephPath (rb_cfg B) of
           (r1, None) \<Rightarrow> (r1, s)
         | (r1, Some (confPath, keyPath)) \<Rightarrow>
             let r2 = conf_read_file_ret e (c_str confPath) in
             if r2 \<noteq> 0 then (r2, s)
             else let (r3, authName) = conf_get e ''auth_cluster_required'' in
             if r3 \<noteq> 0 then (r3, s)
             else let r4 = (if c_str authName = ''cephx'' then conf_set_ret e ''keyring'' (c_str keyPath) else r3) in
             if r4 < 0 then (r4, s)
             else let r5 = conf_set_all e conf_map r4 in
             if r5 < 0 then (r5, s)
             else let r6 = fst (connect_loop e 0 r5) in
             if r6 < 0 then (r6, s)
             else (0, s\<lparr>cref := 1, init_flag := True\<rparr>)))"

section \<open>Contexts and images\<close>

definition IoCtxDestroy :: "ProxyCtx \<Rightarrow> ProxyCtx" where
  "IoCtxDestroy s = s\<lparr>open_ioctxs := open_ioctxs s - 1\<rparr>"

definition IoctxSetNamespace :: "rbd_env \<Rightarrow> pool_ref \<Rightarrow> string \<Rightarrow> int" where
  "IoctxSetNamespace B io ns =
     (if ns \<noteq> '''' then
        (case namespace_exists B io (c_str ns) of (r, ex) \<Rightarrow> if r < 0 then r else if \<not> ex then - ENOENT else 0)
      else 0)"

definition ioctx_ref :: "string \<Rightarrow> int \<Rightarrow> pool_ref" where
  "ioctx_ref pool_name pool_id = (if pool_name \<noteq> '''' then ByName (c_str pool_name) else ById pool_id)"

definition IoctxInit :: "rbd_env \<Rightarrow> string \<Rightarrow> int \<Rightarrow> string \<Rightarrow> ProxyCtx \<Rightarrow> fault + int \<times> ProxyCtx" where
  "IoctxInit B pool_name pool_id ns s =
     (if \<not> init_flag s then Inl AssertFailed
      else
        let e = rb_rados B;
            ret = (if pool_name \<noteq> '''' then ioctx_create_ret e (c_str pool_name) else ioctx_create2_ret e pool_id)
        in if ret < 0 then Inr (ret, s)
           else
             let s1 = s\<lparr>open_ioctxs := open_ioctxs s + 1\<rparr>;
                 r2 = IoctxSetNamespace B (ioctx_ref pool_name pool_id) ns
             in if r2 < 0 then Inr (r2, IoCtxDestroy s1) else Inr (r2, s1))"

definition IoctxCloseImage :: "ProxyCtx \<Rightarrow> ProxyCtx" where
  "IoctxCloseImage s = s\<lparr>open_images := open_images s - 1\<rparr>"

definition image_of :: "pool_ref \<Rightarrow> string \<Rightarrow> string \<Rightarrow> string \<Rightarrow> image_at" where
  "image_of io ns image_name image_id =
     (io, ns, if image_id \<noteq> '''' then ImgId (c_str image_id) else ImgName (c_str image_name))"

definition IoctxOpenImage :: "rbd_env \<Rightarrow> image_at \<Rightarrow> ProxyCtx \<Rightarrow> int \<times> ProxyCtx" where
  "IoctxOpenImage B im s =
     (let ret = rbd_open B im in if ret < 0 then (ret, s) else (ret, s\<lparr>open_images := open_images s + 1\<rparr>))"

definition ImageRemoveSnap :: "rbd_env \<Rightarrow> image_at \<Rightarrow> string \<Rightarrow> u64 \<Rightarrow> bool \<Rightarrow> int" where
  "ImageRemoveSnap B im snap_name snap_id force =
     (if snap_name \<noteq> '''' then snap_remove2 B im (c_str snap_name) force else snap_remove_by_id B im snap_id)"

section \<open>Cleanup\<close>

type_synonym 'v rbd_call = "ProxyCtx \<Rightarrow> fault + int \<times> 'v \<times> ProxyCtx"

text \<open>\<open>v\<close> is what the output parameter holds when the call fails at this point; \<open>fail\<close> adjusts the code.\<close>

definition with_rados :: "rbd_env \<Rightarrow> (string \<times> string) list \<Rightarrow> 'v \<Rightarrow> 'v rbd_call \<Rightarrow> 'v rbd_call" where
  "with_rados B conf v body s =
     (case RadosInit B conf s of (ret, s1) \<Rightarrow>
        if ret < 0 then Inr (ret, v, s1)
        else (case body s1 of Inl f \<Rightarrow> Inl f | Inr (r, x, s2) \<Rightarrow> Inr (r, x, RadosShutdown s2)))"

definition with_ioctx :: "rbd_env \<Rightarrow> string \<Rightarrow> int \<Rightarrow> string \<Rightarrow> (int \<Rightarrow> int) \<Rightarrow> 'v \<Rightarrow> 'v rbd_call \<Rightarrow> 'v rbd_call" where
  "with_ioctx B pool pid ns fail v body s =
     (case IoctxInit B pool pid ns s of
        Inl f \<Rightarrow> Inl f
      | Inr (ret, s1) \<Rightarrow>
          if ret < 0 then Inr (fail ret, v, s1)
          else (case body s1 of Inl f \<Rightarrow> Inl f | Inr (r, x, s2) \<Rightarrow> Inr (r, x, IoCtxDestroy s2)))"

definition with_image :: "rbd_env \<Rightarrow> image_at \<Rightarrow> (int \<Rightarrow> int) \<Rightarrow> 'v \<Rightarrow> (int \<Rightarrow> 'v rbd_call) \<Rightarrow> 'v rbd_call" where
  "with_image B im fail v body s =
     (case IoctxOpenImage B im s of (ret, s1) \<Rightarrow>
        if ret < 0 then Inr (fail ret, v, s1)
        else (case body ret s1 of Inl f \<Rightarrow> Inl f | Inr (r, x, s2) \<Rightarrow> Inr (r, x, IoctxCloseImage s2)))"

definition enoent_ok :: "int \<Rightarrow> int" where
  "enoent_ok r = (if r = - ENOENT then 0 else r)"

section \<open>The calls\<close>

definition CephLibrbdSnapRemove ::
    "rbd_env \<Rightarrow> int \<Rightarrow> string option \<Rightarrow> string option \<Rightarrow> u64 \<Rightarrow> bool \<Rightarrow> unit rbd_call" where
  "CephLibrbdSnapRemove B pool_id ns0 img0 snap_id force s =
     (case (ns0, img0) of
        (Some ns, Some image_id) \<Rightarrow>
          if pool_id = 0 then Inr (- EINVAL, (), s)
          else if c_str image_id = '''' then Inr (- EINVAL, (), s)
          else if snap_id = 0 then Inr (- EINVAL, (), s)
          else
            with_rados B [(''rbd_cache_writethrough_until_flush'', ''false'')] ()
              (with_ioctx B '''' pool_id (c_str ns) enoent_ok ()
                (let im = image_of (ById pool_id) (c_str ns) '''' (c_str image_id) in
                 with_image B im enoent_ok ()
                   (\<lambda>_ s2. let r = ImageRemoveSnap B im '''' snap_id force in Inr (if r < 0 then enoent_ok r else r, (), s2)))) s
      | _ \<Rightarrow> Inr (- EINVAL, (), s))"

definition CephLibrbdGetPoolName :: "rbd_env \<Rightarrow> string \<Rightarrow> int \<Rightarrow> string \<Rightarrow> string rbd_call" where
  "CephLibrbdGetPoolName B pool_name pool_id ns =
     with_rados B [] pool_name
       (\<lambda>s1. with_ioctx B '''' pool_id ns id pool_name
         (\<lambda>s2. if get_id (rb_rados B) (ById pool_id) \<noteq> pool_id then Inl AssertFailed
               else Inr (IoctxSetNamespace B (ById pool_id) ns, get_pool_name (rb_rados B) (ById pool_id), s2)) s1)"

definition CephLibrbdGetImageName :: "rbd_env \<Rightarrow> int \<Rightarrow> string \<Rightarrow> string \<Rightarrow> string \<Rightarrow> string rbd_call" where
  "CephLibrbdGetImageName B pool_id image_id image_name ns =
     (let im = image_of (ById pool_id) ns '''' image_id in
      with_rados B [] image_name
        (with_ioctx B '''' pool_id ns id image_name
          (with_image B im id image_name
            (\<lambda>ret s3. if rbd_get_id B im \<noteq> image_id then Inl AssertFailed else Inr (ret, rbd_get_name B im, s3)))))"

text \<open>The number of objects, 64 bits, is stored through a pointer to \<open>int32_t\<close>.\<close>

definition CephLibrbdGetImageInfo :: "rbd_env \<Rightarrow> int \<Rightarrow> string option \<Rightarrow> int option \<Rightarrow> int option rbd_call" where
  "CephLibrbdGetImageInfo B pool_id img0 num_objs s =
     (case (img0, num_objs) of
        (Some image_id, Some n0) \<Rightarrow>
          (let im = image_of (ById pool_id) '''' '''' (c_str image_id) in
           with_rados B [] (Some n0)
             (with_ioctx B '''' pool_id '''' id (Some n0)
               (with_image B im id (Some n0)
                 (\<lambda>_ s3. case rbd_stat B im of (ret, size1, objs) \<Rightarrow>
                    if ret < 0 then Inr (ret, Some n0, s3) else Inr (ret, Some (to_i32 (uint objs)), s3)))) s)
      | _ \<Rightarrow> Inr (- EINVAL, num_objs, s))"

section \<open>Disk usage\<close>

record SigPoolInfo =
  sp_poolId :: int
  sp_poolName :: string
  sp_isEC :: bool
  sp_k :: int
  sp_m :: int
  sp_usage :: u64
  sp_ecProfileName :: string

definition MonCommand :: "rbd_env \<Rightarrow> string \<Rightarrow> ProxyCtx \<Rightarrow> fault + int \<times> string" where
  "MonCommand B cmd s =
     (if \<not> init_flag s then Inl AssertFailed
      else (case rb_mon B cmd of (ret, out) \<Rightarrow> if ret < 0 then Inr (ret, '''') else Inr (0, c_str out)))"

text \<open>\<open>\s*(\d+)\s+(\S+)\<close>, matched against the whole string.\<close>

definition match_pool_line :: "string \<Rightarrow> (string \<times> string) option" where
  "match_pool_line l =
     (let l1 = dropWhile isspace_c l;
          d = takeWhile is_digit l1;
          l2 = dropWhile is_digit l1;
          w = dropWhile isspace_c l2
      in if d \<noteq> [] \<and> l2 \<noteq> [] \<and> isspace_c (hd l2) \<and> w \<noteq> [] \<and> list_all (\<lambda>c. \<not> isspace_c c) w then Some (d, w) else None)"

definition add_pool_line :: "(int, SigPoolInfo) std_map \<Rightarrow> string \<Rightarrow> (int, SigPoolInfo) std_map" where
  "add_pool_line m l =
     (case match_pool_line l of
        None \<Rightarrow> m
      | Some (d, w) \<Rightarrow>
          map_put (atoi d) \<lparr>sp_poolId = atoi d, sp_poolName = c_str w, sp_isEC = False, sp_k = 0, sp_m = 0, sp_usage = 0,
             sp_ecProfileName = ''''\<rparr> m)"

definition ParsePoolMap :: "string \<Rightarrow> (int, SigPoolInfo) std_map \<Rightarrow> (int, SigPoolInfo) std_map" where
  "ParsePoolMap outs m = foldl add_pool_line m (strtok (CHR 0x0A) (c_str outs))"

definition ec_line :: "SigPoolInfo \<Rightarrow> string \<Rightarrow> SigPoolInfo" where
  "ec_line info l =
     (case match_assign l of
        None \<Rightarrow> info
      | Some (key, v) \<Rightarrow>
          if key = ''k'' then info\<lparr>sp_k := atoi v\<rparr> else if key = ''m'' then info\<lparr>sp_m := atoi v\<rparr> else info)"

definition GetECPoolScale :: "rbd_env \<Rightarrow> SigPoolInfo \<Rightarrow> ProxyCtx \<Rightarrow> fault + int \<times> SigPoolInfo" where
  \<open>GetECPoolScale B info s =
     (case MonCommand B (''{"prefix": "osd erasure-code-profile get", "name": "'' @ sp_ecProfileName info @ ''"}'') s of
        Inl f \<Rightarrow> Inl f
      | Inr (ret, outs) \<Rightarrow>
          if ret \<noteq> 0 then Inr (ret, info) else Inr (0, foldl ec_line info (strtok (CHR 0x0A) (c_str outs))))\<close>

definition pool_property :: "rbd_env \<Rightarrow> SigPoolInfo \<Rightarrow> ProxyCtx \<Rightarrow> fault + int \<times> SigPoolInfo" where
  \<open>pool_property B info s =
     (case MonCommand B (''{"var": "erasure_code_profile", "prefix": "osd pool get", "pool": "'' @ sp_poolName info @ ''"}'') s of
        Inl f \<Rightarrow> Inl f
      | Inr (ret, outs) \<Rightarrow>
          if ret < 0 then
            (if ret = - EACCES then Inr (0, info\<lparr>sp_isEC := False, sp_k := 1, sp_m := 2\<rparr>) else Inr (ret, info))
          else
            let i1 = info\<lparr>sp_isEC := True, sp_k := 0, sp_m := 0\<rparr>
            in (case match_profile outs of
                  None \<Rightarrow> Inr (-1, i1)
                | Some w \<Rightarrow>
                    (case GetECPoolScale B (i1\<lparr>sp_ecProfileName := c_str w\<rparr>) s of
                       Inl f \<Rightarrow> Inl f
                     | Inr (r2, i2) \<Rightarrow>
                         if r2 < 0 then Inr (r2, i2)
                         else if sp_k i2 = 0 \<or> sp_m i2 = 0 then Inl AssertFailed
                         else Inr (0, i2))))\<close>

text \<open>A loop over the pools that stops at the first error.\<close>

fun each_pool ::
    "(SigPoolInfo \<Rightarrow> ProxyCtx \<Rightarrow> fault + int \<times> SigPoolInfo \<times> ProxyCtx) \<Rightarrow> (int, SigPoolInfo) std_map \<Rightarrow> int \<Rightarrow> ProxyCtx
     \<Rightarrow> fault + int \<times> (int, SigPoolInfo) std_map \<times> ProxyCtx" where
  "each_pool f [] ret s = Inr (ret, [], s)"
| "each_pool f ((k, info) # m) ret s =
     (case f info s of
        Inl e \<Rightarrow> Inl e
      | Inr (r, info1, s1) \<Rightarrow>
          if r < 0 then Inr (r, (k, info1) # m, s1)
          else (case each_pool f m r s1 of Inl e \<Rightarrow> Inl e | Inr (r2, m2, s2) \<Rightarrow> Inr (r2, (k, info1) # m2, s2)))"

definition CalPoolProperty ::
    "rbd_env \<Rightarrow> (int, SigPoolInfo) std_map \<Rightarrow> ProxyCtx \<Rightarrow> fault + int \<times> (int, SigPoolInfo) std_map \<times> ProxyCtx" where
  "CalPoolProperty B m s =
     each_pool (\<lambda>info s. case pool_property B info s of Inl f \<Rightarrow> Inl f | Inr (r, i1) \<Rightarrow> Inr (r, i1, s)) m 0 s"

fun DiffCallback :: "u64 \<times> u64 \<times> bool \<Rightarrow> u64 \<Rightarrow> u64" where
  "DiffCallback (off, n, ex) used = (if ex then used + n else used)"

definition diff_used :: "(u64 \<times> u64 \<times> bool) list \<Rightarrow> u64" where
  "diff_used exts = fold DiffCallback exts 0"

text \<open>The loop over the snapshots; the result has the code, the snapshot to start from, and the usage so far.\<close>

fun snap_usage ::
    "rbd_env \<Rightarrow> pool_ref \<Rightarrow> string \<Rightarrow> (string \<times> u64) list \<Rightarrow> int \<Rightarrow> string \<Rightarrow> string option \<Rightarrow> u64
     \<Rightarrow> int \<times> string \<times> string option \<times> u64" where
  "snap_usage B io img [] ret lastSnap snapFrom usage = (ret, lastSnap, snapFrom, usage)"
| "snap_usage B io img ((name, size1) # snaps) ret lastSnap snapFrom usage =
     (let r1 = open_read_only B io (c_str img) (Some (c_str name)) in
      if r1 < 0 then (r1, lastSnap, snapFrom, usage)
      else
        let from = (if lastSnap \<noteq> '''' then Some lastSnap else snapFrom);
            (r2, exts) = diff_iterate2 B io (c_str img) (Some (c_str name)) from size1
        in if r2 < 0 then (r2, lastSnap, from, usage)
           else snap_usage B io img snaps r2 (c_str name) from (usage + diff_used exts))"

text \<open>The image is opened and closed on every path; the state is as before.\<close>

definition CalImageUsage :: "rbd_env \<Rightarrow> pool_ref \<Rightarrow> SigPoolInfo \<Rightarrow> string \<Rightarrow> ProxyCtx \<Rightarrow> int \<times> SigPoolInfo \<times> ProxyCtx" where
  "CalImageUsage B io info img s =
     (let r0 = open_read_only B io (c_str img) None in
      if r0 < 0 then (r0, info, s)
      else
        let s1 = s\<lparr>open_images := open_images s + 1\<rparr>;
            (r1, size1, objs) = rbd_stat B (io, '''', ImgName (c_str img)) in
        if r1 < 0 then (r1, info, IoctxCloseImage s1)
        else let (r2, snaps) = rbd_snap_list B io (c_str img) in
        if r2 < 0 then (r2, info, IoctxCloseImage s1)
        else let (r3, lastSnap, snapFrom, u) = snap_usage B io img snaps r2 '''' None (sp_usage info) in
        if r3 < 0 then (r3, info\<lparr>sp_usage := u\<rparr>, IoctxCloseImage s1)
        else
          let from = (if lastSnap \<noteq> '''' then Some lastSnap else snapFrom);
              (r4, exts) = diff_iterate2 B io (c_str img) None from size1
          in if r4 < 0 then (r4, info\<lparr>sp_usage := u\<rparr>, IoctxCloseImage s1)
             else (r4, info\<lparr>sp_usage := u + diff_used exts\<rparr>, IoctxCloseImage s1))"

fun images_usage :: "rbd_env \<Rightarrow> pool_ref \<Rightarrow> string list \<Rightarrow> int \<Rightarrow> SigPoolInfo \<Rightarrow> ProxyCtx \<Rightarrow> int \<times> SigPoolInfo \<times> ProxyCtx" where
  "images_usage B io [] ret info s = (ret, info, s)"
| "images_usage B io (img # imgs) ret info s =
     (case CalImageUsage B io info img s of (r, info1, s1) \<Rightarrow>
        if r < 0 then (r, info1, s1) else images_usage B io imgs r info1 s1)"

definition pool_usage :: "rbd_env \<Rightarrow> SigPoolInfo \<Rightarrow> ProxyCtx \<Rightarrow> fault + int \<times> SigPoolInfo \<times> ProxyCtx" where
  "pool_usage B info s =
     with_ioctx B (sp_poolName info) 0 '''' id info
       (\<lambda>s1. let io = ioctx_ref (sp_poolName info) 0; (r, images) = rbd_list2 B io
             in if r < 0 then Inr (r, info, s1) else Inr (images_usage B io images r info s1)) s"

definition CalPoolUsage ::
    "rbd_env \<Rightarrow> (int, SigPoolInfo) std_map \<Rightarrow> ProxyCtx \<Rightarrow> fault + int \<times> (int, SigPoolInfo) std_map \<times> ProxyCtx" where
  "CalPoolUsage B m s = each_pool (pool_usage B) m 0 s"

text \<open>Unsigned 64-bit arithmetic; the scale is an \<open>int\<close> that is converted.\<close>

definition pool_bytes :: "SigPoolInfo \<Rightarrow> u64" where
  "pool_bytes i = (sp_usage i * word_of_int (sp_k i + sp_m i)) div word_of_int (sp_k i)"

definition total_usage :: "(int, SigPoolInfo) std_map \<Rightarrow> u64" where
  "total_usage m = foldl (\<lambda>u kp. u + pool_bytes (snd kp)) 0 m div (1024 * 1024)"

definition CephLibrbdDiskUsage :: "rbd_env \<Rightarrow> u64 option \<Rightarrow> u64 option rbd_call" where
  \<open>CephLibrbdDiskUsage B usage s =
     (case usage of
        None \<Rightarrow> Inr (- EINVAL, None, s)
      | Some u0 \<Rightarrow>
          with_rados B [(''rbd_cache_writethrough_until_flush'', ''false'')] (Some u0)
            (\<lambda>s1.
              case MonCommand B ''{"prefix":"osd lspools"}'' s1 of
                Inl f \<Rightarrow> Inl f
              | Inr (r1, outs) \<Rightarrow>
                  if r1 < 0 then Inr (r1, Some u0, s1)
                  else
                    (case CalPoolProperty B (ParsePoolMap outs []) s1 of
                       Inl f \<Rightarrow> Inl f
                     | Inr (r2, m2, s2) \<Rightarrow>
                         if r2 < 0 then Inr (r2, Some u0, s2)
                         else
                           (case CalPoolUsage B m2 s2 of
                              Inl f \<Rightarrow> Inl f
                            | Inr (r3, m3, s3) \<Rightarrow>
                                if r3 < 0 then Inr (r3, Some u0, s3) else Inr (r3, Some (total_usage m3), s3)))) s)\<close>

section \<open>A call leaves the process as it found it\<close>

definition ref_ok :: "ProxyCtx \<Rightarrow> bool" where
  "ref_ok s \<longleftrightarrow> (if init_flag s then 0 < cref s else cref s = 0)"

text \<open>The libraries report errors as negative numbers.\<close>

definition neg_codes :: "rbd_env \<Rightarrow> bool" where
  "neg_codes B \<longleftrightarrow>
     init_ret (rb_rados B) \<le> 0 \<and> (\<forall>f. conf_read_file_ret (rb_rados B) f \<le> 0) \<and> (\<forall>k. fst (conf_get (rb_rados B) k) \<le> 0) \<and>
     (\<forall>k. fst (read_path (rb_cfg B) k) \<le> 0)"

text \<open>A call returns in the state it was called in; where an assertion may fail, it may also abort.\<close>

definition settles :: "bool \<Rightarrow> 'v rbd_call \<Rightarrow> ProxyCtx \<Rightarrow> bool" where
  "settles may_abort call s \<longleftrightarrow> (\<exists>r v. call s = Inr (r, v, s)) \<or> (may_abort \<and> call s = Inl AssertFailed)"

lemma settles_Inr [intro]: "call s = Inr (r, v, s) \<Longrightarrow> settles a call s"
  by (auto simp: settles_def)

lemma settles_eq: "call s = call' s \<Longrightarrow> settles a call' s \<Longrightarrow> settles a call s"
  by (simp add: settles_def)

lemma GetCephPath_neg: "neg_codes B \<Longrightarrow> GetCephPath (rb_cfg B) = (r, None) \<Longrightarrow> r < 0"
  by (auto simp: GetCephPath_def neg_codes_def order_less_le Let_def split: prod.splits if_splits) (metis fst_conv)+

lemma RadosInit_ok:
  assumes "ref_ok s" and "neg_codes B" and init: "RadosInit B conf s = (ret, s1)"
  shows "(ret < 0 \<and> s1 = s) \<or> (0 \<le> ret \<and> init_flag s1 \<and> RadosShutdown s1 = s)"
proof (cases "init_flag s")
  case True
  then show ?thesis
    using assms(1) init by (auto simp: RadosInit_def FastInitRados_def RadosShutdown_def ref_ok_def Let_def)
next
  case False
  have up: "RadosShutdown (s\<lparr>cref := 1, init_flag := True\<rparr>) = s"
    using assms(1) False by (simp add: RadosShutdown_def ref_ok_def)
  have neg: "init_ret (rb_rados B) \<noteq> 0 \<Longrightarrow> init_ret (rb_rados B) < 0"
    "conf_read_file_ret (rb_rados B) f \<noteq> 0 \<Longrightarrow> conf_read_file_ret (rb_rados B) f < 0"
    "conf_get (rb_rados B) k = (r3, v) \<Longrightarrow> r3 \<noteq> 0 \<Longrightarrow> r3 < 0" for f k r3 v
    using assms(2) unfolding neg_codes_def by (auto simp: order_less_le dest: spec [of _ k])
  have "(ret < 0 \<and> s1 = s) \<or> (ret = 0 \<and> s1 = s\<lparr>cref := 1, init_flag := True\<rparr>)"
    using False init neg GetCephPath_neg [OF assms(2)]
    by (auto simp: RadosInit_def Let_def split: prod.splits option.splits if_splits)
  then show ?thesis using up by auto
qed

lemma settles_rados:
  assumes "ref_ok s" and "neg_codes B" and "\<And>s1. init_flag s1 \<Longrightarrow> settles a body s1"
  shows "settles a (with_rados B conf v body) s"
proof -
  obtain ret s1 where i: "RadosInit B conf s = (ret, s1)" by fastforce
  show ?thesis
    using RadosInit_ok [OF assms(1,2) i] assms(3) [of s1] i by (auto simp: settles_def with_rados_def)
qed

lemma settles_ioctx:
  assumes "init_flag s" and "settles a body (s\<lparr>open_ioctxs := open_ioctxs s + 1\<rparr>)"
  shows "settles a (with_ioctx B pool pid ns fail v body) s"
  using assms by (auto simp: settles_def with_ioctx_def IoctxInit_def IoCtxDestroy_def Let_def)

lemma settles_image:
  assumes "\<And>ret. settles a (body ret) (s\<lparr>open_images := open_images s + 1\<rparr>)"
  shows "settles a (with_image B im fail v body) s"
  using assms [of "rbd_open B im"] by (auto simp: settles_def with_image_def IoctxOpenImage_def IoctxCloseImage_def Let_def)

lemma CalImageUsage_same: "snd (snd (CalImageUsage B io info img s)) = s"
  by (simp add: CalImageUsage_def IoctxCloseImage_def Let_def split: prod.splits)

lemma images_usage_same: "snd (snd (images_usage B io imgs ret info s)) = s"
proof (induction imgs arbitrary: ret info)
  case (Cons img imgs)
  then show ?case using CalImageUsage_same [of B io info img s] by (auto split: prod.splits)
qed simp

lemma pool_usage_settles: "init_flag s \<Longrightarrow> settles False (pool_usage B info) s"
  unfolding pool_usage_def
proof (rule settles_ioctx)
  fix s1 :: ProxyCtx
  let ?io = "ioctx_ref (sp_poolName info) 0"
  show "settles False (\<lambda>s1. let io = ?io; (r, images) = rbd_list2 B io
      in if r < 0 then Inr (r, info, s1) else Inr (images_usage B io images r info s1)) s1"
    using images_usage_same [of B ?io "snd (rbd_list2 B ?io)" "fst (rbd_list2 B ?io)" info s1]
    by (cases "images_usage B ?io (snd (rbd_list2 B ?io)) (fst (rbd_list2 B ?io)) info s1")
      (auto simp: settles_def Let_def split: prod.splits)
qed

lemma each_pool_settles:
  assumes "\<And>info. settles a (f info) s"
  shows "settles a (each_pool f m ret) s"
proof (induction m arbitrary: ret)
  case (Cons kp m)
  obtain k info where kp: "kp = (k, info)" by fastforce
  consider r v where "f info s = Inr (r, v, s)" | "a" "f info s = Inl AssertFailed"
    using assms [of info] by (auto simp: settles_def)
  then show ?case
  proof cases
    case 1
    then show ?thesis using Cons.IH [of r] kp by (cases "r < 0") (auto simp: settles_def)
  next
    case 2
    then show ?thesis using kp by (simp add: settles_def)
  qed
qed auto

lemma MonCommand_returns: "init_flag s \<Longrightarrow> \<exists>r outs. MonCommand B cmd s = Inr (r, outs)"
  by (cases "rb_mon B cmd") (auto simp: MonCommand_def)

lemma pool_property_settles:
  "init_flag s \<Longrightarrow> settles True (\<lambda>s. case pool_property B info s of Inl f \<Rightarrow> Inl f | Inr (r, i1) \<Rightarrow> Inr (r, i1, s)) s"
  by (auto simp: settles_def pool_property_def GetECPoolScale_def MonCommand_def Let_def
      split: prod.splits option.splits if_splits)

lemma DiskUsage_body_settles:
  assumes "init_flag s"
  shows "settles True (\<lambda>s1. case CalPoolProperty B m s1 of
       Inl f \<Rightarrow> Inl f
     | Inr (r2, m2, s2) \<Rightarrow>
         if r2 < 0 then Inr (r2, u0, s2)
         else (case CalPoolUsage B m2 s2 of
                 Inl f \<Rightarrow> Inl f
               | Inr (r3, m3, s3) \<Rightarrow> if r3 < 0 then Inr (r3, u0, s3) else Inr (r3, Some (total_usage m3), s3))) s"
proof -
  have "settles True (\<lambda>s. CalPoolProperty B m s) s"
    unfolding CalPoolProperty_def by (rule each_pool_settles [OF pool_property_settles [OF assms]])
  moreover have "\<exists>r v. CalPoolUsage B m2 s = Inr (r, v, s)" for m2
    using each_pool_settles [where f = "pool_usage B" and m = m2 and ret = 0, OF pool_usage_settles [OF assms]]
    by (simp add: settles_def CalPoolUsage_def)
  ultimately consider "CalPoolProperty B m s = Inl AssertFailed"
    | r2 m2 r3 m3 where "CalPoolProperty B m s = Inr (r2, m2, s)" "CalPoolUsage B m2 s = Inr (r3, m3, s)"
    unfolding settles_def by blast
  then show ?thesis by cases (auto simp: settles_def)
qed

lemma SnapRemove_settles:
  assumes "ref_ok s" and "neg_codes B"
  shows "settles False (CephLibrbdSnapRemove B pid ns img snap force) s"
proof (cases "\<exists>n i. ns = Some n \<and> img = Some i \<and> pid \<noteq> 0 \<and> c_str i \<noteq> '''' \<and> snap \<noteq> 0")
  case True
  then obtain n i where "ns = Some n" "img = Some i" "pid \<noteq> 0" "c_str i \<noteq> ''''" "snap \<noteq> 0" by blast
  then have "CephLibrbdSnapRemove B pid ns img snap force s =
      with_rados B [(''rbd_cache_writethrough_until_flush'', ''false'')] ()
        (with_ioctx B '''' pid (c_str n) enoent_ok ()
          (with_image B (image_of (ById pid) (c_str n) '''' (c_str i)) enoent_ok ()
            (\<lambda>_ s2. let r = ImageRemoveSnap B (image_of (ById pid) (c_str n) '''' (c_str i)) '''' snap force
                    in Inr (if r < 0 then enoent_ok r else r, (), s2)))) s"
    by (simp add: CephLibrbdSnapRemove_def Let_def)
  then show ?thesis
    by (rule settles_eq) (intro settles_rados [OF assms] settles_ioctx settles_image, auto simp: settles_def Let_def)
qed (auto simp: settles_def CephLibrbdSnapRemove_def split: option.splits)

lemma GetImageInfo_settles:
  assumes "ref_ok s" and "neg_codes B"
  shows "settles False (CephLibrbdGetImageInfo B pid img n) s"
proof (cases "\<exists>i n0. img = Some i \<and> n = Some n0")
  case True
  then obtain i n0 where "img = Some i" "n = Some n0" by blast
  then have "CephLibrbdGetImageInfo B pid img n s =
      with_rados B [] (Some n0)
        (with_ioctx B '''' pid '''' id (Some n0)
          (with_image B (image_of (ById pid) '''' '''' (c_str i)) id (Some n0)
            (\<lambda>_ s3. case rbd_stat B (image_of (ById pid) '''' '''' (c_str i)) of (ret, size1, objs) \<Rightarrow>
               if ret < 0 then Inr (ret, Some n0, s3) else Inr (ret, Some (to_i32 (uint objs)), s3)))) s"
    by (simp add: CephLibrbdGetImageInfo_def Let_def)
  then show ?thesis
    by (rule settles_eq)
      (intro settles_rados [OF assms] settles_ioctx settles_image, auto simp: settles_def split: prod.splits)
qed (auto simp: settles_def CephLibrbdGetImageInfo_def split: option.splits)

lemma DiskUsage_settles:
  assumes "ref_ok s" and "neg_codes B"
  shows "settles True (CephLibrbdDiskUsage B u) s"
proof (cases u)
  case (Some u0)
  show ?thesis
    unfolding CephLibrbdDiskUsage_def Some option.case
  proof (rule settles_rados [OF assms])
    fix s1 :: ProxyCtx
    assume f: "init_flag s1"
    obtain r1 outs where m: "MonCommand B ''{\"prefix\":\"osd lspools\"}'' s1 = Inr (r1, outs)"
      using MonCommand_returns [OF f] by blast
    show "settles True (\<lambda>s1. case MonCommand B ''{\"prefix\":\"osd lspools\"}'' s1 of
            Inl f \<Rightarrow> Inl f
          | Inr (r1, outs) \<Rightarrow>
              if r1 < 0 then Inr (r1, Some u0, s1)
              else (case CalPoolProperty B (ParsePoolMap outs []) s1 of
                      Inl f \<Rightarrow> Inl f
                    | Inr (r2, m2, s2) \<Rightarrow>
                        if r2 < 0 then Inr (r2, Some u0, s2)
                        else (case CalPoolUsage B m2 s2 of
                                Inl f \<Rightarrow> Inl f
                              | Inr (r3, m3, s3) \<Rightarrow>
                                  if r3 < 0 then Inr (r3, Some u0, s3) else Inr (r3, Some (total_usage m3), s3)))) s1"
      using DiskUsage_body_settles [where B = B and m = "ParsePoolMap outs []" and ?u0.0 = "Some u0", OF f] m
      by (cases "r1 < 0") (auto simp: settles_def)
  qed
qed (auto simp: settles_def CephLibrbdDiskUsage_def)

section \<open>Properties\<close>


text \<open>An environment with one pool and one image with a snapshot.\<close>

definition demo_rbd :: rbd_env where
  "demo_rbd =
     \<lparr>rb_cfg = demo_cfg ''7880'', rb_rados = demo_env, rb_mon = (\<lambda>c. (- EACCES, '''')), namespace_exists = (\<lambda>_ _. (0, True)),
      rbd_open = (\<lambda>im. if im = (ById 1, '''', ImgId ''abc'') then 0 else - ENOENT), rbd_get_name = (\<lambda>_. ''img''), rbd_get_id = (\<lambda>_. ''abc''),
      rbd_stat = (\<lambda>_. (0, 4096, 1)), snap_remove2 = (\<lambda>_ _ _. 0), snap_remove_by_id = (\<lambda>_ n. if n = 7 then 0 else - ENOENT),
      rbd_list2 = (\<lambda>_. (0, [''img''])), open_read_only = (\<lambda>_ _ _. 0), rbd_snap_list = (\<lambda>_ _. (0, [(''s1'', 4096)])),
      diff_iterate2 = (\<lambda>_ _ _ _ _. (0, [(0, 4096, True)]))\<rparr>"

definition demo_rctx :: ProxyCtx where
  "demo_rctx = \<lparr>init_flag = True, cref = 1, open_ioctxs = 0, open_images = 0\<rparr>"

lemma demo_rbd_codes: "neg_codes demo_rbd" "ref_ok demo_rctx"
  by (auto simp: neg_codes_def ref_ok_def demo_rbd_def demo_rctx_def demo_env_def read_path_def demo_cfg_def)


text \<open>
  Removing a snapshot is idempotent. With proper arguments and a client that can be reached, the call returns 0 when
  the pool, the namespace, the image or the snapshot does not exist (any more), and otherwise the code of the
  first library call that fails with another error, or of the removal itself.
\<close>

theorem SnapRemove_result:
  assumes "init_flag s" and "pid \<noteq> 0" and "c_str i \<noteq> ''''" and "snap \<noteq> 0"
    and im: "im = (ById pid, c_str n, ImgId (c_str (c_str i)))"
  shows "fst (projr (CephLibrbdSnapRemove B pid (Some n) (Some i) snap force s)) =
     enoent_ok
       (let r1 = ioctx_create2_ret (rb_rados B) pid; r2 = IoctxSetNamespace B (ById pid) (c_str n); r3 = rbd_open B im
        in if r1 < 0 then r1 else if r2 < 0 then r2 else if r3 < 0 then r3 else snap_remove_by_id B im snap)"
  using assms
  by (auto simp: CephLibrbdSnapRemove_def with_rados_def RadosInit_def FastInitRados_def with_ioctx_def IoctxInit_def
      with_image_def IoctxOpenImage_def ImageRemoveSnap_def image_of_def ioctx_ref_def enoent_ok_def Let_def)

theorem SnapRemove_result_witness:
  "fst (projr (CephLibrbdSnapRemove demo_rbd 1 (Some '''') (Some ''abc'') 9 False demo_rctx)) = 0 \<and>
   (1::int) \<noteq> 0 \<and> c_str ''abc'' \<noteq> '''' \<and> (9::u64) \<noteq> 0"
  using SnapRemove_result [of demo_rctx 1 "''abc''" 9 _ "''''" demo_rbd False, OF _ _ _ _ refl]
  by (simp add: demo_rctx_def demo_rbd_def demo_env_def c_str_def IoctxSetNamespace_def enoent_ok_def)

text \<open>The differences of a chain of snapshots, each against its predecessor.\<close>

definition chain_used :: "rbd_env \<Rightarrow> pool_ref \<Rightarrow> string \<Rightarrow> string option \<Rightarrow> (string \<times> u64) list \<Rightarrow> u64" where
  "chain_used B io img from snaps =
     sum_list (map2 (\<lambda>f sn. diff_used (snd (diff_iterate2 B io img (Some (fst sn)) f (snd sn)))) (from # map (Some \<circ> fst) snaps) snaps)"

definition snaps_fine :: "rbd_env \<Rightarrow> pool_ref \<Rightarrow> string \<Rightarrow> (string \<times> u64) list \<Rightarrow> bool" where
  "snaps_fine B io img snaps \<longleftrightarrow>
     (\<forall>(n, z) \<in> set snaps. n \<noteq> '''' \<and> c_str n = n \<and> 0 \<le> open_read_only B io img (Some n) \<and>
        (\<forall>f. 0 \<le> fst (diff_iterate2 B io img (Some n) f z)))"

lemma snap_usage_chain:
  assumes "snaps_fine B io (c_str img) snaps" and "0 \<le> ret" and "lastSnap \<noteq> '''' \<or> snapFrom = None"
  shows "\<exists>r l f. snap_usage B io img snaps ret lastSnap snapFrom u =
       (r, l, f, u + chain_used B io (c_str img) (if lastSnap = '''' then None else Some lastSnap) snaps) \<and> 0 \<le> r \<and>
     (if l \<noteq> '''' then Some l else f) = (if snaps = [] then if lastSnap = '''' then None else Some lastSnap else Some (fst (last snaps)))"
  using assms
proof (induction snaps arbitrary: ret lastSnap snapFrom u)
  case (Cons sn snaps)
  obtain n z where sn: "sn = (n, z)" by fastforce
  let ?from = "if lastSnap = '''' then None else Some lastSnap"
  obtain r2 exts where d: "diff_iterate2 B io (c_str img) (Some n) ?from z = (r2, exts)" by fastforce
  have fine: "n \<noteq> ''''" "c_str n = n" "0 \<le> open_read_only B io (c_str img) (Some n)" "0 \<le> r2" "snaps_fine B io (c_str img) snaps"
    using Cons.prems(1) sn d by (auto simp: snaps_fine_def) (metis fst_conv)
  have fr: "(if lastSnap \<noteq> '''' then Some lastSnap else snapFrom) = ?from" using Cons.prems(3) by auto
  have "snap_usage B io img (sn # snaps) ret lastSnap snapFrom u = snap_usage B io img snaps r2 n ?from (u + diff_used exts)"
    using fine d sn by (simp only: snap_usage.simps fr Let_def) simp
  then show ?case
    using Cons.IH [OF fine(5,4), of n ?from "u + diff_used exts"] fine(1) d sn
    by (fastforce simp: chain_used_def add.assoc)
qed (auto simp: chain_used_def)

text \<open>
  The usage of an image counts every byte range once per snapshot that has changed it: when the library calls
  succeed, what \<open>CalImageUsage\<close> adds is the used size of each snapshot against its predecessor (the first against
  nothing), plus that of the image against its last snapshot.
\<close>

theorem image_usage_chain:
  assumes "0 \<le> open_read_only B io (c_str img) None" and "rbd_stat B (io, '''', ImgName (c_str img)) = (r1, size1, objs)" and "0 \<le> r1"
    and "rbd_snap_list B io (c_str img) = (r2, snaps)" and "0 \<le> r2" and "snaps_fine B io (c_str img) snaps"
    and "last1 = (if snaps = [] then None else Some (fst (last snaps)))"
    and "diff_iterate2 B io (c_str img) None last1 size1 = (r4, exts)" and "0 \<le> r4"
  shows "CalImageUsage B io info img s =
     (r4, info\<lparr>sp_usage := sp_usage info + chain_used B io (c_str img) None snaps + diff_used exts\<rparr>, s)"
proof -
  obtain r l f where su: "snap_usage B io img snaps r2 '''' None (sp_usage info) =
      (r, l, f, sp_usage info + chain_used B io (c_str img) None snaps)" "0 \<le> r" "(if l \<noteq> '''' then Some l else f) = last1"
    using snap_usage_chain [OF assms(6,5), of "''''" None "sp_usage info"] assms(7) by auto
  then show ?thesis
    using assms by (simp add: CalImageUsage_def IoctxCloseImage_def Let_def)
qed

theorem image_usage_chain_witness:
  "sp_usage (fst (snd (CalImageUsage demo_rbd (ByName ''rbd'') \<lparr>sp_poolId = 1, sp_poolName = ''rbd'', sp_isEC = False, sp_k = 1, sp_m = 2,
     sp_usage = 0, sp_ecProfileName = ''''\<rparr> ''img'' demo_rctx))) = 8192"
proof -
  have fine: "snaps_fine demo_rbd (ByName ''rbd'') (c_str ''img'') [(''s1'', 4096)]"
    by (simp add: snaps_fine_def demo_rbd_def c_str_def)
  let ?io = "ByName ''rbd''"
  have c: "c_str ''img'' = ''img''" by (simp add: c_str_def)
  have e: "open_read_only demo_rbd ?io (c_str ''img'') None = 0" "rbd_stat demo_rbd (?io, '''', ImgName (c_str ''img'')) = (0, 4096, 1)"
    "rbd_snap_list demo_rbd ?io (c_str ''img'') = (0, [(''s1'', 4096)])"
    "diff_iterate2 demo_rbd ?io (c_str ''img'') None (Some ''s1'') 4096 = (0, [(0, 4096, True)])"
    by (simp_all add: demo_rbd_def)
  have "chain_used demo_rbd ?io (c_str ''img'') None [(''s1'', 4096)] = 4096" "diff_used [(0, 4096, True)] = 4096"
    by (simp_all add: chain_used_def diff_used_def demo_rbd_def)
  then show ?thesis
    using image_usage_chain [OF _ e(2) _ e(3) _ fine _ e(4), of "\<lparr>sp_poolId = 1, sp_poolName = ''rbd'', sp_isEC = False, sp_k = 1,
      sp_m = 2, sp_usage = 0, sp_ecProfileName = ''''\<rparr>" demo_rctx] e(1) by simp
qed

section \<open>Counting the users of the client\<close>

text \<open>
  \<open>FastInitRados\<close> increments the plain \<open>int\<close> counter while it holds the lock only shared: the load and the store of the
  increment are separate steps, between which other holders of the shared lock may run. The exclusive sections
  (the rest of \<open>RadosInit\<close>, \<open>RadosShutdown\<close>) wait until no thread holds the shared lock. With \<open>shared = False\<close> the
  relation has only the executions in which no two increments of the fast path overlap.
\<close>

datatype rpc = RIdle | RLoaded int | RUsing

record rsys =
  r_flag :: bool
  r_ref :: int
  r_pcs :: "rpc list"

definition holding :: "rsys \<Rightarrow> bool" where
  "holding s \<longleftrightarrow> list_ex (\<lambda>p. case p of RLoaded _ \<Rightarrow> True | _ \<Rightarrow> False) (r_pcs s)"

definition users :: "rsys \<Rightarrow> nat" where
  "users s = length (filter (\<lambda>p. p = RUsing) (r_pcs s))"

inductive rstep :: "bool \<Rightarrow> rsys \<Rightarrow> rsys \<Rightarrow> bool" for shared where
  init: "i < length (r_pcs s) \<Longrightarrow> r_pcs s ! i = RIdle \<Longrightarrow> \<not> holding s \<Longrightarrow> \<not> r_flag s \<Longrightarrow>
     rstep shared s (s\<lparr>r_flag := True, r_ref := 1, r_pcs := (r_pcs s)[i := RUsing]\<rparr>)"
| again: "i < length (r_pcs s) \<Longrightarrow> r_pcs s ! i = RIdle \<Longrightarrow> \<not> holding s \<Longrightarrow> r_flag s \<Longrightarrow>
     rstep shared s (s\<lparr>r_ref := r_ref s + 1, r_pcs := (r_pcs s)[i := RUsing]\<rparr>)"
| load: "i < length (r_pcs s) \<Longrightarrow> r_pcs s ! i = RIdle \<Longrightarrow> shared \<or> \<not> holding s \<Longrightarrow> r_flag s \<Longrightarrow>
     rstep shared s (s\<lparr>r_pcs := (r_pcs s)[i := RLoaded (r_ref s)]\<rparr>)"
| store: "i < length (r_pcs s) \<Longrightarrow> r_pcs s ! i = RLoaded r \<Longrightarrow>
     rstep shared s (s\<lparr>r_ref := r + 1, r_pcs := (r_pcs s)[i := RUsing]\<rparr>)"
| release: "i < length (r_pcs s) \<Longrightarrow> r_pcs s ! i = RUsing \<Longrightarrow> \<not> holding s \<Longrightarrow>
     rstep shared s (s\<lparr>r_flag := (r_flag s \<and> r_ref s - 1 \<noteq> 0), r_ref := r_ref s - 1, r_pcs := (r_pcs s)[i := RIdle]\<rparr>)"

definition rsys_start :: "nat \<Rightarrow> rsys" where
  "rsys_start n = \<lparr>r_flag = False, r_ref = 0, r_pcs = replicate n RIdle\<rparr>"

text \<open>
  The count of users can be too small. Three threads use the client at once; two of them initialise on the fast
  path at the same time and one increment is lost. When two of the three are done the client is shut down, while the
  third still works with it.
\<close>

theorem user_count_race:
  "\<exists>s. (rstep True)\<^sup>*\<^sup>* (rsys_start 3) s \<and> users s = 1 \<and> \<not> r_flag s"
proof -
  let ?a = "\<lparr>r_flag = True, r_ref = 1, r_pcs = [RUsing, RIdle, RIdle]\<rparr>"
  let ?b = "\<lparr>r_flag = True, r_ref = 1, r_pcs = [RUsing, RLoaded 1, RIdle]\<rparr>"
  let ?c = "\<lparr>r_flag = True, r_ref = 1, r_pcs = [RUsing, RLoaded 1, RLoaded 1]\<rparr>"
  let ?d = "\<lparr>r_flag = True, r_ref = 2, r_pcs = [RUsing, RUsing, RLoaded 1]\<rparr>"
  let ?e = "\<lparr>r_flag = True, r_ref = 2, r_pcs = [RUsing, RUsing, RUsing]\<rparr>"
  let ?f = "\<lparr>r_flag = True, r_ref = 1, r_pcs = [RIdle, RUsing, RUsing]\<rparr>"
  let ?g = "\<lparr>r_flag = False, r_ref = 0, r_pcs = [RIdle, RIdle, RUsing]\<rparr>"
  have 1: "rstep True (rsys_start 3) ?a"
    using rstep.init [of 0 "rsys_start 3" True] by (simp add: rsys_start_def holding_def numeral_3_eq_3)
  have 2: "rstep True ?a ?b" using rstep.load [of 1 ?a True] by simp
  have 3: "rstep True ?b ?c" using rstep.load [of 2 ?b True] by simp
  have 4: "rstep True ?c ?d" using rstep.store [of 1 ?c 1 True] by simp
  have 5: "rstep True ?d ?e" using rstep.store [of 2 ?d 1 True] by simp
  have 6: "rstep True ?e ?f" using rstep.release [of 0 ?e True] by (simp add: holding_def)
  have 7: "rstep True ?f ?g" using rstep.release [of 1 ?f True] by (simp add: holding_def)
  have "(rstep True)\<^sup>*\<^sup>* (rsys_start 3) ?g"
    using 1 2 3 4 5 6 7 by (meson converse_rtranclp_into_rtranclp r_into_rtranclp)
  then show ?thesis by (intro exI [of _ ?g]) (simp add: users_def)
qed

text \<open>Without such an overlap the count is exact: an invariant of the executions with \<open>shared = False\<close>.\<close>

abbreviation is_loaded :: "rpc \<Rightarrow> bool" where
  "is_loaded p \<equiv> (case p of RLoaded _ \<Rightarrow> True | _ \<Rightarrow> False)"

definition loaders :: "rsys \<Rightarrow> nat" where
  "loaders s = length (filter is_loaded (r_pcs s))"

definition count_exact :: "rsys \<Rightarrow> bool" where
  "count_exact s \<longleftrightarrow>
     r_ref s = int (users s) \<and> (r_flag s \<longleftrightarrow> 0 < users s) \<and> loaders s \<le> 1 \<and> (loaders s \<noteq> 0 \<longrightarrow> r_flag s) \<and>
     (\<forall>p \<in> set (r_pcs s). is_loaded p \<longrightarrow> p = RLoaded (r_ref s))"

lemma holding_loaders: "holding s \<longleftrightarrow> loaders s \<noteq> 0"
  by (auto simp: holding_def loaders_def list_ex_iff filter_empty_conv)

lemma length_filter_update:
  "i < length xs \<Longrightarrow>
   length (filter P (xs[i := x])) + (if P (xs ! i) then 1 else 0) = length (filter P xs) + (if P x then 1 else 0)"
proof (induction xs arbitrary: i)
  case (Cons y ys)
  then show ?case by (cases i) (auto simp: nth_Cons split: nat.splits)
qed simp

lemma pcs_update:
  assumes "i < length (r_pcs s)"
  shows "users (s\<lparr>r_pcs := (r_pcs s)[i := x]\<rparr>) + (if r_pcs s ! i = RUsing then 1 else 0) = users s + (if x = RUsing then 1 else 0)"
    and "loaders (s\<lparr>r_pcs := (r_pcs s)[i := x]\<rparr>) + (if is_loaded (r_pcs s ! i) then 1 else 0) = loaders s + (if is_loaded x then 1 else 0)"
  using length_filter_update [OF assms, of "\<lambda>p. p = RUsing" x] length_filter_update [OF assms, of is_loaded x]
  by (simp_all add: users_def loaders_def)

lemma no_loaders: "loaders s = 0 \<longleftrightarrow> (\<forall>p \<in> set (r_pcs s). \<not> is_loaded p)"
  by (simp add: loaders_def filter_empty_conv)

lemma users_cong [simp]: "users (s\<lparr>r_flag := b\<rparr>) = users s" "users (s\<lparr>r_ref := r\<rparr>) = users s"
  "loaders (s\<lparr>r_flag := b\<rparr>) = loaders s" "loaders (s\<lparr>r_ref := r\<rparr>) = loaders s"
  by (simp_all add: users_def loaders_def)

text \<open>One thread moves from \<open>p\<close> to \<open>x\<close>.\<close>

lemma count_exact_move:
  assumes i: "i < length (r_pcs s)" and s': "s' = s\<lparr>r_flag := f, r_ref := r, r_pcs := (r_pcs s)[i := x]\<rparr>"
    and r: "r = int (users s) + (if x = RUsing then 1 else 0) - (if r_pcs s ! i = RUsing then 1 else 0)" and f: "f \<longleftrightarrow> 0 < r"
    and l: "loaders s = (if is_loaded (r_pcs s ! i) then 1 else 0)" and x: "is_loaded x \<longrightarrow> x = RLoaded r \<and> loaders s = 0 \<and> f"
  shows "count_exact s'"
proof -
  have e: "users s' = users (s\<lparr>r_pcs := (r_pcs s)[i := x]\<rparr>)" "loaders s' = loaders (s\<lparr>r_pcs := (r_pcs s)[i := x]\<rparr>)"
    by (simp_all add: s' users_def loaders_def)
  have "int (users s') = r" using pcs_update(1) [OF i, of x] r e(1) by (auto split: if_splits)
  moreover have l': "loaders s' = (if is_loaded x then 1 else 0)"
    using pcs_update(2) [OF i, of x] l e(2) by (auto split: if_splits)
  moreover have "p = RLoaded r" if p: "p \<in> set (r_pcs s')" "is_loaded p" for p
  proof (cases "is_loaded x")
    case True
    then have "p \<notin> set (r_pcs s)" using x p(2) no_loaders [of s] by blast
    then have "p = x" using p(1) s' set_update_subset_insert [of "r_pcs s" i x] by auto
    then show ?thesis using x True by simp
  next
    case False
    then show ?thesis using l' p no_loaders [of s'] by auto
  qed
  ultimately show ?thesis using f x by (auto simp: count_exact_def s')
qed

lemma count_exact_step: "rstep False s s' \<Longrightarrow> count_exact s \<Longrightarrow> count_exact s'"
proof (induction rule: rstep.induct)
  case (init i s)
  then show ?case by (intro count_exact_move [OF init(1) refl]) (auto simp: count_exact_def holding_loaders)
next
  case (again i s)
  then show ?case
    by (intro count_exact_move [where f = "r_flag s" and r = "r_ref s + 1" and x = RUsing, OF again(1)])
      (auto simp: count_exact_def holding_loaders)
next
  case (load i s)
  then show ?case
    by (intro count_exact_move [where f = "r_flag s" and r = "r_ref s" and x = "RLoaded (r_ref s)", OF load(1)])
      (auto simp: count_exact_def holding_loaders)
next
  case (store i s r)
  then have "RLoaded r \<in> set (r_pcs s)" by (metis nth_mem)
  then have r: "r = r_ref s" "loaders s = 1"
    using store.prems no_loaders [of s] by (auto simp: count_exact_def le_Suc_eq)
  then have "r_flag s" using store.prems by (auto simp: count_exact_def)
  then show ?case
    using store r
    by (intro count_exact_move [where f = "r_flag s" and r = "r + 1" and x = RUsing, OF store(1)]) (auto simp: count_exact_def)
next
  case (release i s)
  then show ?case
    by (intro count_exact_move [OF release(1) refl]) (auto simp: count_exact_def holding_loaders)
qed

text \<open>
  C30: As long as no two increments of the fast path overlap, the client is up exactly while some thread uses it, and the
  counter is the number of these threads.
\<close>

theorem user_count_exact:
  assumes "(rstep False)\<^sup>*\<^sup>* (rsys_start n) s"
  shows "r_ref s = int (users s) \<and> (r_flag s \<longleftrightarrow> 0 < users s)"
proof -
  have "count_exact s"
    using assms
  proof (induction rule: rtranclp_induct)
    case base
    then show ?case by (simp add: count_exact_def users_def loaders_def rsys_start_def)
  next
    case (step y z)
    then show ?case by (blast intro: count_exact_step)
  qed
  then show ?thesis by (simp add: count_exact_def)
qed

theorem user_count_exact_witness:
  "\<exists>s. (rstep False)\<^sup>*\<^sup>* (rsys_start 1) s \<and> users s = 1 \<and> r_ref s = int (users s) \<and> r_flag s"
proof -
  let ?a = "\<lparr>r_flag = True, r_ref = 1, r_pcs = [RUsing]\<rparr>"
  have 1: "rstep False (rsys_start 1) ?a"
    using rstep.init [of 0 "rsys_start 1" False] by (simp add: rsys_start_def holding_def)
  then have r: "(rstep False)\<^sup>*\<^sup>* (rsys_start 1) ?a" by blast
  have "users ?a = 1" by (simp add: users_def)
  then show ?thesis using user_count_exact [OF r] r by (intro exI [of _ ?a]) auto
qed

end
