(* ===== verification/Class_Handler.thy ===== *)
theory Class_Handler
  imports Std_Map C_String "HOL-Library.Product_Lexorder"
begin

text \<open>
  \<open>server_adaptor/ClassHandler.cc\<close> and \<open>ClassHandler.h\<close>: the table of object classes, their loading with
  dependencies, and the registration and lookup of methods and filters.

  A \<open>ClassData *\<close> is the name of its node in the map. The dynamic linker and the directory are the record
  \<open>dl_env\<close>; what a class's \<open>__cls_init\<close> registers for its own class is a list of actions. \<open>set<ClassData *>\<close> is ordered by
  address, an injective function of the environment. \<open>_load_class\<close> calls itself for
  dependencies without marking the class as being loaded, so it takes fuel: \<open>None\<close> says that the recursion
  is deeper than the fuel.
\<close>

section \<open>State\<close>

record ClassMethod =
  m_cls :: string
  m_name :: string
  m_flags :: int
  m_func :: "nat option"
  m_cxx_func :: "nat option"

record ClassFilter =
  f_cls :: string
  f_name :: string
  f_fn :: "nat option"

datatype class_status = CLASS_UNKNOWN | CLASS_MISSING | CLASS_MISSING_DEPS | CLASS_INITIALIZING | CLASS_OPEN

type_synonym cls_ptr = "nat \<times> string"

record ClassData =
  cd_status :: class_status
  cd_name :: string
  cd_handle :: bool
  whitelisted :: bool
  methods_map :: "(string, ClassMethod) std_map"
  filters_map :: "(string, ClassFilter) std_map"
  dependencies :: "cls_ptr list"
  missing_dependencies :: "cls_ptr list"

type_synonym class_map = "(string, ClassData) std_map"

datatype cls_action =
    RegMethod string int nat
  | RegCxxMethod string int nat
  | RegFilter string nat

record dl_env =
  dl_addr :: "string \<Rightarrow> nat"
  dl_open :: "string \<Rightarrow> bool"
  dl_stat :: "string \<Rightarrow> int"
  dl_deps :: "string \<Rightarrow> string list option"
  dl_init :: "string \<Rightarrow> cls_action list option"
  osd_class_load_list :: string
  osd_class_default_list :: string

definition new_ClassData :: ClassData where
  "new_ClassData = \<lparr>cd_status = CLASS_UNKNOWN, cd_name = [], cd_handle = False, whitelisted = False, methods_map = [],
     filters_map = [], dependencies = [], missing_dependencies = []\<rparr>"

text \<open>Access through a pointer to a node of the map.\<close>

definition cls_at :: "class_map \<Rightarrow> string \<Rightarrow> ClassData" where
  "cls_at cs n = (case map_find cs n of None \<Rightarrow> new_ClassData | Some c \<Rightarrow> c)"

definition cls_upd :: "string \<Rightarrow> (ClassData \<Rightarrow> ClassData) \<Rightarrow> class_map \<Rightarrow> class_map" where
  "cls_upd n f cs = map_put n (f (cls_at cs n)) cs"

section \<open>Finding a class\<close>

function istream_words :: "string \<Rightarrow> string list" where
  "istream_words s =
     (let s' = dropWhile isspace_c s
      in if s' = [] then []
         else takeWhile (\<lambda>c. \<not> isspace_c c) s' # istream_words (dropWhile (\<lambda>c. \<not> isspace_c c) s'))"
  by pat_completeness auto
termination
proof (relation "measure length", simp)
  fix s s' :: string
  assume "s' = dropWhile isspace_c s" and ne: "s' \<noteq> []"
  then have "\<not> isspace_c (hd s')" by (simp add: hd_dropWhile)
  then have "dropWhile (\<lambda>c. \<not> isspace_c c) s' = dropWhile (\<lambda>c. \<not> isspace_c c) (tl s')"
    using ne by (cases s') auto
  then have "length (dropWhile (\<lambda>c. \<not> isspace_c c) s') \<le> length (tl s')" by (metis length_dropWhile_le)
  moreover have "length s' \<le> length s" using \<open>s' = _\<close> by (simp add: length_dropWhile_le)
  moreover have "length (tl s') < length s'" using ne by (cases s') auto
  ultimately show "(dropWhile (\<lambda>c. \<not> isspace_c c) s', s) \<in> measure length" by simp
qed

declare istream_words.simps [simp del]

definition in_class_list :: "string \<Rightarrow> string \<Rightarrow> bool" where
  "in_class_list cname lst \<longleftrightarrow> list_ex (\<lambda>w. w = cname \<or> w = ''*'') (istream_words lst)"

definition get_class :: "dl_env \<Rightarrow> string \<Rightarrow> bool \<Rightarrow> class_map \<Rightarrow> string option \<times> class_map" where
  "get_class E cname check_allowed classes =
     (case map_find classes cname of
        Some _ \<Rightarrow> (Some cname, classes)
      | None \<Rightarrow>
          if check_allowed \<and> \<not> in_class_list cname (osd_class_load_list E) then (None, classes)
          else (Some cname, map_put cname
                  (new_ClassData\<lparr>cd_name := cname, whitelisted := in_class_list cname (osd_class_default_list E)\<rparr>) classes))"

section \<open>Methods and filters\<close>

definition register_method :: "string \<Rightarrow> string \<Rightarrow> int \<Rightarrow> nat \<Rightarrow> class_map \<Rightarrow> bool \<times> class_map" where
  "register_method n mname flags f cs =
     (if flags = 0 then (False, cs)
      else (True, cls_upd n (\<lambda>c. c\<lparr>methods_map := map_put mname
         \<lparr>m_cls = n, m_name = mname, m_flags = flags, m_func = Some f,
          m_cxx_func = (case map_find (methods_map c) mname of None \<Rightarrow> None | Some m \<Rightarrow> m_cxx_func m)\<rparr> (methods_map c)\<rparr>) cs))"

definition register_cxx_method :: "string \<Rightarrow> string \<Rightarrow> int \<Rightarrow> nat \<Rightarrow> class_map \<Rightarrow> bool \<times> class_map" where
  "register_cxx_method n mname flags f cs =
     (True, cls_upd n (\<lambda>c. c\<lparr>methods_map := map_put mname
        \<lparr>m_cls = n, m_name = mname, m_flags = flags,
         m_func = (case map_find (methods_map c) mname of None \<Rightarrow> None | Some m \<Rightarrow> m_func m),
         m_cxx_func = Some f\<rparr> (methods_map c)\<rparr>) cs)"

definition register_cxx_filter :: "string \<Rightarrow> string \<Rightarrow> nat \<Rightarrow> class_map \<Rightarrow> bool \<times> class_map" where
  "register_cxx_filter n filter_name f cs =
     (True, cls_upd n (\<lambda>c. c\<lparr>filters_map := map_put filter_name
        \<lparr>f_cls = n, f_name = filter_name, f_fn = Some f\<rparr> (filters_map c)\<rparr>) cs)"

definition get_method :: "ClassData \<Rightarrow> string \<Rightarrow> ClassMethod option" where
  "get_method c mname = map_find (methods_map c) mname"

definition get_method_flags :: "ClassData \<Rightarrow> string \<Rightarrow> int" where
  "get_method_flags c mname = (case get_method c mname of None \<Rightarrow> - ENOENT | Some m \<Rightarrow> m_flags m)"

definition get_filter :: "ClassData \<Rightarrow> string \<Rightarrow> ClassFilter option" where
  "get_filter c filter_name = map_find (filters_map c) filter_name"

definition unregister_method :: "ClassMethod \<Rightarrow> ClassData \<Rightarrow> ClassData" where
  "unregister_method m c =
     (case map_find (methods_map c) (m_name m) of
        None \<Rightarrow> c | Some _ \<Rightarrow> c\<lparr>methods_map := map_erase (m_name m) (methods_map c)\<rparr>)"

definition ClassMethod_unregister :: "ClassMethod \<Rightarrow> class_map \<Rightarrow> class_map" where
  "ClassMethod_unregister m cs = cls_upd (m_cls m) (unregister_method m) cs"

definition unregister_filter :: "ClassFilter \<Rightarrow> ClassData \<Rightarrow> ClassData" where
  "unregister_filter f c =
     (case map_find (filters_map c) (f_name f) of
        None \<Rightarrow> c | Some _ \<Rightarrow> c\<lparr>filters_map := map_erase (f_name f) (filters_map c)\<rparr>)"

definition ClassFilter_unregister :: "ClassFilter \<Rightarrow> class_map \<Rightarrow> class_map" where
  "ClassFilter_unregister f cs = cls_upd (f_cls f) (unregister_filter f) cs"

text \<open>
  The methods themselves are code of the plug-ins: \<open>run_cxx\<close> and \<open>run_c\<close> give the result of a function on its input, the
  C version with the buffer it allocated, if any.
\<close>

definition ClassMethod_exec ::
    "(nat \<Rightarrow> bytes \<Rightarrow> int \<times> bytes) \<Rightarrow> (nat \<Rightarrow> bytes \<Rightarrow> int \<times> bytes option) \<Rightarrow> ClassMethod \<Rightarrow> bytes \<Rightarrow> bytes
      \<Rightarrow> fault + int \<times> bytes" where
  "ClassMethod_exec run_cxx run_c m inp outp =
     (case m_cxx_func m of
        Some f \<Rightarrow> let (ret, o1) = run_cxx f inp in Inr (ret, outp @ o1)
      | None \<Rightarrow>
          (case m_func m of
             None \<Rightarrow> Inl NullDeref
           | Some f \<Rightarrow> (case run_c f inp of (ret, None) \<Rightarrow> Inr (ret, outp) | (ret, Some o1) \<Rightarrow> Inr (ret, outp @ o1))))"

section \<open>Loading\<close>

definition run_action :: "string \<Rightarrow> class_map \<Rightarrow> cls_action \<Rightarrow> class_map" where
  "run_action n cs a =
     (case a of
        RegMethod m fl f \<Rightarrow> snd (register_method n m fl f cs)
      | RegCxxMethod m fl f \<Rightarrow> snd (register_cxx_method n m fl f cs)
      | RegFilter m f \<Rightarrow> snd (register_cxx_filter n m f cs))"

definition add_dependency :: "dl_env \<Rightarrow> string \<Rightarrow> class_map \<Rightarrow> string \<Rightarrow> class_map" where
  "add_dependency E n cs d =
     (let cs1 = snd (get_class E d False cs);
          p = (dl_addr E d, d);
          cs2 = cls_upd n (\<lambda>c. c\<lparr>dependencies := set_put p (dependencies c)\<rparr>) cs1
      in if cd_status (cls_at cs2 d) \<noteq> CLASS_OPEN
         then cls_upd n (\<lambda>c. c\<lparr>missing_dependencies := set_put p (missing_dependencies c)\<rparr>) cs2 else cs2)"

text \<open>The first part of \<open>_load_class\<close>: the shared object is opened and asked for its dependencies.\<close>

definition open_object :: "dl_env \<Rightarrow> string \<Rightarrow> class_map \<Rightarrow> (int \<times> class_map) + class_map" where
  "open_object E n cs =
     (if \<not> dl_open E n then
        (let r = dl_stat E n
         in Inl (if r < 0 then r else - EIO,
                 cls_upd n (\<lambda>c. c\<lparr>cd_handle := False, cd_status := CLASS_MISSING\<rparr>) cs))
      else
        (let cs1 = cls_upd n (\<lambda>c. c\<lparr>cd_handle := True\<rparr>) cs
         in Inr (case dl_deps E n of None \<Rightarrow> cs1 | Some ds \<Rightarrow> foldl (add_dependency E n) cs1 ds)))"

definition init_class :: "dl_env \<Rightarrow> string \<Rightarrow> class_map \<Rightarrow> class_map" where
  "init_class E n cs =
     cls_upd n (\<lambda>c. c\<lparr>cd_status := CLASS_OPEN\<rparr>)
       (case dl_init E n of
          None \<Rightarrow> cs
        | Some acts \<Rightarrow> foldl (run_action n) (cls_upd n (\<lambda>c. c\<lparr>cd_status := CLASS_INITIALIZING\<rparr>) cs) acts)"

fun load_class :: "nat \<Rightarrow> dl_env \<Rightarrow> string \<Rightarrow> class_map \<Rightarrow> (int \<times> class_map) option"
  and resolve_deps :: "nat \<Rightarrow> dl_env \<Rightarrow> string \<Rightarrow> class_map \<Rightarrow> (int \<times> class_map) option" where
  "load_class 0 E n cs = None"
| "load_class (Suc k) E n cs =
     (if cd_status (cls_at cs n) = CLASS_OPEN then Some (0, cs)
      else
        (case (if cd_status (cls_at cs n) = CLASS_UNKNOWN \<or> cd_status (cls_at cs n) = CLASS_MISSING
               then open_object E n cs else Inr cs) of
           Inl res \<Rightarrow> Some res
         | Inr cs1 \<Rightarrow>
             (case resolve_deps k E n cs1 of
                None \<Rightarrow> None
              | Some (r, cs2) \<Rightarrow> if r < 0 then Some (r, cs2) else Some (0, init_class E n cs2))))"
| "resolve_deps 0 E n cs = None"
| "resolve_deps (Suc k) E n cs =
     (case missing_dependencies (cls_at cs n) of
        [] \<Rightarrow> Some (0, cs)
      | p # _ \<Rightarrow>
          (case load_class k E (snd p) cs of
             None \<Rightarrow> None
           | Some (r, cs1) \<Rightarrow>
               if r < 0 then Some (r, cls_upd n (\<lambda>c. c\<lparr>cd_status := CLASS_MISSING_DEPS\<rparr>) cs1)
               else resolve_deps k E n
                      (cls_upd n (\<lambda>c. c\<lparr>missing_dependencies := filter ((\<noteq>) p) (missing_dependencies c)\<rparr>) cs1)))"

section \<open>The handler's interface\<close>

definition open_class :: "nat \<Rightarrow> dl_env \<Rightarrow> string \<Rightarrow> class_map \<Rightarrow> (int \<times> string option \<times> class_map) option" where
  "open_class k E cname cs =
     (case get_class E cname True cs of
        (None, cs1) \<Rightarrow> Some (- EPERM, None, cs1)
      | (Some n, cs1) \<Rightarrow>
          if cd_status (cls_at cs1 n) \<noteq> CLASS_OPEN then
            (case load_class k E n cs1 of
               None \<Rightarrow> None
             | Some (r, cs2) \<Rightarrow> if r \<noteq> 0 then Some (r, None, cs2) else Some (0, Some n, cs2))
          else Some (0, Some n, cs1))"

text \<open>\<open>libcls_<name>.so\<close>\<close>

definition class_of_file :: "string \<Rightarrow> string option" where
  "class_of_file d_name =
     (if d_name \<noteq> [] \<and> hd d_name = CHR ''.'' then None
      else if 10 < length d_name \<and> take 7 d_name = ''libcls_'' \<and> drop (length d_name - 3) d_name = ''.so''
      then Some (take (length d_name - 10) (drop 7 d_name)) else None)"

fun open_listed :: "nat \<Rightarrow> dl_env \<Rightarrow> string list \<Rightarrow> int \<Rightarrow> class_map \<Rightarrow> (int \<times> class_map) option" where
  "open_listed k E [] r cs = Some (r, cs)"
| "open_listed k E (d # ds) r cs =
     (case class_of_file d of
        None \<Rightarrow> open_listed k E ds r cs
      | Some cname \<Rightarrow>
          (case open_class k E cname cs of
             None \<Rightarrow> None
           | Some (r1, _, cs1) \<Rightarrow>
               if r1 < 0 \<and> r1 \<noteq> - EPERM then Some (r1, cs1) else open_listed k E ds r1 cs1))"

text \<open>\<open>dir\<close> is the result of \<open>opendir\<close> with the entries \<open>readdir\<close> returns, or the error.\<close>

definition open_all_classes :: "nat \<Rightarrow> dl_env \<Rightarrow> int + string list \<Rightarrow> class_map \<Rightarrow> (int \<times> class_map) option" where
  "open_all_classes k E dir cs =
     (case dir of Inl errno \<Rightarrow> Some (- errno, cs) | Inr entries \<Rightarrow> open_listed k E entries 0 cs)"

definition add_embedded_class :: "dl_env \<Rightarrow> string \<Rightarrow> class_map \<Rightarrow> class_map option" where
  "add_embedded_class E cname cs =
     (let cs1 = snd (get_class E cname False cs)
      in if cd_status (cls_at cs1 cname) = CLASS_UNKNOWN
         then Some (cls_upd cname (\<lambda>c. c\<lparr>cd_status := CLASS_INITIALIZING\<rparr>) cs1) else None)"

definition register_class :: "dl_env \<Rightarrow> string \<Rightarrow> class_map \<Rightarrow> string option \<times> class_map" where
  "register_class E cname cs =
     (let cs1 = snd (get_class E cname False cs)
      in (if cd_status (cls_at cs1 cname) \<noteq> CLASS_INITIALIZING then None else Some cname, cs1))"

text \<open>\<open>shutdown\<close> closes the handles, here counted, and empties the table.\<close>

definition ClassHandler_shutdown :: "class_map \<Rightarrow> string list \<times> class_map" where
  "ClassHandler_shutdown cs = (map fst (filter (\<lambda>(n, c). cd_handle c) cs), [])"

section \<open>Invariant of the table\<close>

definition ptr :: "dl_env \<Rightarrow> string \<Rightarrow> cls_ptr" where
  "ptr E d = (dl_addr E d, d)"

definition dset :: "dl_env \<Rightarrow> string \<Rightarrow> string set" where
  "dset E n = (case dl_deps E n of None \<Rightarrow> {} | Some ds \<Rightarrow> set ds)"

abbreviation st :: "class_map \<Rightarrow> string \<Rightarrow> class_status" where "st cs n \<equiv> cd_status (cls_at cs n)"
abbreviation hn :: "class_map \<Rightarrow> string \<Rightarrow> bool" where "hn cs n \<equiv> cd_handle (cls_at cs n)"
abbreviation dp :: "class_map \<Rightarrow> string \<Rightarrow> cls_ptr set" where "dp cs n \<equiv> set (dependencies (cls_at cs n))"
abbreviation ms :: "class_map \<Rightarrow> string \<Rightarrow> cls_ptr list" where "ms cs n \<equiv> missing_dependencies (cls_at cs n)"

text \<open>
  What holds of every class between two calls: the recorded dependencies are declared ones, those of an opened object are all recorded, a
  recorded dependency that is not missing is open, and an open class misses nothing.
\<close>

definition deps_open :: "dl_env \<Rightarrow> class_map \<Rightarrow> string \<Rightarrow> bool" where
  "deps_open E cs n \<longleftrightarrow> (\<forall>d. ptr E d \<in> dp cs n - set (ms cs n) \<longrightarrow> st cs d = CLASS_OPEN)"

definition cls_ok :: "dl_env \<Rightarrow> class_map \<Rightarrow> string \<Rightarrow> bool" where
  "cls_ok E cs n \<longleftrightarrow>
     sorted_wrt (<) (ms cs n) \<and> set (ms cs n) \<subseteq> ptr E ` dset E n \<and> dp cs n \<subseteq> ptr E ` dset E n \<and>
     (hn cs n \<longrightarrow> dp cs n = ptr E ` dset E n) \<and>
     deps_open E cs n \<and>
     (st cs n = CLASS_OPEN \<longrightarrow> ms cs n = [] \<and> hn cs n) \<and> (st cs n = CLASS_MISSING_DEPS \<longrightarrow> hn cs n) \<and>
     st cs n \<noteq> CLASS_INITIALIZING"

definition cinv :: "dl_env \<Rightarrow> class_map \<Rightarrow> bool" where
  "cinv E cs \<longleftrightarrow> map_wf cs \<and> (\<forall>n. cls_ok E cs n)"

definition obs :: "ClassData \<Rightarrow> class_status \<times> bool \<times> cls_ptr list \<times> cls_ptr list" where
  "obs c = (cd_status c, cd_handle c, dependencies c, missing_dependencies c)"

definition open_mono :: "class_map \<Rightarrow> class_map \<Rightarrow> bool" where
  "open_mono cs cs' \<longleftrightarrow> (\<forall>d. st cs d = CLASS_OPEN \<longrightarrow> st cs' d = CLASS_OPEN)"

lemma cls_upd_wf [simp]: "map_wf cs \<Longrightarrow> map_wf (cls_upd n f cs)"
  by (simp add: cls_upd_def)

lemma cls_at_upd [simp]: "map_wf cs \<Longrightarrow> cls_at (cls_upd n f cs) m = (if m = n then f (cls_at cs n) else cls_at cs m)"
  by (simp add: cls_upd_def cls_at_def)

lemma get_class_wf [simp]: "map_wf cs \<Longrightarrow> map_wf (snd (get_class E d b cs))"
  by (simp add: get_class_def split: option.split)

lemma get_class_obs [simp]: "map_wf cs \<Longrightarrow> obs (cls_at (snd (get_class E d b cs)) m) = obs (cls_at cs m)"
  by (auto simp: get_class_def cls_at_def obs_def new_ClassData_def split: option.split)

lemma obs_eqD:
  assumes "obs (cls_at cs' m) = obs (cls_at cs m)"
  shows "st cs' m = st cs m" "hn cs' m = hn cs m" "dependencies (cls_at cs' m) = dependencies (cls_at cs m)"
    "ms cs' m = ms cs m"
  using assms by (simp_all add: obs_def)

lemma open_mono_refl [simp]: "open_mono cs cs"
  by (simp add: open_mono_def)

lemma open_mono_trans: "open_mono a b \<Longrightarrow> open_mono b c \<Longrightarrow> open_mono a c"
  by (simp add: open_mono_def)

lemma cls_ok_frame:
  assumes ok: "cls_ok E cs m" and o: "obs (cls_at cs' m) = obs (cls_at cs m)" and om: "open_mono cs cs'"
  shows "cls_ok E cs' m"
proof -
  note e = obs_eqD [OF o]
  show ?thesis using ok om unfolding cls_ok_def deps_open_def e open_mono_def by blast
qed

lemma cinv_init: "cinv E []"
  by (auto simp: cinv_def cls_ok_def deps_open_def cls_at_def new_ClassData_def)

text \<open>A change of status that opens nothing and closes nothing keeps the dependencies open.\<close>

lemma deps_open_status:
  assumes "deps_open E cs n" and "open_mono cs cs'"
    and "dependencies (cls_at cs' n) = dependencies (cls_at cs n)" and "ms cs' n = ms cs n"
  shows "deps_open E cs' n"
  using assms unfolding deps_open_def open_mono_def by metis

lemma open_mono_upd:
  "map_wf cs \<Longrightarrow> (st cs n = CLASS_OPEN \<Longrightarrow> cd_status (f (cls_at cs n)) = CLASS_OPEN) \<Longrightarrow> open_mono cs (cls_upd n f cs)"
  by (simp add: open_mono_def)

text \<open>An update of one class that keeps it well-formed and open if it was keeps the invariant.\<close>

lemma cinv_upd:
  assumes inv: "cinv E cs" and mono: "st cs n = CLASS_OPEN \<Longrightarrow> cd_status (f (cls_at cs n)) = CLASS_OPEN"
    and ok: "cls_ok E (cls_upd n f cs) n"
  shows "cinv E (cls_upd n f cs) \<and> open_mono cs (cls_upd n f cs)"
proof -
  have wf: "map_wf cs" using inv by (simp add: cinv_def)
  have om: "open_mono cs (cls_upd n f cs)" using wf mono by (simp add: open_mono_def)
  moreover have "cls_ok E (cls_upd n f cs) m" for m
    using inv ok om wf cls_ok_frame [of E cs m "cls_upd n f cs"] by (cases "m = n") (auto simp: cinv_def)
  ultimately show ?thesis using wf by (simp add: cinv_def)
qed

subsection \<open>Registrations\<close>

lemma run_action_obs: "map_wf cs \<Longrightarrow> map_wf (run_action n cs a) \<and> obs (cls_at (run_action n cs a) m) = obs (cls_at cs m)"
  by (cases a) (auto simp: run_action_def register_method_def register_cxx_method_def register_cxx_filter_def obs_def)

lemma run_actions_obs:
  "map_wf cs \<Longrightarrow> map_wf (foldl (run_action n) cs acts) \<and> obs (cls_at (foldl (run_action n) cs acts) m) = obs (cls_at cs m)"
  by (induction acts arbitrary: cs) (simp_all add: run_action_obs)

lemma init_class_obs:
  assumes wf: "map_wf cs"
  shows "map_wf (init_class E n cs)"
    and "obs (cls_at (init_class E n cs) m) = (if m = n then (CLASS_OPEN, snd (obs (cls_at cs n))) else obs (cls_at cs m))"
proof -
  let ?c1 = "cls_upd n (\<lambda>c. c\<lparr>cd_status := CLASS_INITIALIZING\<rparr>) cs"
  have w1: "map_wf ?c1" using wf by simp
  show "map_wf (init_class E n cs)"
    using wf run_actions_obs [OF w1] by (simp add: init_class_def split: option.split)
  have "obs (cls_at (foldl (run_action n) ?c1 acts) m) = obs (cls_at ?c1 m)" for acts m
    using run_actions_obs [OF w1] by blast
  then show "obs (cls_at (init_class E n cs) m) = (if m = n then (CLASS_OPEN, snd (obs (cls_at cs n))) else obs (cls_at cs m))"
    using wf run_actions_obs [OF w1] by (auto simp: init_class_def obs_def split: option.split)
qed

lemma set_put_sorted: "sorted_wrt (<) s \<Longrightarrow> sorted_wrt (<) (set_put k s)"
  by (rule sorted_set_put)

subsection \<open>Declared dependencies\<close>

definition dep_effect :: "dl_env \<Rightarrow> string \<Rightarrow> string set \<Rightarrow> class_map \<Rightarrow> class_map \<Rightarrow> bool" where
  "dep_effect E n D cs cs' \<longleftrightarrow>
     map_wf cs' \<and> (\<forall>m. m \<noteq> n \<longrightarrow> obs (cls_at cs' m) = obs (cls_at cs m)) \<and>
     st cs' n = st cs n \<and> hn cs' n = hn cs n \<and> sorted_wrt (<) (ms cs' n) \<and>
     dp cs' n = dp cs n \<union> ptr E ` D \<and>
     set (ms cs' n) = set (ms cs n) \<union> ptr E ` {d \<in> D. st cs d \<noteq> CLASS_OPEN}"

lemma add_dependency_effect:
  assumes wf: "map_wf cs" and s: "sorted_wrt (<) (ms cs n)" and d: "d \<noteq> n"
  shows "dep_effect E n {d} cs (add_dependency E n cs d)"
proof -
  let ?c1 = "snd (get_class E d False cs)"
  have w1: "map_wf ?c1" using wf by simp
  have o: "obs (cls_at ?c1 m) = obs (cls_at cs m)" for m using wf by simp
  note e = obs_eqD [OF o]
  show ?thesis
    using w1 d s
    by (auto simp: dep_effect_def add_dependency_def Let_def e o set_set_put sorted_set_put ptr_def obs_def)
qed

lemma dep_effect_trans:
  "dep_effect E n A cs cs1 \<Longrightarrow> dep_effect E n B cs1 cs2 \<Longrightarrow> n \<notin> B \<Longrightarrow> dep_effect E n (A \<union> B) cs cs2"
  by (auto simp: dep_effect_def obs_def image_Un)

lemma add_dependencies_effect:
  "map_wf cs \<Longrightarrow> sorted_wrt (<) (ms cs n) \<Longrightarrow> n \<notin> set ds \<Longrightarrow> dep_effect E n (set ds) cs (foldl (add_dependency E n) cs ds)"
proof (induction ds rule: rev_induct)
  case Nil
  then show ?case by (simp add: dep_effect_def)
next
  case (snoc d ds)
  let ?c = "foldl (add_dependency E n) cs ds"
  have a: "dep_effect E n (set ds) cs ?c" using snoc by simp
  then have "dep_effect E n {d} ?c (add_dependency E n ?c d)"
    using snoc.prems by (intro add_dependency_effect) (auto simp: dep_effect_def)
  from dep_effect_trans [OF a this] show ?case using snoc.prems by simp
qed

lemma ptr_in [simp]: "ptr E d \<in> ptr E ` A \<longleftrightarrow> d \<in> A"
  by (auto simp: ptr_def)

lemma snd_ptr [simp]: "snd (ptr E d) = d"
  by (simp add: ptr_def)

definition others_same :: "string \<Rightarrow> class_map \<Rightarrow> class_map \<Rightarrow> bool" where
  "others_same n cs cs' \<longleftrightarrow> (\<forall>m. m \<noteq> n \<longrightarrow> obs (cls_at cs' m) = obs (cls_at cs m))"

lemma cinv_one:
  assumes inv: "cinv E cs" and wf: "map_wf cs'" and o: "others_same n cs cs'"
    and mono: "st cs n = CLASS_OPEN \<Longrightarrow> st cs' n = CLASS_OPEN" and ok: "cls_ok E cs' n"
  shows "cinv E cs' \<and> open_mono cs cs'"
proof -
  have om: "open_mono cs cs'"
    unfolding open_mono_def
  proof (intro allI impI)
    fix d assume "st cs d = CLASS_OPEN"
    then show "st cs' d = CLASS_OPEN" using o mono by (cases "d = n") (auto simp: others_same_def obs_def)
  qed
  moreover have "cls_ok E cs' m" for m
    using inv ok om o cls_ok_frame [of E cs m cs'] by (cases "m = n") (auto simp: cinv_def others_same_def)
  ultimately show ?thesis using wf by (simp add: cinv_def)
qed

lemma open_object_fail:
  assumes inv: "cinv E cs" and s: "st cs n = CLASS_UNKNOWN \<or> st cs n = CLASS_MISSING"
    and res: "open_object E n cs = Inl (r, cs')"
  shows "r < 0 \<and> cinv E cs' \<and> open_mono cs cs' \<and> others_same n cs cs'"
proof -
  have wf: "map_wf cs" and ok: "cls_ok E cs n" using inv by (auto simp: cinv_def)
  have cs': "cs' = cls_upd n (\<lambda>c. c\<lparr>cd_handle := False, cd_status := CLASS_MISSING\<rparr>) cs" and r: "r < 0"
    using res by (auto simp: open_object_def Let_def split: if_splits)
  have o: "others_same n cs cs'" using wf by (simp add: cs' others_same_def)
  have "open_mono cs cs'" unfolding cs' using s by (intro open_mono_upd wf) auto
  then have "deps_open E cs' n"
    by (rule deps_open_status [rotated]) (use ok wf in \<open>simp_all add: cs' cls_ok_def\<close>)
  then have "cls_ok E cs' n"
    using ok wf s by (simp add: cls_ok_def cs')
  then show ?thesis using cinv_one [OF inv _ o] r o wf s by (auto simp: cs')
qed

lemma open_object_ok:
  assumes inv: "cinv E cs" and s: "st cs n = CLASS_UNKNOWN \<or> st cs n = CLASS_MISSING" and n: "n \<notin> dset E n"
    and res: "open_object E n cs = Inr cs'"
  shows "cinv E cs' \<and> open_mono cs cs' \<and> others_same n cs cs' \<and> hn cs' n \<and> st cs' n = st cs n"
proof -
  have wf: "map_wf cs" and ok: "cls_ok E cs n" using inv by (auto simp: cinv_def)
  let ?c1 = "cls_upd n (\<lambda>c. c\<lparr>cd_handle := True\<rparr>) cs"
  have sorted1: "sorted_wrt (<) (ms ?c1 n)" using ok wf by (simp add: cls_ok_def)
  have eff: "dep_effect E n (dset E n) ?c1 cs'"
  proof (cases "dl_deps E n")
    case None
    then have "cs' = ?c1" using res by (auto simp: open_object_def Let_def split: if_splits)
    then show ?thesis using None wf sorted1 by (simp add: dep_effect_def dset_def)
  next
    case (Some ds)
    then have "cs' = foldl (add_dependency E n) ?c1 ds" using res by (auto simp: open_object_def Let_def split: if_splits)
    then show ?thesis
      using Some n wf sorted1 add_dependencies_effect [of ?c1 n ds E] by (simp add: dset_def)
  qed
  then have o: "others_same n cs cs'" using wf by (simp add: dep_effect_def others_same_def)
  have e: "map_wf cs'" "st cs' n = st cs n" "hn cs' n" "sorted_wrt (<) (ms cs' n)"
    "dp cs' n = dp cs n \<union> ptr E ` dset E n"
    "set (ms cs' n) = set (ms cs n) \<union> ptr E ` {d \<in> dset E n. st ?c1 d \<noteq> CLASS_OPEN}"
    using eff wf by (simp_all add: dep_effect_def)
  have sub: "set (ms cs n) \<subseteq> ptr E ` dset E n" "dp cs n \<subseteq> ptr E ` dset E n" using ok by (auto simp: cls_ok_def)
  have "st cs' d = CLASS_OPEN" if "ptr E d \<in> dp cs' n - set (ms cs' n)" for d
  proof -
    have "ptr E d \<in> ptr E ` dset E n" using that sub(2) unfolding e(5) by blast
    then have d: "d \<in> dset E n" by simp
    then have "d \<noteq> n" using n by auto
    have "st ?c1 d = CLASS_OPEN" using that d by (auto simp: e(6))
    then have "st cs d = CLASS_OPEN" using wf \<open>d \<noteq> n\<close> by simp
    then show ?thesis using o \<open>d \<noteq> n\<close> by (auto simp: others_same_def obs_def)
  qed
  moreover have "dp cs' n = ptr E ` dset E n" using e(5) sub(2) by blast
  moreover have "set (ms cs' n) \<subseteq> ptr E ` dset E n" using e(6) sub(1) by blast
  ultimately have "cls_ok E cs' n" using e(2,3,4) s unfolding cls_ok_def deps_open_def by auto
  then show ?thesis using cinv_one [OF inv e(1) o] e(2,3) o s by auto
qed

lemma mark_missing:
  assumes inv: "cinv E cs" and h: "hn cs n" and s: "st cs n \<noteq> CLASS_OPEN"
  shows "cinv E (cls_upd n (\<lambda>c. c\<lparr>cd_status := CLASS_MISSING_DEPS\<rparr>) cs) \<and>
    open_mono cs (cls_upd n (\<lambda>c. c\<lparr>cd_status := CLASS_MISSING_DEPS\<rparr>) cs)"
proof (rule cinv_upd [OF inv])
  have wf: "map_wf cs" and ok: "cls_ok E cs n" using inv by (auto simp: cinv_def)
  show "cls_ok E (cls_upd n (\<lambda>c. c\<lparr>cd_status := CLASS_MISSING_DEPS\<rparr>) cs) n"
    using ok wf h s deps_open_status [OF _ open_mono_upd [OF wf], of E n n "\<lambda>c. c\<lparr>cd_status := CLASS_MISSING_DEPS\<rparr>"]
    by (simp add: cls_ok_def)
qed (use s in simp)

lemma drop_missing:
  assumes inv: "cinv E cs" and d: "st cs d = CLASS_OPEN" and s: "st cs n \<noteq> CLASS_OPEN"
  shows "cinv E (cls_upd n (\<lambda>c. c\<lparr>missing_dependencies := filter ((\<noteq>) (ptr E d)) (missing_dependencies c)\<rparr>) cs) \<and>
    open_mono cs (cls_upd n (\<lambda>c. c\<lparr>missing_dependencies := filter ((\<noteq>) (ptr E d)) (missing_dependencies c)\<rparr>) cs)"
proof (rule cinv_upd [OF inv])
  have wf: "map_wf cs" and ok: "cls_ok E cs n" using inv by (auto simp: cinv_def)
  have "sorted_wrt (<) (filter ((\<noteq>) (ptr E d)) (ms cs n))"
    using ok by (auto simp: cls_ok_def intro: sorted_wrt_filter)
  moreover have st_d: "st cs d' = CLASS_OPEN" if "ptr E d' \<in> dp cs n" "ptr E d' \<notin> set (ms cs n) \<or> ptr E d' = ptr E d" for d'
    using that ok d unfolding cls_ok_def deps_open_def by (metis DiffI snd_ptr)
  moreover have "deps_open E (cls_upd n (\<lambda>c. c\<lparr>missing_dependencies := filter ((\<noteq>) (ptr E d)) (missing_dependencies c)\<rparr>) cs) n"
    using wf st_d by (auto simp: deps_open_def)
  ultimately show "cls_ok E (cls_upd n (\<lambda>c. c\<lparr>missing_dependencies := filter ((\<noteq>) (ptr E d)) (missing_dependencies c)\<rparr>) cs) n"
    using ok wf s by (simp add: cls_ok_def subset_iff)
qed (use s in simp)

lemma init_class_inv:
  assumes inv: "cinv E cs" and h: "hn cs n" and m: "ms cs n = []"
  shows "cinv E (init_class E n cs) \<and> open_mono cs (init_class E n cs) \<and> others_same n cs (init_class E n cs) \<and>
    st (init_class E n cs) n = CLASS_OPEN"
proof -
  have wf: "map_wf cs" and ok: "cls_ok E cs n" using inv by (auto simp: cinv_def)
  note i = init_class_obs [OF wf, of E n]
  have o: "others_same n cs (init_class E n cs)" using i(2) by (simp add: others_same_def)
  have on: "st (init_class E n cs) n = CLASS_OPEN" "hn (init_class E n cs) n = hn cs n"
    "dependencies (cls_at (init_class E n cs) n) = dependencies (cls_at cs n)" "ms (init_class E n cs) n = ms cs n"
    using i(2) [of n] by (simp_all add: obs_def)
  have st_mono: "st (init_class E n cs) d = CLASS_OPEN" if "st cs d = CLASS_OPEN" for d
    using that o on(1) by (cases "d = n") (auto simp: others_same_def obs_def)
  have d0: "deps_open E cs n" using ok unfolding cls_ok_def by blast
  have om: "open_mono cs (init_class E n cs)" using st_mono unfolding open_mono_def by blast
  have "deps_open E (init_class E n cs) n" by (rule deps_open_status [OF d0 om on(3,4)])
  then have "cls_ok E (init_class E n cs) n"
    using ok h m on by (simp add: cls_ok_def)
  then show ?thesis using cinv_one [OF inv i(1) o] o on(1) by simp
qed

section \<open>Loading terminates and opens the dependencies\<close>

definition acyclic_deps :: "dl_env \<Rightarrow> (string \<Rightarrow> nat) \<Rightarrow> bool" where
  "acyclic_deps E rank \<longleftrightarrow> (\<forall>n. \<forall>d \<in> dset E n. rank d < rank n)"

definition higher_same :: "(string \<Rightarrow> nat) \<Rightarrow> string \<Rightarrow> class_map \<Rightarrow> class_map \<Rightarrow> bool" where
  "higher_same rank n cs cs' \<longleftrightarrow> (\<forall>m. rank n < rank m \<longrightarrow> obs (cls_at cs' m) = obs (cls_at cs m))"

definition load_post :: "dl_env \<Rightarrow> (string \<Rightarrow> nat) \<Rightarrow> string \<Rightarrow> class_map \<Rightarrow> int \<Rightarrow> class_map \<Rightarrow> bool" where
  "load_post E rank n cs r cs' \<longleftrightarrow>
     cinv E cs' \<and> open_mono cs cs' \<and> higher_same rank n cs cs' \<and> r \<le> 0 \<and> (r = 0 \<longrightarrow> st cs' n = CLASS_OPEN)"

definition resolve_post :: "dl_env \<Rightarrow> (string \<Rightarrow> nat) \<Rightarrow> string \<Rightarrow> class_map \<Rightarrow> int \<Rightarrow> class_map \<Rightarrow> bool" where
  "resolve_post E rank n cs r cs' \<longleftrightarrow>
     cinv E cs' \<and> open_mono cs cs' \<and> higher_same rank n cs cs' \<and> (r < 0 \<or> r = 0 \<and> ms cs' n = [] \<and> hn cs' n)"

lemma others_higher: "others_same n cs cs' \<Longrightarrow> higher_same rank n cs cs'"
  by (auto simp: others_same_def higher_same_def)

lemma higher_trans: "higher_same rank n a b \<Longrightarrow> higher_same rank n b c \<Longrightarrow> higher_same rank n a c"
  by (simp add: higher_same_def)

lemma resolve_head:
  assumes inv: "cinv E cs" and acy: "acyclic_deps E rank" and p: "ms cs n = p # ps"
  shows "p = ptr E (snd p)" and "rank (snd p) < rank n"
proof -
  have "set (ms cs n) \<subseteq> ptr E ` dset E n" using inv by (simp add: cinv_def cls_ok_def)
  then obtain d where d: "p = ptr E d" "d \<in> dset E n" using p by auto
  then show "p = ptr E (snd p)" "rank (snd p) < rank n" using acy by (auto simp: acyclic_deps_def)
qed

text \<open>One round of the dependency loop.\<close>

lemma resolve_round:
  assumes inv: "cinv E cs" and acy: "acyclic_deps E rank" and h: "hn cs n" and s: "st cs n \<noteq> CLASS_OPEN"
    and p: "ms cs n = p # ps" and post: "load_post E rank (snd p) cs r cs1"
  defines "bad \<equiv> cls_upd n (\<lambda>c. c\<lparr>cd_status := CLASS_MISSING_DEPS\<rparr>) cs1"
    and "good \<equiv> cls_upd n (\<lambda>c. c\<lparr>missing_dependencies := filter ((\<noteq>) p) (missing_dependencies c)\<rparr>) cs1"
  shows "cinv E bad \<and> open_mono cs bad \<and> higher_same rank n cs bad"
    and "\<not> r < 0 \<Longrightarrow> cinv E good \<and> open_mono cs good \<and> higher_same rank n cs good \<and> hn good n \<and> st good n \<noteq> CLASS_OPEN \<and>
      ms good n = filter ((\<noteq>) p) (ms cs n)"
proof -
  note hp = resolve_head [OF inv acy p]
  have inv1: "cinv E cs1" and m1: "open_mono cs cs1" and f1: "higher_same rank (snd p) cs cs1"
    and r: "r \<le> 0" "r = 0 \<longrightarrow> st cs1 (snd p) = CLASS_OPEN" using post by (auto simp: load_post_def)
  have o: "obs (cls_at cs1 n) = obs (cls_at cs n)" using f1 hp(2) by (simp add: higher_same_def)
  note e = obs_eqD [OF o]
  have wf1: "map_wf cs1" using inv1 by (simp add: cinv_def)
  have up: "higher_same rank n cs cs1" using f1 hp(2) by (auto simp: higher_same_def)
  have upd: "higher_same rank n cs1 (cls_upd n f cs1)" for f using wf1 by (auto simp: higher_same_def)
  have "cinv E bad \<and> open_mono cs1 bad"
    unfolding bad_def by (rule mark_missing [OF inv1]) (simp_all add: e h s)
  then show "cinv E bad \<and> open_mono cs bad \<and> higher_same rank n cs bad"
    using open_mono_trans [OF m1] higher_trans [OF up upd] unfolding bad_def by blast
  assume "\<not> r < 0"
  then have d: "st cs1 (snd p) = CLASS_OPEN" using r by simp
  have "cinv E good \<and> open_mono cs1 good"
    unfolding good_def by (subst (1 2) hp(1), rule drop_missing [OF inv1 d]) (simp add: e s)
  then show "cinv E good \<and> open_mono cs good \<and> higher_same rank n cs good \<and> hn good n \<and> st good n \<noteq> CLASS_OPEN \<and>
      ms good n = filter ((\<noteq>) p) (ms cs n)"
    using open_mono_trans [OF m1] higher_trans [OF up upd] wf1 h s e unfolding good_def by simp
qed

definition first_phase :: "dl_env \<Rightarrow> string \<Rightarrow> class_map \<Rightarrow> (int \<times> class_map) + class_map" where
  "first_phase E n cs = (if st cs n = CLASS_UNKNOWN \<or> st cs n = CLASS_MISSING then open_object E n cs else Inr cs)"

lemma load_class_Suc:
  "st cs n \<noteq> CLASS_OPEN \<Longrightarrow> load_class (Suc k) E n cs =
     (case first_phase E n cs of
        Inl res \<Rightarrow> Some res
      | Inr cs1 \<Rightarrow> (case resolve_deps k E n cs1 of
                     None \<Rightarrow> None
                   | Some (r, cs2) \<Rightarrow> if r < 0 then Some (r, cs2) else Some (0, init_class E n cs2)))"
  by (simp add: first_phase_def)

lemma first_phase_ok:
  assumes acy: "acyclic_deps E rank" and inv: "cinv E cs" and no: "st cs n \<noteq> CLASS_OPEN" and f: "first_phase E n cs = Inr cs1"
  shows "cinv E cs1 \<and> open_mono cs cs1 \<and> others_same n cs cs1 \<and> hn cs1 n \<and> st cs1 n \<noteq> CLASS_OPEN"
proof (cases "st cs n = CLASS_UNKNOWN \<or> st cs n = CLASS_MISSING")
  case True
  have "n \<notin> dset E n" using acy by (auto simp: acyclic_deps_def)
  then show ?thesis using True f no open_object_ok [OF inv True, of cs1] by (auto simp: first_phase_def)
next
  case False
  have ok: "cls_ok E cs n" using inv by (simp add: cinv_def)
  then have "st cs n = CLASS_MISSING_DEPS" using False no by (cases "st cs n") (auto simp: cls_ok_def)
  then have "hn cs n" using ok by (simp add: cls_ok_def)
  then show ?thesis using f False inv no by (simp add: first_phase_def others_same_def)
qed

lemma first_phase_fail:
  assumes inv: "cinv E cs" and f: "first_phase E n cs = Inl (r, cs1)"
  shows "load_post E rank n cs r cs1"
proof -
  have "open_object E n cs = Inl (r, cs1)" "st cs n = CLASS_UNKNOWN \<or> st cs n = CLASS_MISSING"
    using f by (auto simp: first_phase_def split: if_splits)
  then have "r < 0 \<and> cinv E cs1 \<and> open_mono cs cs1 \<and> others_same n cs cs1" using open_object_fail [OF inv] by blast
  then show ?thesis by (simp add: load_post_def others_higher)
qed

lemma load_finish:
  assumes pre: "open_mono cs cs1" "others_same n cs cs1" and post: "resolve_post E rank n cs1 r2 cs2"
  shows "if r2 < 0 then load_post E rank n cs r2 cs2 else load_post E rank n cs 0 (init_class E n cs2)"
proof -
  have base: "cinv E cs2" "open_mono cs cs2" "higher_same rank n cs cs2"
    using pre post open_mono_trans higher_trans [OF others_higher] by (auto simp: resolve_post_def)
  have "load_post E rank n cs 0 (init_class E n cs2)" if "ms cs2 n = []" "hn cs2 n"
    using init_class_inv [OF base(1) that(2,1)] base(2) open_mono_trans higher_trans [OF base(3) others_higher]
    by (auto simp: load_post_def)
  then show ?thesis using post base by (auto simp: resolve_post_def load_post_def)
qed

lemma load_correct:
  assumes acy: "acyclic_deps E rank"
  shows "cinv E cs \<Longrightarrow> load_class k E n cs = Some (r, cs') \<Longrightarrow> load_post E rank n cs r cs'"
    and "cinv E cs \<Longrightarrow> hn cs n \<Longrightarrow> st cs n \<noteq> CLASS_OPEN \<Longrightarrow> resolve_deps k E n cs = Some (r, cs') \<Longrightarrow>
      resolve_post E rank n cs r cs'"
proof (induction k arbitrary: n cs r cs')
  case (Suc k)
  {
    case 1
    show ?case
    proof (cases "st cs n = CLASS_OPEN")
      case True
      then show ?thesis using 1 by (simp add: load_post_def higher_same_def)
    next
      case no: False
      show ?thesis
      proof (cases "first_phase E n cs")
        case (Inl a)
        then show ?thesis using 1 first_phase_fail [OF 1(1)] by (simp only: load_class_Suc [OF no]) auto
      next
        case (Inr cs1)
        note pre = first_phase_ok [OF acy 1(1) no Inr]
        obtain r2 cs2 where res: "resolve_deps k E n cs1 = Some (r2, cs2)"
          using 1(2) Inr unfolding load_class_Suc [OF no] by (auto split: option.splits)
        have "resolve_post E rank n cs1 r2 cs2" by (rule Suc.IH(2) [OF _ _ _ res]) (use pre in auto)
        with load_finish [OF _ _ this, of cs] show ?thesis
          using 1(2) Inr res pre unfolding load_class_Suc [OF no] by (auto split: if_splits)
      qed
    qed
  next
    case 2
    show ?case
    proof (cases "ms cs n")
      case Nil
      then show ?thesis using 2 by (simp add: resolve_post_def higher_same_def)
    next
      case (Cons p ps)
      obtain r1 cs1 where ld: "load_class k E (snd p) cs = Some (r1, cs1)"
        using 2(4) Cons by (auto split: option.splits)
      note round = resolve_round [OF 2(1) acy 2(2,3) Cons Suc.IH(1) [OF 2(1) ld]]
      show ?thesis
      proof (cases "r1 < 0")
        case True
        then show ?thesis using 2(4) Cons ld round(1) by (auto simp: resolve_post_def)
      next
        case False
        let ?good = "cls_upd n (\<lambda>c. c\<lparr>missing_dependencies := filter ((\<noteq>) p) (missing_dependencies c)\<rparr>) cs1"
        have g: "cinv E ?good" "open_mono cs ?good" "higher_same rank n cs ?good" "hn ?good n" "st ?good n \<noteq> CLASS_OPEN"
          using round(2) [OF False] by blast+
        have "resolve_deps k E n ?good = Some (r, cs')" using 2(4) Cons ld False by simp
        from Suc.IH(2) [OF g(1,4,5) this] show ?thesis
          using open_mono_trans [OF g(2)] higher_trans [OF g(3)] by (auto simp: resolve_post_def)
      qed
    qed
  }
qed simp_all

subsection \<open>Enough fuel\<close>

definition few_deps :: "dl_env \<Rightarrow> nat \<Rightarrow> bool" where
  "few_deps E D \<longleftrightarrow> (\<forall>n ds. dl_deps E n = Some ds \<longrightarrow> length ds \<le> D)"

lemma missing_bound:
  assumes few: "few_deps E D" and inv: "cinv E cs"
  shows "length (ms cs n) \<le> D"
proof -
  have s: "sorted_wrt (<) (ms cs n)" "set (ms cs n) \<subseteq> ptr E ` dset E n" using inv by (auto simp: cinv_def cls_ok_def)
  have fin: "finite (dset E n)" and c: "card (dset E n) \<le> D"
    using few card_length order_trans by (fastforce simp: dset_def few_deps_def split: option.split)+
  have "length (ms cs n) = card (set (ms cs n))"
    using s(1) by (simp add: distinct_card strict_sorted_iff)
  also have "\<dots> \<le> card (ptr E ` dset E n)" using s(2) fin by (simp add: card_mono)
  also have "\<dots> \<le> card (dset E n)" using fin by (rule card_image_le)
  finally show ?thesis using c by simp
qed

lemma load_enough:
  assumes acy: "acyclic_deps E rank" and few: "few_deps E D"
  shows "cinv E cs \<Longrightarrow> (D + 2) * (rank n + 1) \<le> k \<Longrightarrow> load_class k E n cs \<noteq> None"
    and "cinv E cs \<Longrightarrow> hn cs n \<Longrightarrow> st cs n \<noteq> CLASS_OPEN \<Longrightarrow> length (ms cs n) + 1 + (D + 2) * rank n \<le> k \<Longrightarrow>
      resolve_deps k E n cs \<noteq> None"
proof (induction k arbitrary: n cs)
  case (Suc k)
  {
    case 1
    show ?case
    proof (cases "st cs n = CLASS_OPEN")
      case no: False
      show ?thesis
      proof (cases "first_phase E n cs")
        case (Inr cs1)
        note pre = first_phase_ok [OF acy 1(1) no Inr]
        have "length (ms cs1 n) \<le> D" using pre missing_bound [OF few] by blast
        then have "resolve_deps k E n cs1 \<noteq> None" using pre 1(2) by (intro Suc.IH(2)) (auto simp: algebra_simps)
        then show ?thesis using Inr unfolding load_class_Suc [OF no] by auto
      qed (simp only: load_class_Suc [OF no], simp)
    qed simp
  next
    case 2
    show ?case
    proof (cases "ms cs n")
      case (Cons p ps)
      have rk: "rank (snd p) + 1 \<le> rank n" using resolve_head(2) [OF 2(1) acy Cons] by simp
      have "(D + 2) * (rank (snd p) + 1) \<le> (D + 2) * rank n" by (rule mult_le_mono2 [OF rk])
      then have "load_class k E (snd p) cs \<noteq> None" using 2(1,4) Cons by (intro Suc.IH(1)) auto
      then obtain r1 cs1 where ld: "load_class k E (snd p) cs = Some (r1, cs1)" by auto
      note round = resolve_round(2) [OF 2(1) acy 2(2,3) Cons load_correct(1) [OF acy 2(1) ld]]
      let ?good = "cls_upd n (\<lambda>c. c\<lparr>missing_dependencies := filter ((\<noteq>) p) (missing_dependencies c)\<rparr>) cs1"
      have "resolve_deps k E n ?good \<noteq> None" if "\<not> r1 < 0"
      proof (rule Suc.IH(2))
        have "length (ms ?good n) \<le> length ps" using round [OF that] Cons by simp
        then show "length (ms ?good n) + 1 + (D + 2) * rank n \<le> k" using 2(4) Cons by simp
      qed (use round [OF that] in blast)+
      then show ?thesis using Cons ld by simp
    qed simp
  }
qed simp_all

section \<open>Properties\<close>

definition dep_rel :: "dl_env \<Rightarrow> (string \<times> string) set" where
  "dep_rel E = {(n, d). d \<in> dset E n}"

lemma open_closed:
  assumes inv: "cinv E cs" and n: "st cs n = CLASS_OPEN" and d: "d \<in> dset E n"
  shows "st cs d = CLASS_OPEN"
proof -
  have "cls_ok E cs n" using inv by (simp add: cinv_def)
  then have "dp cs n = ptr E ` dset E n" "ms cs n = []" "deps_open E cs n" using n by (simp_all add: cls_ok_def)
  then show ?thesis using d by (auto simp: deps_open_def)
qed

lemma open_closed_trans: "(n, m) \<in> (dep_rel E)\<^sup>* \<Longrightarrow> cinv E cs \<Longrightarrow> st cs n = CLASS_OPEN \<Longrightarrow> st cs m = CLASS_OPEN"
proof (induction rule: rtrancl_induct)
  case (step y z)
  then show ?case using open_closed by (simp add: dep_rel_def)
qed

lemma get_class_inv:
  assumes inv: "cinv E cs"
  shows "cinv E (snd (get_class E n b cs))"
proof -
  have wf: "map_wf cs" using inv by (simp add: cinv_def)
  have o: "obs (cls_at (snd (get_class E n b cs)) m) = obs (cls_at cs m)" for m using wf by simp
  then have om: "open_mono cs (snd (get_class E n b cs))" using obs_eqD(1) [OF o] by (simp add: open_mono_def)
  have "cls_ok E (snd (get_class E n b cs)) m" for m
    by (rule cls_ok_frame [OF _ o om]) (use inv in \<open>simp add: cinv_def\<close>)
  then show ?thesis using wf by (simp add: cinv_def)
qed

text \<open>
  C26: Opening a class terminates and opens what it needs. When the declared dependencies have no cycle (a rank
  decreases along them) and no class declares more than \<open>D\<close>, a recursion depth linear in the class's rank
  is enough: \<open>open_class\<close> returns, keeps the table's invariant, and hands out the class exactly when the result is 0; the class and
  all its direct and indirect dependencies are then open.
\<close>

theorem open_class_terminates:
  assumes acy: "acyclic_deps E rank" and few: "few_deps E D" and inv: "cinv E cs" and k: "(D + 2) * (rank cname + 1) \<le> k"
  shows "\<exists>r p cs'. open_class k E cname cs = Some (r, p, cs') \<and> cinv E cs' \<and> (r = 0 \<longleftrightarrow> p = Some cname) \<and>
    (r = 0 \<longrightarrow> (\<forall>m. (cname, m) \<in> (dep_rel E)\<^sup>* \<longrightarrow> st cs' m = CLASS_OPEN))"
proof (cases "get_class E cname True cs")
  case (Pair q cs1)
  then have inv1: "cinv E cs1" using get_class_inv [OF inv, of cname True] by simp
  show ?thesis
  proof (cases q)
    case None
    then show ?thesis using Pair inv1 by (simp add: open_class_def)
  next
    case (Some n)
    then have n: "n = cname" using Pair by (auto simp: get_class_def split: option.splits if_splits)
    obtain r cs2 where ld: "load_class k E n cs1 = Some (r, cs2)"
      using load_enough(1) [OF acy few inv1, of n k] k n by auto
    have "load_post E rank n cs1 r cs2" by (rule load_correct(1) [OF acy inv1 ld])
    then show ?thesis
      using Pair Some n ld inv1 open_closed_trans [of n _ E] by (auto simp: open_class_def load_post_def)
  qed
qed

definition demo_dl :: dl_env where
  "demo_dl = \<lparr>dl_addr = length, dl_open = (\<lambda>n. True), dl_stat = (\<lambda>n. 0),
     dl_deps = (\<lambda>n. if n = ''rbd'' then Some [''lock''] else None), dl_init = (\<lambda>n. Some [RegCxxMethod ''m'' 1 7]),
     osd_class_load_list = ''rbd  lock'', osd_class_default_list = ''*''\<rparr>"

theorem open_class_terminates_witness:
  "\<exists>r p cs'. open_class 6 demo_dl ''rbd'' [] = Some (r, p, cs') \<and> (r = 0 \<longrightarrow> st cs' ''lock'' = CLASS_OPEN)"
proof -
  have "acyclic_deps demo_dl (\<lambda>n. if n = ''rbd'' then 1 else 0)" "few_deps demo_dl 1"
    by (auto simp: acyclic_deps_def few_deps_def dset_def demo_dl_def)
  from open_class_terminates [OF this cinv_init, of "''rbd''" 6] obtain r p cs' where
    o: "open_class 6 demo_dl ''rbd'' [] = Some (r, p, cs')"
      "r = 0 \<longrightarrow> (\<forall>m. (''rbd'', m) \<in> (dep_rel demo_dl)\<^sup>* \<longrightarrow> st cs' m = CLASS_OPEN)" by auto
  have "(''rbd'', ''lock'') \<in> (dep_rel demo_dl)\<^sup>*"
    by (intro r_into_rtrancl) (simp add: dep_rel_def dset_def demo_dl_def)
  with o show ?thesis by blast
qed

lemma self_dep_loops:
  assumes deps: "dl_deps E n = Some [n]" and op: "dl_open E n"
  shows "map_wf cs \<Longrightarrow> st cs n = CLASS_UNKNOWN \<Longrightarrow> set (ms cs n) \<subseteq> {ptr E n} \<Longrightarrow> distinct (ms cs n) \<Longrightarrow>
    load_class k E n cs = None"
proof (induction k arbitrary: cs rule: less_induct)
  case (less k)
  define cs1 where "cs1 = add_dependency E n (cls_upd n (\<lambda>c. c\<lparr>cd_handle := True\<rparr>) cs) n"
  have o: "obs (cls_at (snd (get_class E n False (cls_upd n (\<lambda>c. c\<lparr>cd_handle := True\<rparr>) cs))) n) =
      obs (cls_at (cls_upd n (\<lambda>c. c\<lparr>cd_handle := True\<rparr>) cs) n)" using less.prems(1) by simp
  note e = obs_eqD [OF o]
  have one: "ms cs n = [] \<or> ms cs n = [ptr E n]"
    using less.prems(3,4) by (cases "ms cs n" rule: list.exhaust) (auto simp: subset_singleton_iff)
  then have m1: "ms cs1 n = [ptr E n]" and s1: "st cs1 n = CLASS_UNKNOWN" and w1: "map_wf cs1"
    using less.prems(1,2) by (auto simp: cs1_def add_dependency_def Let_def e ptr_def)
  have first: "first_phase E n cs = Inr cs1"
    using less.prems(2) op deps by (simp add: first_phase_def open_object_def cs1_def)
  show ?case
  proof (cases k)
    case (Suc k1)
    have no: "st cs n \<noteq> CLASS_OPEN" using less.prems(2) by simp
    have "resolve_deps k1 E n cs1 = None"
    proof (cases k1)
      case k2: (Suc k2)
      have "load_class k2 E n cs1 = None" using less.IH [of k2 cs1] w1 s1 m1 Suc k2 by simp
      then show ?thesis using m1 k2 by simp
    qed simp
    then show ?thesis using Suc first by (simp only: load_class_Suc [OF no]) simp
  qed simp
qed

text \<open>
  A cycle of dependencies is never left. A class that declares itself as its dependency is not marked while it is being
  loaded, so \<open>_load_class\<close> opens the object again and again: whatever the depth, \<open>open_class\<close> does not return.
\<close>

theorem self_dependency_never_returns:
  assumes "dl_deps E n = Some [n]" and "dl_open E n" and "in_class_list n (osd_class_load_list E)"
  shows "open_class k E n [] = None"
proof -
  have g: "get_class E n True [] = (Some n, [(n, new_ClassData\<lparr>cd_name := n, whitelisted := in_class_list n (osd_class_default_list E)\<rparr>)])"
    using assms(3) by (simp add: get_class_def)
  let ?cs = "[(n, new_ClassData\<lparr>cd_name := n, whitelisted := in_class_list n (osd_class_default_list E)\<rparr>)]"
  have c: "cls_at ?cs n = new_ClassData\<lparr>cd_name := n, whitelisted := in_class_list n (osd_class_default_list E)\<rparr>"
    by (simp add: cls_at_def map_find_def)
  have "load_class k E n ?cs = None"
    by (rule self_dep_loops [OF assms(1,2)]) (simp_all add: cls_at_def map_find_def new_ClassData_def map_wf_def)
  then show ?thesis using g c by (simp add: open_class_def new_ClassData_def)
qed

definition loop_dl :: dl_env where
  "loop_dl = demo_dl\<lparr>dl_deps := \<lambda>n. Some [n], osd_class_load_list := ''*''\<rparr>"

theorem self_dependency_never_returns_witness: "open_class 1000 loop_dl ''rbd'' [] = None"
proof -
  have "istream_words ''*'' = [''*'']" by (simp add: istream_words.simps isspace_c_def)
  then have "in_class_list ''rbd'' (osd_class_load_list loop_dl)" by (simp add: in_class_list_def loop_dl_def)
  then show ?thesis by (intro self_dependency_never_returns) (simp_all add: loop_dl_def demo_dl_def)
qed

text \<open>
  Registration and lookup. After a C++ method has been registered on a class, looking it up gives its flags and
  calling it runs the registered function; other methods and other classes are as before; after its
  unregistration it is unknown (\<open>-ENOENT\<close>), and again the others are as before.
\<close>

theorem register_lookup_unregister:
  assumes wf: "map_wf cs" "map_wf (methods_map (cls_at cs n))"
    and reg: "register_cxx_method n mname flags f cs = (b, cs1)"
  shows "b \<and> get_method_flags (cls_at cs1 n) mname = flags \<and>
    (\<exists>m. get_method (cls_at cs1 n) mname = Some m \<and>
      ClassMethod_exec run_cxx run_c m inp outp = Inr (fst (run_cxx f inp), outp @ snd (run_cxx f inp)) \<and>
      get_method_flags (cls_at (ClassMethod_unregister m cs1) n) mname = - ENOENT \<and>
      (\<forall>n' m'. (n', m') \<noteq> (n, mname) \<longrightarrow>
         get_method (cls_at cs1 n') m' = get_method (cls_at cs n') m' \<and>
         get_method (cls_at (ClassMethod_unregister m cs1) n') m' = get_method (cls_at cs n') m'))"
  using assms
  by (auto simp: register_cxx_method_def get_method_flags_def get_method_def ClassMethod_exec_def ClassMethod_unregister_def
      unregister_method_def split_def Let_def)

theorem register_lookup_unregister_witness:
  "get_method_flags (cls_at (snd (register_cxx_method ''rbd'' ''copyup'' 3 7 [])) ''rbd'') ''copyup'' = 3"
proof -
  have "map_wf (methods_map (cls_at [] ''rbd''))" by (simp add: cls_at_def new_ClassData_def)
  then show ?thesis
    using register_lookup_unregister [of "[]" "''rbd''" "''copyup''" 3 7 "fst (register_cxx_method ''rbd'' ''copyup'' 3 7 [])"
        "snd (register_cxx_method ''rbd'' ''copyup'' 3 7 [])"] by simp
qed

end
