(* ===== verification/Msg_Convert.thy ===== *)
theory Msg_Convert
  imports Std_Map C_String
begin

text \<open>
  \<open>server_adaptor/msg_module.cpp\<close>: translating one client operation (\<open>OSDOp\<close>) into the cache's
  request form (\<open>OpRequestOps\<close> of \<open>dependency/include/sa_def.h\<close>), together with the read/write
  classification and the amount of data that the admission control later uses.

  Ceph's encoding is not part of the repository: the record \<open>codec\<close> has the encoders and decoders the code
  calls, a decoder returning the value and the bytes after it, or \<open>None\<close> where Ceph throws
  \<open>buffer::error\<close>. Only the class-call branch catches that exception; elsewhere it ends the thread and is
  the fault \<open>UncaughtException\<close>. The operation codes are symbolic.
\<close>

section \<open>Client operations\<close>

datatype osd_op =
    CEPH_OSD_OP_READ | CEPH_OSD_OP_SPARSE_READ | CEPH_OSD_OP_SYNC_READ
  | CEPH_OSD_OP_WRITE | CEPH_OSD_OP_WRITEFULL
  | CEPH_OSD_OP_GETXATTR | CEPH_OSD_OP_RMXATTR | CEPH_OSD_OP_CMPXATTR | CEPH_OSD_OP_SETXATTR
  | CEPH_OSD_OP_OMAPGETVALS | CEPH_OSD_OP_OMAPSETVALS | CEPH_OSD_OP_OMAPGETKEYS | CEPH_OSD_OP_OMAPRMKEYS
  | CEPH_OSD_OP_OMAPCLEAR | CEPH_OSD_OP_OMAPGETVALSBYKEYS | CEPH_OSD_OP_OMAP_CMP
  | CEPH_OSD_OP_OMAPSETHEADER | CEPH_OSD_OP_OMAPGETHEADER
  | CEPH_OSD_OP_GETXATTRS | CEPH_OSD_OP_STAT | CEPH_OSD_OP_CALL | CEPH_OSD_OP_LIST_SNAPS
  | CEPH_OSD_OP_CREATE | CEPH_OSD_OP_DELETE | CEPH_OSD_OP_ROLLBACK | CEPH_OSD_OP_OTHER nat

datatype cmpxattr_mode = CEPH_OSD_CMPXATTR_MODE_STRING | CEPH_OSD_CMPXATTR_MODE_U64 | CMPXATTR_MODE_OTHER int

record OSDOp =
  op_code :: osd_op
  ext_offset :: u64
  ext_length :: u64
  xattr_name_len :: u32
  xattr_value_len :: u32
  cmp_op :: int
  cmp_mode :: cmpxattr_mode
  class_len :: u8
  method_len :: u8
  indata_len :: u32
  op_flags :: u32
  snapid :: u64
  indata :: bytes
  outdata :: bytes
  rval :: int

record codec =
  enc_u32 :: "u32 \<Rightarrow> bytes"
  enc_u64 :: "u64 \<Rightarrow> bytes"
  enc_str :: "string \<Rightarrow> bytes"
  enc_bool :: "bool \<Rightarrow> bytes"
  enc_smap :: "(string, bytes) std_map \<Rightarrow> bytes"
  enc_extents :: "(u64, u64) std_map \<Rightarrow> bytes"
  dec_u32 :: "bytes \<Rightarrow> (u32 \<times> bytes) option"
  dec_u64 :: "bytes \<Rightarrow> (u64 \<times> bytes) option"
  dec_str :: "bytes \<Rightarrow> (string \<times> bytes) option"
  dec_smap :: "bytes \<Rightarrow> ((string, bytes) std_map \<times> bytes) option"
  dec_sset :: "bytes \<Rightarrow> (string list \<times> bytes) option"
  dec_assertions :: "bytes \<Rightarrow> ((string, bytes \<times> int) std_map \<times> bytes) option"
  dec_bool :: "bytes \<Rightarrow> (bool \<times> bytes) option"
  copy_rest :: "nat \<Rightarrow> bytes \<Rightarrow> bytes"

section \<open>Requests of the cache\<close>

record RbdObjid =
  rbd_poolId :: u32
  rbd_head :: u64
  rbd_seq :: u64
  rbd_format :: u8
  rbd_version :: u8
  rbd_reserve :: u8

record OpRequestOps =
  opSubType :: osd_op
  objName :: string
  isRbd :: bool
  rbdObjId :: RbdObjid
  inData :: "bytes option"
  inDataLen :: u32
  outData :: "bytes option"
  outDataLen :: u32
  objOffset :: u32
  objLength :: u32
  opFlags :: u32
  op_keys :: "string list"
  op_values :: "string list"
  subops :: "int list"
  u64vals :: "u64 list"
  cmpModes :: "cmpxattr_mode list"

record OptionsType =
  ot_write :: u32
  ot_read :: u32

record OptionsLength =
  ol_write :: u64
  ol_read :: u64

section \<open>Conversion\<close>

text \<open>
  \<open>iterator::copy(len, dest)\<close>: that many bytes, or an exception when there are fewer; what a
  failing copy leaves in \<open>dest\<close> is the codec's \<open>copy_rest\<close>.
\<close>

definition bl_copy :: "nat \<Rightarrow> bytes \<Rightarrow> (bytes \<times> bytes) option" where
  "bl_copy n bs = (if n \<le> length bs then Some (take n bs, drop n bs) else None)"

definition bl_advance :: "nat \<Rightarrow> bytes \<Rightarrow> bytes option" where
  "bl_advance n bs = (if n \<le> length bs then Some (drop n bs) else None)"

text \<open>
  \<open>decode_str_str_map_to_bl\<close> walks over an encoded map without decoding it and copies its bytes; \<open>len\<close>
  is an \<open>unsigned\<close>.
\<close>

fun walk_pairs :: "codec \<Rightarrow> nat \<Rightarrow> bytes \<Rightarrow> u32 \<Rightarrow> (bytes \<times> u32) option" where
  "walk_pairs c 0 p n = Some (p, n)"
| "walk_pairs c (Suc k) p n =
     (case dec_u32 c p of
        None \<Rightarrow> None
      | Some (l1, p1) \<Rightarrow>
          (case bl_advance (unat l1) p1 of
             None \<Rightarrow> None
           | Some p2 \<Rightarrow>
               (case dec_u32 c p2 of
                  None \<Rightarrow> None
                | Some (l2, p3) \<Rightarrow>
                    (case bl_advance (unat l2) p3 of
                       None \<Rightarrow> None
                     | Some p4 \<Rightarrow> walk_pairs c k p4 (n + (4 + l1) + (4 + l2))))))"

definition decode_str_str_map_to_bl :: "codec \<Rightarrow> bytes \<Rightarrow> (bytes \<times> bytes) option" where
  "decode_str_str_map_to_bl c start =
     (case dec_u32 c start of
        None \<Rightarrow> None
      | Some (n, p) \<Rightarrow>
          (case walk_pairs c (unat n) p 4 of
             None \<Rightarrow> None
           | Some (p', n') \<Rightarrow>
               (case bl_copy (unat n') start of None \<Rightarrow> None | Some (out, _) \<Rightarrow> Some (out, p'))))"

definition ConvertObjRw :: "OSDOp \<Rightarrow> OpRequestOps \<Rightarrow> OpRequestOps" where
  "ConvertObjRw clientop oneOp =
     (if op_code clientop \<in> {CEPH_OSD_OP_READ, CEPH_OSD_OP_SPARSE_READ, CEPH_OSD_OP_SYNC_READ}
      then oneOp\<lparr>outDataLen := ucast (ext_length clientop)\<rparr>
      else if op_code clientop \<in> {CEPH_OSD_OP_WRITE, CEPH_OSD_OP_WRITEFULL}
      then oneOp\<lparr>inData := Some (indata clientop), inDataLen := of_nat (length (indata clientop))\<rparr>
      else oneOp)"

definition push_kv :: "string \<Rightarrow> string \<Rightarrow> OpRequestOps \<Rightarrow> OpRequestOps" where
  "push_kv k v r = r\<lparr>op_keys := op_keys r @ [k], op_values := op_values r @ [v]\<rparr>"

definition ConvertOmapOp :: "codec \<Rightarrow> OSDOp \<Rightarrow> OpRequestOps \<Rightarrow> fault + OpRequestOps" where
  "ConvertOmapOp c clientop oneOp =
     (let bp = indata clientop in
      case op_code clientop of
        CEPH_OSD_OP_OMAPGETVALS \<Rightarrow>
          (case dec_str c bp of
             None \<Rightarrow> Inl UncaughtException
           | Some (start_after, p1) \<Rightarrow>
               (case dec_u64 c p1 of
                  None \<Rightarrow> Inl UncaughtException
                | Some (max_return, p2) \<Rightarrow>
                    (case dec_str c p2 of
                       None \<Rightarrow> Inl UncaughtException
                     | Some (filter_prefix, p3) \<Rightarrow>
                         Inr (push_kv ''filter_prefix'' filter_prefix
                               (push_kv ''max_return'' (to_string (unat max_return))
                                 (push_kv ''start_after'' start_after oneOp))))))
      | CEPH_OSD_OP_OMAPSETVALS \<Rightarrow>
          (case decode_str_str_map_to_bl c bp of
             None \<Rightarrow> Inl UncaughtException
           | Some (to_set_bl, _) \<Rightarrow>
               (case dec_smap c to_set_bl of
                  None \<Rightarrow> Inl UncaughtException
                | Some (to_set, _) \<Rightarrow> Inr (foldl (\<lambda>r (k, v). push_kv k v r) oneOp to_set)))
      | CEPH_OSD_OP_OMAPGETKEYS \<Rightarrow>
          (case dec_str c bp of
             None \<Rightarrow> Inl UncaughtException
           | Some (start_after, p1) \<Rightarrow>
               (case dec_u64 c p1 of
                  None \<Rightarrow> Inl UncaughtException
                | Some (max_return, p2) \<Rightarrow>
                    Inr (push_kv ''max_return'' (to_string (unat max_return))
                           (push_kv ''start_after'' start_after oneOp))))
      | CEPH_OSD_OP_OMAPRMKEYS \<Rightarrow>
          (case dec_sset c bp of
             None \<Rightarrow> Inl UncaughtException
           | Some (keys_to_rm, _) \<Rightarrow> Inr (oneOp\<lparr>op_keys := op_keys oneOp @ keys_to_rm\<rparr>))
      | CEPH_OSD_OP_OMAPGETVALSBYKEYS \<Rightarrow>
          (case dec_sset c bp of
             None \<Rightarrow> Inl UncaughtException
           | Some (keys_to_get, _) \<Rightarrow> Inr (oneOp\<lparr>op_keys := op_keys oneOp @ keys_to_get\<rparr>))
      | CEPH_OSD_OP_OMAPSETHEADER \<Rightarrow>
          Inr (oneOp\<lparr>inDataLen := ucast (ext_length clientop), inData := Some (indata clientop)\<rparr>)
      | CEPH_OSD_OP_OMAP_CMP \<Rightarrow>
          (case dec_assertions c bp of
             None \<Rightarrow> Inl UncaughtException
           | Some (assertions, _) \<Rightarrow>
               Inr (foldl (\<lambda>r (k, (bl, m)). (push_kv k bl r)\<lparr>subops := subops r @ [m]\<rparr>) oneOp assertions))
      | _ \<Rightarrow> Inr oneOp)"

definition ConvertAttrOp :: "codec \<Rightarrow> OSDOp \<Rightarrow> OpRequestOps \<Rightarrow> fault + OpRequestOps" where
  "ConvertAttrOp c clientop oneOp =
     (case bl_copy (unat (xattr_name_len clientop)) (indata clientop) of
        None \<Rightarrow> Inl UncaughtException
      | Some (xattr_name, bp) \<Rightarrow>
          let r = oneOp\<lparr>op_keys := op_keys oneOp @ [xattr_name]\<rparr> in
          if op_code clientop = CEPH_OSD_OP_SETXATTR then
            (case bl_copy (unat (xattr_value_len clientop)) bp of
               None \<Rightarrow> Inl UncaughtException
             | Some (val, _) \<Rightarrow> Inr (r\<lparr>op_values := op_values r @ [val]\<rparr>))
          else if op_code clientop = CEPH_OSD_OP_CMPXATTR then
            (let r1 = r\<lparr>subops := subops r @ [cmp_op clientop], cmpModes := cmpModes r @ [cmp_mode clientop]\<rparr> in
             case cmp_mode clientop of
               CEPH_OSD_CMPXATTR_MODE_STRING \<Rightarrow>
                 (case bl_copy (unat (xattr_value_len clientop)) bp of
                    None \<Rightarrow> Inl UncaughtException
                  | Some (val, _) \<Rightarrow> Inr (r1\<lparr>op_values := op_values r1 @ [val]\<rparr>))
             | CEPH_OSD_CMPXATTR_MODE_U64 \<Rightarrow>
                 (case dec_u64 c bp of
                    None \<Rightarrow> Inl UncaughtException
                  | Some (u64val, _) \<Rightarrow> Inr (r1\<lparr>u64vals := u64vals r1 @ [u64val]\<rparr>))
             | CMPXATTR_MODE_OTHER _ \<Rightarrow> Inr r1)
          else Inr r)"

definition ConvertRollBackOp :: "OSDOp \<Rightarrow> OpRequestOps \<Rightarrow> OpRequestOps" where
  "ConvertRollBackOp clientop oneOp = push_kv ''snapid'' (to_string (unat (snapid clientop))) oneOp"

text \<open>The class and method names of a call; the two copies share one \<open>try\<close> block.\<close>

definition call_names :: "codec \<Rightarrow> OSDOp \<Rightarrow> string \<times> string" where
  "call_names c clientop =
     (case bl_copy (unat (class_len clientop)) (indata clientop) of
        None \<Rightarrow> (copy_rest c (unat (class_len clientop)) (indata clientop), [])
      | Some (cname, bp) \<Rightarrow>
          (case bl_copy (unat (method_len clientop)) bp of
             None \<Rightarrow> (cname, copy_rest c (unat (method_len clientop)) bp)
           | Some (mname, _) \<Rightarrow> (cname, mname)))"

definition ConvertClientopToOpreq ::
    "codec \<Rightarrow> OSDOp \<Rightarrow> OpRequestOps \<Rightarrow> OptionsType \<Rightarrow> OptionsLength
      \<Rightarrow> fault + int \<times> OpRequestOps \<times> OptionsType \<times> OptionsLength" where
  "ConvertClientopToOpreq c clientop oneOp0 optionType optionLength =
     (let oc = op_code clientop;
          oneOp = oneOp0\<lparr>opSubType := oc\<rparr>;
          ok = (\<lambda>r. Inr (0, r, optionType, optionLength));
          lift = (\<lambda>x. case x of Inl f \<Rightarrow> Inl f | Inr r \<Rightarrow> ok r)
      in if oc \<in> {CEPH_OSD_OP_SPARSE_READ, CEPH_OSD_OP_SYNC_READ, CEPH_OSD_OP_READ} then
           Inr (0, ConvertObjRw clientop
                     (oneOp\<lparr>objOffset := ucast (ext_offset clientop), objLength := ucast (ext_length clientop)\<rparr>),
                optionType\<lparr>ot_read := ot_read optionType + 1\<rparr>,
                optionLength\<lparr>ol_read := ol_read optionLength + ext_length clientop div 1024\<rparr>)
         else if oc \<in> {CEPH_OSD_OP_WRITEFULL, CEPH_OSD_OP_WRITE} then
           Inr (0, ConvertObjRw clientop
                     (oneOp\<lparr>objOffset := ucast (ext_offset clientop), objLength := ucast (ext_length clientop)\<rparr>),
                optionType\<lparr>ot_write := ot_write optionType + 1\<rparr>,
                optionLength\<lparr>ol_write := ol_write optionLength + ext_length clientop div 1024\<rparr>)
         else if oc \<in> {CEPH_OSD_OP_GETXATTR, CEPH_OSD_OP_RMXATTR, CEPH_OSD_OP_CMPXATTR, CEPH_OSD_OP_SETXATTR} then
           lift (ConvertAttrOp c clientop oneOp)
         else if oc \<in> {CEPH_OSD_OP_OMAPGETVALS, CEPH_OSD_OP_OMAPSETVALS, CEPH_OSD_OP_OMAPGETKEYS,
                       CEPH_OSD_OP_OMAPRMKEYS, CEPH_OSD_OP_OMAPCLEAR, CEPH_OSD_OP_OMAPGETVALSBYKEYS,
                       CEPH_OSD_OP_OMAP_CMP, CEPH_OSD_OP_OMAPSETHEADER, CEPH_OSD_OP_OMAPGETHEADER} then
           lift (ConvertOmapOp c clientop oneOp)
         else if oc = CEPH_OSD_OP_CALL then
           (let (cname, mname) = call_names c clientop
            in Inr (if cname = ''rbd'' \<and> mname = ''copyup'' then 1 else 0, oneOp, optionType, optionLength))
         else if oc = CEPH_OSD_OP_CREATE then ok (oneOp\<lparr>opFlags := op_flags clientop\<rparr>)
         else if oc = CEPH_OSD_OP_ROLLBACK then ok (ConvertRollBackOp clientop oneOp)
         else ok oneOp)"

section \<open>Facts about the conversion\<close>

lemma foldl_push_kv:
  "foldl (\<lambda>r (k, v). push_kv k v r) oneOp m =
     oneOp\<lparr>op_keys := op_keys oneOp @ map fst m, op_values := op_values oneOp @ map snd m\<rparr>"
  by (induction m arbitrary: oneOp) (auto simp: push_kv_def)

definition is_write_op :: "OSDOp \<Rightarrow> bool" where
  "is_write_op i \<longleftrightarrow> op_code i \<in> {CEPH_OSD_OP_WRITEFULL, CEPH_OSD_OP_WRITE}"

definition is_read_op :: "OSDOp \<Rightarrow> bool" where
  "is_read_op i \<longleftrightarrow> op_code i \<in> {CEPH_OSD_OP_SPARSE_READ, CEPH_OSD_OP_SYNC_READ, CEPH_OSD_OP_READ}"

lemma Convert_options:
  assumes "ConvertClientopToOpreq c i r ot ol = Inr (ret, r', ot', ol')"
  shows "ot_write ot' = ot_write ot + (if is_write_op i then 1 else 0) \<and>
     ol_write ol' = ol_write ol + (if is_write_op i then ext_length i div 1024 else 0) \<and>
     ol_read ol' = ol_read ol + (if is_read_op i then ext_length i div 1024 else 0)"
  using assms
  by (cases "op_code i") (auto simp: ConvertClientopToOpreq_def Let_def is_write_op_def is_read_op_def
      split: sum.splits prod.splits)


section \<open>Ceph's encoding of a string map\<close>

text \<open>
  What the conversion of an omap update relies on: a 32-bit number takes four bytes and decodes to itself, a
  string is its length and its bytes, a map is its size followed by its keys and values in order, and it decodes to
  itself.
\<close>

definition enc_chunk :: "codec \<Rightarrow> bytes \<Rightarrow> bytes" where
  "enc_chunk c s = enc_u32 c (of_nat (length s)) @ s"

definition enc_pairs :: "codec \<Rightarrow> (string \<times> bytes) list \<Rightarrow> bytes" where
  "enc_pairs c m = concat (map (\<lambda>(k, v). enc_chunk c k @ enc_chunk c v) m)"

definition small_map :: "(string \<times> bytes) list \<Rightarrow> bool" where
  "small_map m \<longleftrightarrow> length m < 2 ^ 32 \<and> list_all (\<lambda>(k, v). length k < 2 ^ 32 \<and> length v < 2 ^ 32) m"

definition codec_ok :: "codec \<Rightarrow> bool" where
  "codec_ok c \<longleftrightarrow>
     (\<forall>x r. dec_u32 c (enc_u32 c x @ r) = Some (x, r)) \<and>
     (\<forall>x. length (enc_u32 c x) = 4) \<and>
     (\<forall>s. enc_str c s = enc_chunk c s) \<and>
     (\<forall>m. enc_smap c m = enc_u32 c (of_nat (length m)) @ enc_pairs c m) \<and>
     (\<forall>m r. map_wf m \<longrightarrow> small_map m \<longrightarrow> dec_smap c (enc_smap c m @ r) = Some (m, r))"

lemma codec_okD:
  assumes "codec_ok c"
  shows "dec_u32 c (enc_u32 c x @ r) = Some (x, r)"
    and "length (enc_u32 c x) = 4"
    and "enc_smap c m = enc_u32 c (of_nat (length m)) @ enc_pairs c m"
    and "map_wf m \<Longrightarrow> small_map m \<Longrightarrow> dec_smap c (enc_smap c m @ r) = Some (m, r)"
    and "enc_str c s = enc_chunk c s"
  using assms unfolding codec_ok_def by blast+

lemma unat_of_nat_u32 [simp]: "n < 2 ^ 32 \<Longrightarrow> unat (of_nat n :: u32) = n"
  by (simp add: unat_of_nat take_bit_nat_eq_self)

lemma bl_advance_append [simp]: "bl_advance (length s) (s @ r) = Some r"
  by (simp add: bl_advance_def)

lemma walk_pairs_encoded:
  assumes c: "codec_ok c"
  shows "list_all (\<lambda>(k, v). length k < 2 ^ 32 \<and> length v < 2 ^ 32) m \<Longrightarrow>
    walk_pairs c (length m) (enc_pairs c m @ r) n = Some (r, n + of_nat (length (enc_pairs c m)))"
proof (induction m arbitrary: n)
  case (Cons kv m)
  obtain k v where kv: "kv = (k, v)" by (cases kv)
  then have k: "length k < 2 ^ 32" and v: "length v < 2 ^ 32"
    and m: "list_all (\<lambda>(k, v). length k < 2 ^ 32 \<and> length v < 2 ^ 32) m" using Cons.prems by auto
  have "walk_pairs c (length (kv # m)) (enc_pairs c (kv # m) @ r) n =
      walk_pairs c (length m) (enc_pairs c m @ r) (n + (4 + of_nat (length k)) + (4 + of_nat (length v)))"
    using k v by (simp add: kv enc_pairs_def enc_chunk_def codec_okD(1) [OF c])
  then show ?case
    using Cons.IH [OF m] by (simp add: kv enc_pairs_def enc_chunk_def codec_okD(2) [OF c])
qed (simp add: enc_pairs_def)

lemma decode_str_str_map_to_bl_encoded:
  assumes c: "codec_ok c" and m: "small_map m" and len: "length (enc_smap c m) < 2 ^ 32"
  shows "decode_str_str_map_to_bl c (enc_smap c m @ r) = Some (enc_smap c m, r)"
proof -
  have e: "enc_smap c m = enc_u32 c (of_nat (length m)) @ enc_pairs c m" by (rule codec_okD(3) [OF c])
  have l: "length (enc_smap c m) = 4 + length (enc_pairs c m)" by (simp add: e codec_okD(2) [OF c])
  have "unat (4 + of_nat (length (enc_pairs c m)) :: u32) = unat (of_nat (4 + length (enc_pairs c m)) :: u32)"
    by simp
  then have u: "unat (4 + of_nat (length (enc_pairs c m)) :: u32) = length (enc_smap c m)"
    using len l by (simp only: unat_of_nat_u32)
  have "walk_pairs c (length m) (enc_pairs c m @ r) 4 = Some (r, 4 + of_nat (length (enc_pairs c m)))"
    using walk_pairs_encoded [OF c] m by (simp add: small_map_def)
  moreover have "dec_u32 c (enc_smap c m @ r) = Some (of_nat (length m), enc_pairs c m @ r)"
    by (simp add: e codec_okD(1) [OF c])
  ultimately show ?thesis
    using m u by (simp add: decode_str_str_map_to_bl_def small_map_def bl_copy_def)
qed

subsection \<open>The little-endian encoding\<close>

text \<open>Ceph's wire format for these types, which meets the requirements.\<close>

fun enc_le :: "nat \<Rightarrow> nat \<Rightarrow> bytes" where
  "enc_le 0 x = []"
| "enc_le (Suc n) x = char_of (x mod 256) # enc_le n (x div 256)"

fun dec_le :: "nat \<Rightarrow> bytes \<Rightarrow> (nat \<times> bytes) option" where
  "dec_le 0 bs = Some (0, bs)"
| "dec_le (Suc n) [] = None"
| "dec_le (Suc n) (b # bs) = map_option (\<lambda>(v, r). (of_char b + 256 * v, r)) (dec_le n bs)"

definition dec_word :: "nat \<Rightarrow> bytes \<Rightarrow> ('a::len word \<times> bytes) option" where
  "dec_word n bs = map_option (\<lambda>(v, r). (of_nat v, r)) (dec_le n bs)"

definition dec_chunk :: "bytes \<Rightarrow> (bytes \<times> bytes) option" where
  "dec_chunk bs = (case dec_le 4 bs of None \<Rightarrow> None | Some (n, r) \<Rightarrow> bl_copy n r)"

fun dec_items :: "(bytes \<Rightarrow> ('a \<times> bytes) option) \<Rightarrow> nat \<Rightarrow> bytes \<Rightarrow> ('a list \<times> bytes) option" where
  "dec_items d 0 bs = Some ([], bs)"
| "dec_items d (Suc n) bs =
     (case d bs of None \<Rightarrow> None | Some (x, r) \<Rightarrow> map_option (\<lambda>(xs, r'). (x # xs, r')) (dec_items d n r))"

definition dec_list :: "(bytes \<Rightarrow> ('a \<times> bytes) option) \<Rightarrow> bytes \<Rightarrow> ('a list \<times> bytes) option" where
  "dec_list d bs = (case dec_le 4 bs of None \<Rightarrow> None | Some (n, r) \<Rightarrow> dec_items d n r)"

definition dec_both :: "(bytes \<Rightarrow> ('a \<times> bytes) option) \<Rightarrow> (bytes \<Rightarrow> ('b \<times> bytes) option)
    \<Rightarrow> bytes \<Rightarrow> (('a \<times> 'b) \<times> bytes) option" where
  "dec_both d e bs =
     (case d bs of None \<Rightarrow> None | Some (x, r) \<Rightarrow> map_option (\<lambda>(y, r'). ((x, y), r')) (e r))"

definition le_codec :: codec where
  "le_codec =
     \<lparr>enc_u32 = (\<lambda>x. enc_le 4 (unat x)), enc_u64 = (\<lambda>x. enc_le 8 (unat x)),
      enc_str = (\<lambda>s. enc_le 4 (length s mod 2 ^ 32) @ s), enc_bool = (\<lambda>b. [if b then CHR 0x01 else CHR 0x00]),
      enc_smap = (\<lambda>m. enc_le 4 (length m mod 2 ^ 32) @
         concat (map (\<lambda>(k, v). (enc_le 4 (length k mod 2 ^ 32) @ k) @ (enc_le 4 (length v mod 2 ^ 32) @ v)) m)),
      enc_extents = (\<lambda>m. enc_le 4 (length m) @ concat (map (\<lambda>(k, v). enc_le 8 (unat k) @ enc_le 8 (unat v)) m)),
      dec_u32 = dec_word 4, dec_u64 = dec_word 8, dec_str = dec_chunk,
      dec_smap = dec_list (dec_both dec_chunk dec_chunk), dec_sset = dec_list dec_chunk,
      dec_assertions = dec_list (dec_both dec_chunk (dec_both dec_chunk
         (\<lambda>bs. map_option (\<lambda>(w :: u32, r). (sint w, r)) (dec_word 4 bs)))),
      dec_bool = (\<lambda>bs. case bs of [] \<Rightarrow> None | b # r \<Rightarrow> Some (b \<noteq> CHR 0x00, r)),
      copy_rest = (\<lambda>n s. s)\<rparr>"

lemma dec_enc_le: "x < 256 ^ n \<Longrightarrow> dec_le n (enc_le n x @ r) = Some (x, r)"
proof (induction n arbitrary: x)
  case (Suc n)
  then have "x div 256 < 256 ^ n" by (simp add: less_mult_imp_div_less mult.commute)
  with Suc.IH show ?case by simp
qed simp

lemma length_enc_le [simp]: "length (enc_le n x) = n"
  by (induction n x rule: enc_le.induct) auto

lemma dec_enc_u32: "dec_word 4 (enc_le 4 (unat x) @ r) = Some (x :: u32, r)"
proof -
  have "unat x < 256 ^ 4" using unsigned_less [of x] by simp
  then show ?thesis by (simp add: dec_word_def dec_enc_le del: power_numeral)
qed

lemma dec_enc_chunk: "length s < 2 ^ 32 \<Longrightarrow> dec_chunk (enc_le 4 (length s mod 2 ^ 32) @ s @ r) = Some (s, r)"
  using dec_enc_le [of "length s" 4 "s @ r"] by (simp add: dec_chunk_def bl_copy_def)

lemma dec_items_pairs:
  "list_all (\<lambda>(k, v). length k < 2 ^ 32 \<and> length v < 2 ^ 32) m \<Longrightarrow>
   dec_items (dec_both dec_chunk dec_chunk) (length m)
     (concat (map (\<lambda>(k, v). (enc_le 4 (length k mod 2 ^ 32) @ k) @ (enc_le 4 (length v mod 2 ^ 32) @ v)) m) @ r) = Some (m, r)"
proof (induction m)
  case (Cons kv m)
  obtain k v where kv: "kv = (k, v)" by (cases kv)
  with Cons.prems have "length k < 2 ^ 32" "length v < 2 ^ 32" by auto
  then show ?case
    using Cons dec_enc_chunk [of k] dec_enc_chunk [of v] by (simp add: kv dec_both_def)
qed simp

lemma le_codec_ok: "codec_ok le_codec"
proof -
  have "map_wf m \<longrightarrow> small_map m \<longrightarrow> dec_smap le_codec (enc_smap le_codec m @ r) = Some (m, r)" for m r
    using dec_enc_le [of "length m" 4] dec_items_pairs [of m r]
    by (simp add: le_codec_def dec_list_def small_map_def)
  then show ?thesis
    unfolding codec_ok_def
    by (simp add: le_codec_def dec_enc_u32 enc_pairs_def enc_chunk_def unat_of_nat take_bit_nat_eq_self take_bit_eq_mod)
qed

section \<open>Properties\<close>

text \<open>
  C31: A client's omap update reaches the cache as it was encoded. When the operation's input data is the
  encoding of a map of keys and values (below 4 GiB), possibly followed by other bytes, the conversion
  succeeds, appends exactly the keys of the map to the request's keys and the values, in the same order, to its
  values, changes nothing else but the operation code, and counts neither a read nor a write.
\<close>

theorem omap_set_roundtrip:
  assumes "codec_ok c"
    and "op_code i = CEPH_OSD_OP_OMAPSETVALS" and "indata i = enc_smap c m @ r"
    and "map_wf m" and "small_map m" and "length (enc_smap c m) < 2 ^ 32"
  shows "ConvertClientopToOpreq c i oneOp ot ol =
    Inr (0, oneOp\<lparr>opSubType := CEPH_OSD_OP_OMAPSETVALS,
                  op_keys := op_keys oneOp @ map fst m,
                  op_values := op_values oneOp @ map snd m\<rparr>, ot, ol)"
proof -
  have "decode_str_str_map_to_bl c (indata i) = Some (enc_smap c m, r)"
    using assms by (simp add: decode_str_str_map_to_bl_encoded)
  moreover have "dec_smap c (enc_smap c m) = Some (m, [])"
    using codec_okD(4) [OF assms(1,4,5), of "[]"] by simp
  ultimately show ?thesis
    using assms(2) by (simp add: ConvertClientopToOpreq_def ConvertOmapOp_def Let_def foldl_push_kv)
qed

definition blank_op :: OSDOp where
  "blank_op = \<lparr>op_code = CEPH_OSD_OP_STAT, ext_offset = 0, ext_length = 0, xattr_name_len = 0, xattr_value_len = 0,
     cmp_op = 0, cmp_mode = CEPH_OSD_CMPXATTR_MODE_STRING, class_len = 0, method_len = 0, indata_len = 0, op_flags = 0, snapid = 0,
     indata = [], outdata = [], rval = 0\<rparr>"

definition blank_req :: OpRequestOps where
  "blank_req = \<lparr>opSubType = CEPH_OSD_OP_OTHER 0, objName = [], isRbd = False,
     rbdObjId = \<lparr>rbd_poolId = 0, rbd_head = 0, rbd_seq = 0, rbd_format = 0, rbd_version = 0, rbd_reserve = 0\<rparr>,
     inData = None, inDataLen = 0, outData = None, outDataLen = 0, objOffset = 0, objLength = 0, opFlags = 0,
     op_keys = [], op_values = [], subops = [], u64vals = [], cmpModes = []\<rparr>"

theorem omap_set_roundtrip_witness:
  "let m = [(''a'', ''1''), (''b'', ''23'')];
       i = blank_op\<lparr>op_code := CEPH_OSD_OP_OMAPSETVALS, indata := enc_smap le_codec m @ ''rest''\<rparr>
   in ConvertClientopToOpreq le_codec i blank_req \<lparr>ot_write = 0, ot_read = 0\<rparr> \<lparr>ol_write = 0, ol_read = 0\<rparr> =
      Inr (0, blank_req\<lparr>opSubType := CEPH_OSD_OP_OMAPSETVALS, op_keys := [''a'', ''b''], op_values := [''1'', ''23'']\<rparr>,
           \<lparr>ot_write = 0, ot_read = 0\<rparr>, \<lparr>ol_write = 0, ol_read = 0\<rparr>)"
proof -
  let ?m = "[(''a'', ''1''), (''b'', ''23'')]"
  have wf: "map_wf ?m" and sm: "small_map ?m"
    by (simp_all add: map_wf_def small_map_def)
  have "length (enc_smap le_codec ?m) < 2 ^ 32"
    by (simp add: le_codec_def)
  then show ?thesis
    using omap_set_roundtrip [OF le_codec_ok _ _ wf sm,
        where i = "blank_op\<lparr>op_code := CEPH_OSD_OP_OMAPSETVALS, indata := enc_smap le_codec ?m @ ''rest''\<rparr>"
          and oneOp = blank_req and ot = "\<lparr>ot_write = 0, ot_read = 0\<rparr>" and ol = "\<lparr>ol_write = 0, ol_read = 0\<rparr>"
          and r = "''rest''"]
    by (simp add: blank_req_def)
qed

end
