(* ===== verification/Encode_Reply.thy ===== *)
theory Encode_Reply
  imports Msg_Convert
begin

text \<open>
  The end of \<open>server_adaptor/network_module.cpp\<close>: the functions by which the cache writes the result of
  one operation into the client's message before the reply goes out (\<open>SetOpResult\<close>, \<open>ProcessBuf\<close>,
  \<open>Encode...\<close>).

  A null message or null result is logged and skipped; everything else is unchecked, so an operation index outside
  the message, an array shorter than the count beside it, or a buffer shorter than its length is a fault.
  Arrays and buffers are lists, \<open>None\<close> is a null pointer.
\<close>

section \<open>Messages and results\<close>

record MOSDOp =
  mo_tid :: int
  mo_snapid :: u64
  mo_pool :: u64
  mo_seed :: u32
  mo_seq :: u64
  mo_snap_seq :: u64
  mo_snaps :: "u64 list"
  mo_oid :: string
  mo_ops :: "OSDOp list"

record SaStr =
  sa_len :: u32
  sa_buf :: "bytes option"

record SaBatchKv =
  kv_keys :: "SaStr list"
  kv_values :: "SaStr list"
  kvNum :: u32

record SaBatchKeys =
  bk_keys :: "SaStr list"
  bk_nums :: u32

record CloneInfo =
  CI_cloneid :: u32
  CI_objSize :: u32
  CI_snapNum :: u32
  CI_snaps :: "u32 list"
  CI_overlapNum :: u32
  CI_overlaps :: "(u32 \<times> u32) list"

record ObjSnaps =
  os_seq :: u32
  cloneInfoNum :: u32
  cloneInfos :: "CloneInfo list"

text \<open>Ceph's \<open>clone_info\<close> and \<open>obj_list_snap_response_t\<close>, whose encoder is an argument.\<close>

record clone_info =
  ci_cloneid :: u64
  ci_snaps :: "u64 list"
  ci_overlap :: "(u64 \<times> u64) list"
  ci_size :: u64

record obj_list_snap_response_t =
  resp_clones :: "clone_info list"
  resp_seq :: u64

section \<open>Unchecked reads\<close>

definition array_at :: "'a list \<Rightarrow> nat \<Rightarrow> fault + 'a" where
  "array_at xs j = (if j < length xs then Inr (xs ! j) else Inl OutOfBounds)"

definition sa_view :: "SaStr \<Rightarrow> fault + bytes" where
  "sa_view s =
     (case sa_buf s of
        None \<Rightarrow> if sa_len s = 0 then Inr [] else Inl NullDeref
      | Some b \<Rightarrow> if unat (sa_len s) \<le> length b then Inr (take (unat (sa_len s)) b) else Inl OutOfBounds)"

text \<open>A counting loop from \<open>j\<close> with \<open>n\<close> rounds that collects one value a round.\<close>

fun for_collect :: "(nat \<Rightarrow> fault + 'a) \<Rightarrow> nat \<Rightarrow> nat \<Rightarrow> fault + 'a list" where
  "for_collect f j 0 = Inr []"
| "for_collect f j (Suc n) =
     (case f j of
        Inl e \<Rightarrow> Inl e
      | Inr x \<Rightarrow> (case for_collect f (Suc j) n of Inl e \<Rightarrow> Inl e | Inr xs \<Rightarrow> Inr (x # xs)))"

definition view_at :: "SaStr list \<Rightarrow> nat \<Rightarrow> fault + bytes" where
  "view_at xs j = (case array_at xs j of Inl e \<Rightarrow> Inl e | Inr s \<Rightarrow> sa_view s)"

definition kv_at :: "SaBatchKv \<Rightarrow> nat \<Rightarrow> fault + bytes \<times> bytes" where
  "kv_at kv j =
     (case view_at (kv_keys kv) j of
        Inl e \<Rightarrow> Inl e
      | Inr k \<Rightarrow> (case view_at (kv_values kv) j of Inl e \<Rightarrow> Inl e | Inr v \<Rightarrow> Inr (k, v)))"

definition update_op :: "nat \<Rightarrow> (OSDOp \<Rightarrow> OSDOp) \<Rightarrow> MOSDOp \<Rightarrow> fault + MOSDOp" where
  "update_op i f m =
     (if i < length (mo_ops m) then Inr (m\<lparr>mo_ops := (mo_ops m)[i := f (mo_ops m ! i)]\<rparr>) else Inl OutOfBounds)"

definition append_out :: "bytes \<Rightarrow> OSDOp \<Rightarrow> OSDOp" where
  "append_out bs o1 = o1\<lparr>outdata := outdata o1 @ bs\<rparr>"

section \<open>The encoders\<close>

definition SetOpResult :: "nat \<Rightarrow> int \<Rightarrow> MOSDOp option \<Rightarrow> fault + MOSDOp option" where
  "SetOpResult i ret mop =
     (case mop of None \<Rightarrow> Inr None | Some m \<Rightarrow> map_sum id Some (update_op i (\<lambda>o1. o1\<lparr>rval := ret\<rparr>) m))"

definition ProcessBuf :: "codec \<Rightarrow> SaStr \<Rightarrow> nat \<Rightarrow> MOSDOp option \<Rightarrow> fault + MOSDOp option" where
  "ProcessBuf c s cnt mop =
     (case mop of
        None \<Rightarrow> Inr None
      | Some m \<Rightarrow>
          (case sa_view s of
             Inl e \<Rightarrow> Inl e
           | Inr b \<Rightarrow> map_sum id Some (update_op cnt (append_out (enc_str c b)) m)))"

definition EncodeOmapGetkeys :: "codec \<Rightarrow> SaBatchKeys option \<Rightarrow> nat \<Rightarrow> MOSDOp option \<Rightarrow> fault + MOSDOp option" where
  "EncodeOmapGetkeys c batchKeys i mop =
     (case (mop, batchKeys) of
        (Some m, Some bk) \<Rightarrow>
          (case for_collect (view_at (bk_keys bk)) 0 (unat (bk_nums bk)) of
             Inl e \<Rightarrow> Inl e
           | Inr ks \<Rightarrow>
               map_sum id Some (update_op i
                 (append_out (enc_u32 c (bk_nums bk) @ concat (map (enc_str c) ks) @ enc_bool c False)) m))
      | _ \<Rightarrow> Inr mop)"

text \<open>\<open>if (s.buf && s.len) encode(...)\<close>.\<close>

definition encode_nonempty :: "codec \<Rightarrow> SaStr list \<Rightarrow> nat \<Rightarrow> fault + bytes" where
  "encode_nonempty c xs j =
     (case array_at xs j of
        Inl e \<Rightarrow> Inl e
      | Inr s \<Rightarrow>
          if sa_buf s \<noteq> None \<and> sa_len s \<noteq> 0
          then (case sa_view s of Inl e \<Rightarrow> Inl e | Inr b \<Rightarrow> Inr (enc_str c b)) else Inr [])"

definition getvals_entry :: "codec \<Rightarrow> SaBatchKv \<Rightarrow> nat \<Rightarrow> fault + bytes" where
  "getvals_entry c kv j =
     (case encode_nonempty c (kv_keys kv) j of
        Inl e \<Rightarrow> Inl e
      | Inr a \<Rightarrow> (case encode_nonempty c (kv_values kv) j of Inl e \<Rightarrow> Inl e | Inr b \<Rightarrow> Inr (a @ b)))"

definition EncodeOmapGetvals :: "codec \<Rightarrow> SaBatchKv option \<Rightarrow> nat \<Rightarrow> MOSDOp option \<Rightarrow> fault + MOSDOp option" where
  "EncodeOmapGetvals c KVs i mop =
     (case (mop, KVs) of
        (Some m, Some kv) \<Rightarrow>
          (case for_collect (getvals_entry c kv) 0 (unat (kvNum kv)) of
             Inl e \<Rightarrow> Inl e
           | Inr bl \<Rightarrow>
               map_sum id Some (update_op i (append_out (enc_u32 c (kvNum kv) @ concat bl @ enc_bool c False)) m))
      | _ \<Rightarrow> Inr mop)"

definition kv_map :: "(bytes \<times> bytes) list \<Rightarrow> (string, bytes) std_map" where
  "kv_map kvs = foldl (\<lambda>out (k, v). map_insert_new k v out) [] kvs"

definition EncodeOmapGetvalsbykeys ::
    "codec \<Rightarrow> SaBatchKv option \<Rightarrow> nat \<Rightarrow> MOSDOp option \<Rightarrow> fault + MOSDOp option" where
  "EncodeOmapGetvalsbykeys c keyValue i mop =
     (case (mop, keyValue) of
        (Some m, Some kv) \<Rightarrow>
          (case for_collect (kv_at kv) 0 (unat (kvNum kv)) of
             Inl e \<Rightarrow> Inl e
           | Inr kvs \<Rightarrow> map_sum id Some (update_op i (append_out (enc_smap c (kv_map kvs))) m))
      | _ \<Rightarrow> Inr mop)"

definition EncodeRead ::
    "codec \<Rightarrow> osd_op \<Rightarrow> u32 \<Rightarrow> u32 \<Rightarrow> SaStr \<Rightarrow> nat \<Rightarrow> MOSDOp option \<Rightarrow> fault + MOSDOp option" where
  "EncodeRead c opType off n s i mop =
     (case mop of
        None \<Rightarrow> Inr None
      | Some m \<Rightarrow>
          (case sa_view s of
             Inl e \<Rightarrow> Inl e
           | Inr b \<Rightarrow>
               map_sum id Some (update_op i
                 (append_out (if opType = CEPH_OSD_OP_SPARSE_READ
                              then enc_extents c [(ucast off, ucast n)] @ enc_str c b else b)) m)))"

definition EncodeXattrGetXattr ::
    "SaBatchKv option \<Rightarrow> nat \<Rightarrow> MOSDOp option \<Rightarrow> fault + MOSDOp option" where
  "EncodeXattrGetXattr keyValue i mop =
     (case (mop, keyValue) of
        (Some m, Some kv) \<Rightarrow>
          (case for_collect (view_at (kv_values kv)) 0 (unat (kvNum kv)) of
             Inl e \<Rightarrow> Inl e
           | Inr vs \<Rightarrow> map_sum id Some (update_op i (\<lambda>o1. o1\<lparr>outdata := concat vs\<rparr>) m))
      | _ \<Rightarrow> Inr mop)"

definition EncodeXattrGetXattrs ::
    "codec \<Rightarrow> SaBatchKv option \<Rightarrow> nat \<Rightarrow> MOSDOp option \<Rightarrow> fault + MOSDOp option" where
  "EncodeXattrGetXattrs c keyValue i mop =
     (case (mop, keyValue) of
        (Some m, Some kv) \<Rightarrow>
          (case for_collect (kv_at kv) 0 (unat (kvNum kv)) of
             Inl e \<Rightarrow> Inl e
           | Inr kvs \<Rightarrow> map_sum id Some (update_op i (append_out (enc_smap c (kv_map kvs))) m))
      | _ \<Rightarrow> Inr mop)"

definition EncodeGetOpstat :: "codec \<Rightarrow> u64 \<Rightarrow> int \<Rightarrow> nat \<Rightarrow> MOSDOp option \<Rightarrow> fault + MOSDOp option" where
  "EncodeGetOpstat c psize ptime i mop =
     (case mop of
        None \<Rightarrow> Inr None
      | Some m \<Rightarrow> map_sum id Some (update_op i (append_out (enc_u64 c psize @ enc_u64 c (word_of_int ptime))) m))"

text \<open>The counts and indices of the loops are \<open>uint32_t\<close>, so \<open>cloneInfoNum - 1\<close> wraps at 0.\<close>

definition clone_entry :: "ObjSnaps \<Rightarrow> nat \<Rightarrow> fault + clone_info" where
  "clone_entry os j =
     (case array_at (cloneInfos os) j of
        Inl e \<Rightarrow> Inl e
      | Inr ci \<Rightarrow>
          (case for_collect (array_at (CI_snaps ci)) 0 (unat (CI_snapNum ci)) of
             Inl e \<Rightarrow> Inl e
           | Inr ss \<Rightarrow>
               (case for_collect (array_at (CI_overlaps ci)) 0 (unat (CI_overlapNum ci)) of
                  Inl e \<Rightarrow> Inl e
                | Inr ovs \<Rightarrow>
                    Inr \<lparr>ci_cloneid = ucast (CI_cloneid ci), ci_snaps = map ucast ss,
                         ci_overlap = map (\<lambda>(a, b). (ucast a, ucast b)) ovs, ci_size = ucast (CI_objSize ci)\<rparr>)))"

definition head_entry :: "ObjSnaps \<Rightarrow> fault + clone_info" where
  "head_entry os =
     (case array_at (cloneInfos os) (unat (cloneInfoNum os - 1)) of
        Inl e \<Rightarrow> Inl e
      | Inr ci \<Rightarrow> Inr \<lparr>ci_cloneid = - 2, ci_snaps = [], ci_overlap = [], ci_size = ucast (CI_objSize ci)\<rparr>)"

definition list_snaps_response :: "ObjSnaps \<Rightarrow> fault + obj_list_snap_response_t" where
  "list_snaps_response os =
     (case (if 2 \<le> cloneInfoNum os
            then map_sum id CI_cloneid (array_at (cloneInfos os) (unat (cloneInfoNum os - 2))) else Inr 0) of
        Inl e \<Rightarrow> Inl e
      | Inr sq \<Rightarrow>
          (case for_collect (clone_entry os) 0 (unat (cloneInfoNum os - 1)) of
             Inl e \<Rightarrow> Inl e
           | Inr cs \<Rightarrow>
               (case head_entry os of
                  Inl e \<Rightarrow> Inl e
                | Inr h \<Rightarrow> Inr \<lparr>resp_clones = cs @ [h], resp_seq = ucast sq\<rparr>)))"

definition EncodeListSnaps ::
    "(obj_list_snap_response_t \<Rightarrow> bytes) \<Rightarrow> ObjSnaps option \<Rightarrow> nat \<Rightarrow> MOSDOp option \<Rightarrow> fault + MOSDOp option" where
  "EncodeListSnaps enc_resp objSnaps i mop =
     (case (mop, objSnaps) of
        (Some m, Some os) \<Rightarrow>
          (case list_snaps_response os of
             Inl e \<Rightarrow> Inl e
           | Inr resp \<Rightarrow> map_sum id Some (update_op i (append_out (enc_resp resp)) m))
      | _ \<Rightarrow> Inr mop)"

section \<open>Facts about the encoders\<close>

lemma for_collect_all:
  "(\<And>k. j \<le> k \<Longrightarrow> k < j + n \<Longrightarrow> f k = Inr (g k)) \<Longrightarrow> for_collect f j n = Inr (map g [j..<j + n])"
proof (induction n arbitrary: j)
  case (Suc n)
  have "for_collect f (Suc j) n = Inr (map g [Suc j..<Suc j + n])" by (rule Suc.IH) (use Suc.prems in auto)
  moreover have "[j..<j + Suc n] = j # [Suc j..<Suc j + n]" by (simp add: upt_conv_Cons del: upt_Suc)
  ultimately show ?case using Suc.prems [of j] by simp
qed simp

lemma for_collect_fault:
  "(\<And>k. f k \<noteq> Inl e \<Longrightarrow> \<exists>x. f k = Inr x) \<Longrightarrow> j \<le> k \<Longrightarrow> k < j + n \<Longrightarrow> f k = Inl e \<Longrightarrow>
   for_collect f j n = Inl e"
proof (induction n arbitrary: j)
  case (Suc n)
  show ?case
  proof (cases "f j = Inl e")
    case False
    then obtain x where x: "f j = Inr x" using Suc.prems(1) by blast
    from False Suc.prems(4) have "j \<noteq> k" by auto
    then have "for_collect f (Suc j) n = Inl e" using Suc.prems by (intro Suc.IH) auto
    with x show ?thesis by simp
  qed simp
qed simp

text \<open>Only a read past an array ends a loop over whole entries.\<close>

lemma for_collect_array:
  "for_collect (array_at xs) j n = Inl OutOfBounds \<or> (\<exists>ys. for_collect (array_at xs) j n = Inr ys)"
proof (induction n arbitrary: j)
  case (Suc n)
  show ?case using Suc.IH [of "Suc j"] by (cases "j < length xs") (auto simp: array_at_def [of xs j])
qed simp

lemma clone_entry_cases: "clone_entry os j \<noteq> Inl OutOfBounds \<Longrightarrow> \<exists>x. clone_entry os j = Inr x"
proof (cases "array_at (cloneInfos os) j")
  case (Inr ci)
  assume "clone_entry os j \<noteq> Inl OutOfBounds"
  then show ?thesis
    using Inr for_collect_array [of "CI_snaps ci" 0 "unat (CI_snapNum ci)"]
      for_collect_array [of "CI_overlaps ci" 0 "unat (CI_overlapNum ci)"]
    by (auto simp: clone_entry_def)
qed (auto simp: clone_entry_def array_at_def split: if_splits)

lemma for_collect_whole: "for_collect (array_at xs) 0 (length xs) = Inr xs"
  using for_collect_all [of 0 "length xs" "array_at xs" "\<lambda>j. xs ! j"] by (simp add: array_at_def map_nth)

lemma pred_count:
  assumes "w = (of_nat n :: u32)" and "n < 2 ^ 32" and "0 < n"
  shows "unat (w - 1) = n - 1"
proof -
  have "w - 1 = of_nat (n - 1)" using assms(1,3) by (cases n) simp_all
  then show ?thesis using assms(2) by simp
qed

lemma clone_entry_wf:
  assumes "j < length (cloneInfos os)"
    and "unat (CI_snapNum (cloneInfos os ! j)) = length (CI_snaps (cloneInfos os ! j))"
    and "unat (CI_overlapNum (cloneInfos os ! j)) = length (CI_overlaps (cloneInfos os ! j))"
  shows "clone_entry os j = Inr
    \<lparr>ci_cloneid = ucast (CI_cloneid (cloneInfos os ! j)), ci_snaps = map ucast (CI_snaps (cloneInfos os ! j)),
     ci_overlap = map (\<lambda>(a, b). (ucast a, ucast b)) (CI_overlaps (cloneInfos os ! j)),
     ci_size = ucast (CI_objSize (cloneInfos os ! j))\<rparr>"
  using assms by (simp add: clone_entry_def array_at_def [of "cloneInfos os"] for_collect_whole)

definition sa_of :: "bytes \<Rightarrow> SaStr" where
  "sa_of s = \<lparr>sa_len = of_nat (length s), sa_buf = Some s\<rparr>"

definition kv_of :: "(bytes \<times> bytes) list \<Rightarrow> SaBatchKv" where
  "kv_of m = \<lparr>kv_keys = map (sa_of \<circ> fst) m, kv_values = map (sa_of \<circ> snd) m, kvNum = of_nat (length m)\<rparr>"

lemma sa_view_of [simp]: "length s < 2 ^ 32 \<Longrightarrow> sa_view (sa_of s) = Inr s"
  by (simp add: sa_view_def sa_of_def)

lemma encode_nonempty_of:
  assumes "j < length xs" and "length (xs ! j) < 2 ^ 32"
  shows "encode_nonempty c (map sa_of xs) j = Inr (if xs ! j = [] then [] else enc_str c (xs ! j))"
proof -
  have "(of_nat (length (xs ! j)) :: u32) = 0 \<longleftrightarrow> xs ! j = []"
  proof -
    have "(of_nat (length (xs ! j)) :: u32) = 0 \<longleftrightarrow> unat (of_nat (length (xs ! j)) :: u32) = 0"
      by (simp only: unsigned_eq_0_iff)
    also have "\<dots> \<longleftrightarrow> xs ! j = []" unfolding unat_of_nat_u32 [OF assms(2)] by simp
    finally show ?thesis .
  qed
  then have "sa_len (sa_of (xs ! j)) = 0 \<longleftrightarrow> xs ! j = []" by (simp add: sa_of_def)
  moreover have "sa_buf (sa_of (xs ! j)) \<noteq> None" by (simp add: sa_of_def)
  ultimately show ?thesis
    using assms by (simp add: encode_nonempty_def array_at_def)
qed

lemma getvals_entries:
  assumes m: "small_map m"
  shows "for_collect (getvals_entry c (kv_of m)) 0 (unat (kvNum (kv_of m))) =
    Inr (map (\<lambda>(k, v). (if k = [] then [] else enc_str c k) @ (if v = [] then [] else enc_str c v)) m)"
proof -
  let ?g = "\<lambda>j. (if fst (m ! j) = [] then [] else enc_str c (fst (m ! j))) @
                (if snd (m ! j) = [] then [] else enc_str c (snd (m ! j)))"
  have "getvals_entry c (kv_of m) j = Inr (?g j)" if "j < length m" for j
  proof -
    have "m ! j \<in> set m" using that by simp
    then have "length (fst (m ! j)) < 2 ^ 32" "length (snd (m ! j)) < 2 ^ 32"
      using m by (auto simp: small_map_def list_all_iff case_prod_unfold)
    then show ?thesis
      using that encode_nonempty_of [of j "map fst m" c] encode_nonempty_of [of j "map snd m" c]
      by (simp add: getvals_entry_def kv_of_def)
  qed
  then have "for_collect (getvals_entry c (kv_of m)) 0 (length m) = Inr (map ?g [0..<length m])"
    using for_collect_all [of 0 "length m" "getvals_entry c (kv_of m)" ?g] by simp
  moreover have "map ?g [0..<length m] =
      map (\<lambda>(k, v). (if k = [] then [] else enc_str c k) @ (if v = [] then [] else enc_str c v)) m"
    by (rule nth_equalityI) (auto simp: split_beta)
  ultimately show ?thesis using m by (simp add: kv_of_def small_map_def)
qed

lemma EncodeOmapGetvals_nonempty:
  assumes c: "codec_ok c" and m: "small_map m" and i: "i < length (mo_ops msg)"
    and ne: "list_all (\<lambda>(k, v). k \<noteq> [] \<and> v \<noteq> []) m"
  shows "EncodeOmapGetvals c (Some (kv_of m)) i (Some msg) =
    Inr (Some (msg\<lparr>mo_ops := (mo_ops msg)[i := append_out (enc_smap c m @ enc_bool c False) (mo_ops msg ! i)]\<rparr>))"
proof -
  have "map (\<lambda>(k, v). (if k = [] then [] else enc_str c k) @ (if v = [] then [] else enc_str c v)) m =
      map (\<lambda>(k, v). enc_chunk c k @ enc_chunk c v) m"
    using ne codec_okD(5) [OF c] by (auto simp: list_all_iff)
  then have "for_collect (getvals_entry c (kv_of m)) 0 (unat (kvNum (kv_of m))) =
      Inr (map (\<lambda>(k, v). enc_chunk c k @ enc_chunk c v) m)"
    using getvals_entries [OF m] by simp
  then show ?thesis
    using i by (simp add: EncodeOmapGetvals_def update_op_def codec_okD(3) [OF c] enc_pairs_def kv_of_def)
qed

section \<open>Properties\<close>

text \<open>
  The reply to an omap read carries the cache's result. When every key and every value is non-empty,
  \<open>EncodeOmapGetvals\<close> appends the encoding of the map to the output of the operation it is called
  for, followed by the flag that nothing was truncated, leaves the other operations of the message alone, and the
  client's decoder gets the same map back from the appended bytes.
\<close>

theorem getvals_roundtrip:
  assumes c: "codec_ok c" and m: "map_wf m" "small_map m" and i: "i < length (mo_ops msg)"
    and ne: "list_all (\<lambda>(k, v). k \<noteq> [] \<and> v \<noteq> []) m"
  shows "\<exists>reply. EncodeOmapGetvals c (Some (kv_of m)) i (Some msg) =
      Inr (Some (msg\<lparr>mo_ops := (mo_ops msg)[i := append_out reply (mo_ops msg ! i)]\<rparr>)) \<and>
      dec_smap c reply = Some (m, enc_bool c False)"
proof -
  have "EncodeOmapGetvals c (Some (kv_of m)) i (Some msg) =
      Inr (Some (msg\<lparr>mo_ops := (mo_ops msg)[i := append_out (enc_smap c m @ enc_bool c False) (mo_ops msg ! i)]\<rparr>))"
    by (rule EncodeOmapGetvals_nonempty [OF c m(2) i ne])
  with codec_okD(4) [OF c m] show ?thesis by blast
qed

definition one_op_msg :: MOSDOp where
  "one_op_msg = \<lparr>mo_tid = 1, mo_snapid = 0, mo_pool = 1, mo_seed = 0, mo_seq = 1, mo_snap_seq = 0, mo_snaps = [],
     mo_oid = ''obj'', mo_ops = [blank_op]\<rparr>"

theorem getvals_roundtrip_witness:
  "\<exists>reply. EncodeOmapGetvals le_codec (Some (kv_of [(''a'', ''1'')])) 0 (Some one_op_msg) =
      Inr (Some (one_op_msg\<lparr>mo_ops := [append_out reply blank_op]\<rparr>)) \<and>
      dec_smap le_codec reply = Some ([(''a'', ''1'')], enc_bool le_codec False)"
  using getvals_roundtrip [OF le_codec_ok, of "[(''a'', ''1'')]" 0 one_op_msg]
  by (simp add: one_op_msg_def map_wf_def small_map_def)

text \<open>
  An empty value corrupts that reply. \<open>EncodeOmapGetvals\<close> leaves out empty keys and values and
  still announces the full number of entries: for a map whose only value is empty the reply cannot be
  decoded, in Ceph's wire format, at all.
\<close>

theorem getvals_empty_value:
  assumes k: "k \<noteq> []" "length k < 2 ^ 32" and i: "i < length (mo_ops msg)"
  shows "\<exists>reply. EncodeOmapGetvals le_codec (Some (kv_of [(k, [])])) i (Some msg) =
      Inr (Some (msg\<lparr>mo_ops := (mo_ops msg)[i := append_out reply (mo_ops msg ! i)]\<rparr>)) \<and>
      dec_smap le_codec reply = None"
proof -
  let ?reply = "enc_u32 le_codec 1 @ enc_str le_codec k @ enc_bool le_codec False"
  have sm: "small_map [(k, [])]" using k by (simp add: small_map_def)
  have "EncodeOmapGetvals le_codec (Some (kv_of [(k, [])])) i (Some msg) =
      Inr (Some (msg\<lparr>mo_ops := (mo_ops msg)[i := append_out ?reply (mo_ops msg ! i)]\<rparr>))"
    using k i getvals_entries [OF sm, of le_codec]
    by (simp add: EncodeOmapGetvals_def update_op_def kv_of_def)
  moreover have "dec_smap le_codec ?reply = None"
  proof -
    have short: "dec_chunk [CHR 0x00] = None" by (simp add: dec_chunk_def eval_nat_numeral)
    have "dec_both dec_chunk dec_chunk (enc_le 4 (length k mod 2 ^ 32) @ k @ [CHR 0x00]) = None"
      using dec_enc_chunk [OF k(2), of "[CHR 0x00]"] short by (simp add: dec_both_def)
    then show ?thesis
      using dec_enc_le [of 1 4] by (simp add: le_codec_def dec_list_def)
  qed
  ultimately show ?thesis by blast
qed

theorem getvals_empty_value_witness:
  "\<exists>reply. EncodeOmapGetvals le_codec (Some (kv_of [(''a'', [])])) 0 (Some one_op_msg) =
      Inr (Some (one_op_msg\<lparr>mo_ops := [append_out reply blank_op]\<rparr>)) \<and> dec_smap le_codec reply = None"
  using getvals_empty_value [of "''a''" 0 one_op_msg] by (simp add: one_op_msg_def)

text \<open>
  Listing snapshots needs at least the head entry. For \<open>n\<close> well-formed clone entries with \<open>n\<close> at least 1
  the response has the first \<open>n - 1\<close> clones in order and then the head, with the head's snapshot id and
  the head's size; when the cache reports no entry at all, \<open>cloneInfoNum - 1\<close> wraps around and the loop reads
  past the array.
\<close>

theorem list_snaps_entries:
  assumes n: "cloneInfoNum os = of_nat (length (cloneInfos os))" "length (cloneInfos os) < 2 ^ 32 - 1"
    and wf: "\<forall>ci \<in> set (cloneInfos os). unat (CI_snapNum ci) = length (CI_snaps ci) \<and>
               unat (CI_overlapNum ci) = length (CI_overlaps ci)"
  shows "if cloneInfos os = [] then list_snaps_response os = Inl OutOfBounds
    else \<exists>resp. list_snaps_response os = Inr resp \<and>
      length (resp_clones resp) = length (cloneInfos os) \<and>
      map ci_cloneid (resp_clones resp) = map (ucast \<circ> CI_cloneid) (butlast (cloneInfos os)) @ [- 2] \<and>
      map ci_size (resp_clones resp) = map (ucast \<circ> CI_objSize) (cloneInfos os) \<and>
      map ci_snaps (butlast (resp_clones resp)) = map (map ucast \<circ> CI_snaps) (butlast (cloneInfos os))"
proof (cases "cloneInfos os = []")
  case True
  have pos: "0 < unat (- 1 :: u32)" by (simp add: word_greater_zero_iff unsigned_minus_1_eq_mask mask_eq_exp_minus_1)
  from True have "for_collect (clone_entry os) 0 (unat (cloneInfoNum os - 1)) = Inl OutOfBounds"
    using n clone_entry_cases [of os] pos
    by (intro for_collect_fault [where k = 0]) (auto simp: clone_entry_def [of os 0] array_at_def)
  with True n show ?thesis by (simp add: list_snaps_response_def)
next
  case False
  let ?L = "length (cloneInfos os)"
  let ?e = "\<lambda>ci. \<lparr>ci_cloneid = ucast (CI_cloneid ci), ci_snaps = map ucast (CI_snaps ci),
     ci_overlap = map (\<lambda>(a, b). (ucast a, ucast b)) (CI_overlaps ci), ci_size = ucast (CI_objSize ci)\<rparr> :: clone_info"
  let ?h = "\<lparr>ci_cloneid = - 2, ci_snaps = [], ci_overlap = [], ci_size = ucast (CI_objSize (last (cloneInfos os)))\<rparr> :: clone_info"
  have L: "0 < ?L" using False by simp
  have n1: "unat (cloneInfoNum os - 1) = ?L - 1" using pred_count [OF n(1) _ L] n(2) by simp
  have ent: "clone_entry os j = Inr (?e (cloneInfos os ! j))" if "j < ?L" for j
    using clone_entry_wf [OF that] wf that by simp
  have cs: "for_collect (clone_entry os) 0 (?L - 1) = Inr (map ?e (butlast (cloneInfos os)))"
  proof -
    have "for_collect (clone_entry os) 0 (?L - 1) = Inr (map (\<lambda>j. ?e (cloneInfos os ! j)) [0..<?L - 1])"
      using for_collect_all [of 0 "?L - 1" "clone_entry os" "\<lambda>j. ?e (cloneInfos os ! j)"] ent by simp
    moreover have "map (\<lambda>j. ?e (cloneInfos os ! j)) [0..<?L - 1] = map ?e (butlast (cloneInfos os))"
      by (rule nth_equalityI) (simp_all add: nth_butlast)
    ultimately show ?thesis by simp
  qed
  have hd: "head_entry os = Inr ?h"
    using False L by (simp add: head_entry_def n1 array_at_def last_conv_nth)
  have sq: "\<exists>sq. (if 2 \<le> cloneInfoNum os
      then map_sum id CI_cloneid (array_at (cloneInfos os) (unat (cloneInfoNum os - 2))) else Inr 0) = Inr sq"
  proof (cases "2 \<le> cloneInfoNum os")
    case True
    have "unat (cloneInfoNum os - 2) < ?L"
      using True n L by (simp add: unat_sub)
    with True show ?thesis by (simp add: array_at_def)
  qed simp
  then obtain sq :: u32 where "list_snaps_response os = Inr \<lparr>resp_clones = map ?e (butlast (cloneInfos os)) @ [?h], resp_seq = ucast sq\<rparr>"
    using cs hd n1 by (auto simp: list_snaps_response_def)
  moreover have "map (ucast \<circ> CI_objSize) (butlast (cloneInfos os)) @ [ucast (CI_objSize (last (cloneInfos os)))] =
      map (ucast \<circ> CI_objSize :: _ \<Rightarrow> u64) (cloneInfos os)"
    using arg_cong [OF append_butlast_last_id [OF False], of "map (ucast \<circ> CI_objSize :: _ \<Rightarrow> u64)"] by simp
  ultimately show ?thesis using False L by (simp add: comp_def)
qed

theorem list_snaps_entries_witness:
  "list_snaps_response \<lparr>os_seq = 0, cloneInfoNum = 0, cloneInfos = []\<rparr> = Inl OutOfBounds"
  using list_snaps_entries [of "\<lparr>os_seq = 0, cloneInfoNum = 0, cloneInfos = []\<rparr>"] by simp

end
