(* ===== verification/Throttle.thy ===== *)
theory Throttle
  imports Prelude
begin

text \<open>
  The admission counters of \<open>server_adaptor/network_module.cpp\<close>: operations in flight
  (\<open>lwtCount\<close>), write and read operations, and write and read bandwidth.

  The first part has every \<open>Get...\<close> and \<open>Put...\<close> function as it runs when nobody interferes between
  its load and its compare-and-swap; the values a waiting thread samples while it sleeps are an argument. The second
  part is the compare-and-swap loop itself as a step relation over any number of threads,
  and the theorems about it hold for every interleaving.
\<close>

section \<open>The counters\<close>

record counters =
  lwtCount :: u64
  lwtWriteCount :: u64
  lwtReadCount :: u64
  writeBW :: u64
  readBW :: u64

text \<open>
  The sleeping loop of the \<open>Get...Cas\<close> functions: \<open>samples\<close> are the counter and limit values read
  after each 10 ms sleep. The result is the number of sleeps, \<open>None\<close> while the thread still waits. With \<open>zero_exits\<close> a
  limit of 0 ends the loop.
\<close>

fun throttle_wait :: "bool \<Rightarrow> u64 \<Rightarrow> u64 \<Rightarrow> (u64 \<times> u64) list \<Rightarrow> nat option" where
  "throttle_wait zero_exits old limit samples =
     (if old \<le> limit then Some 0
      else case samples of
             [] \<Rightarrow> None
           | (n, limit') # rest \<Rightarrow>
               if zero_exits \<and> limit' = 0 then Some 1
               else map_option Suc (throttle_wait zero_exits n limit' rest))"

declare throttle_wait.simps [simp del]

subsection \<open>Operations in flight\<close>

text \<open>
  The mutex versions hold the lock through a \<open>unique_lock\<close> and call its \<open>lock()\<close> again in the
  waiting loop, which throws \<open>std::system_error\<close>.
\<close>

definition Getlwt :: "u64 \<Rightarrow> u32 \<Rightarrow> counters \<Rightarrow> fault + counters" where
  "Getlwt saOpThrottle c q =
     (if saOpThrottle = 0 then Inr q
      else let q' = q\<lparr>lwtCount := lwtCount q + ucast c\<rparr>
           in if saOpThrottle < lwtCount q' then Inl UncaughtException else Inr q')"

definition Putlwt :: "u64 \<Rightarrow> counters \<Rightarrow> counters" where
  "Putlwt saOpThrottle q = (if saOpThrottle = 0 then q else q\<lparr>lwtCount := lwtCount q - 1\<rparr>)"

definition GetlwtCas :: "u64 \<Rightarrow> u32 \<Rightarrow> u64 list \<Rightarrow> counters \<Rightarrow> counters \<times> nat option" where
  "GetlwtCas saOpThrottle c samples q =
     (if saOpThrottle = 0 then (q, Some 0)
      else (q\<lparr>lwtCount := lwtCount q + ucast c\<rparr>,
            throttle_wait False (lwtCount q) saOpThrottle (map (\<lambda>n. (n, saOpThrottle)) samples)))"

definition PutlwtCas :: "u64 \<Rightarrow> counters \<Rightarrow> counters" where
  "PutlwtCas saOpThrottle q = (if saOpThrottle = 0 then q else q\<lparr>lwtCount := lwtCount q - 1\<rparr>)"

subsection \<open>Write and read operations\<close>

definition GetWritelwt :: "u64 \<Rightarrow> u32 \<Rightarrow> counters \<Rightarrow> fault + counters" where
  "GetWritelwt writeOpThrottle c q =
     (if writeOpThrottle = 0 then Inr q
      else let q' = q\<lparr>lwtWriteCount := lwtWriteCount q + ucast c\<rparr>
           in if writeOpThrottle < lwtWriteCount q' then Inl UncaughtException else Inr q')"

definition PutWritelwt :: "counters \<Rightarrow> counters" where
  "PutWritelwt q = (if lwtWriteCount q = 0 then q else q\<lparr>lwtWriteCount := lwtWriteCount q - 1\<rparr>)"

definition GetWritelwtCas :: "u64 \<Rightarrow> u32 \<Rightarrow> (u64 \<times> u64) list \<Rightarrow> counters \<Rightarrow> counters \<times> nat option" where
  "GetWritelwtCas writeOpThrottle c samples q =
     (q\<lparr>lwtWriteCount := lwtWriteCount q + ucast c\<rparr>,
      if writeOpThrottle = 0 then Some 0 else throttle_wait True (lwtWriteCount q) writeOpThrottle samples)"

definition PutWritelwtCas :: "counters \<Rightarrow> counters" where
  "PutWritelwtCas q = (if lwtWriteCount q = 0 then q else q\<lparr>lwtWriteCount := lwtWriteCount q - 1\<rparr>)"

definition GetReadlwt :: "u64 \<Rightarrow> u32 \<Rightarrow> counters \<Rightarrow> fault + counters" where
  "GetReadlwt readOpThrottle c q =
     (if readOpThrottle = 0 then Inr q
      else let q' = q\<lparr>lwtReadCount := lwtReadCount q + ucast c\<rparr>
           in if readOpThrottle < lwtReadCount q' then Inl UncaughtException else Inr q')"

definition PutReadlwt :: "counters \<Rightarrow> counters" where
  "PutReadlwt q = (if lwtReadCount q = 0 then q else q\<lparr>lwtReadCount := lwtReadCount q - 1\<rparr>)"

definition GetReadlwtCas :: "u64 \<Rightarrow> u32 \<Rightarrow> (u64 \<times> u64) list \<Rightarrow> counters \<Rightarrow> counters \<times> nat option" where
  "GetReadlwtCas readOpThrottle c samples q =
     (q\<lparr>lwtReadCount := lwtReadCount q + ucast c\<rparr>,
      if readOpThrottle = 0 then Some 0 else throttle_wait True (lwtReadCount q) readOpThrottle samples)"

definition PutReadlwtCas :: "counters \<Rightarrow> counters" where
  "PutReadlwtCas q = (if lwtReadCount q = 0 then q else q\<lparr>lwtReadCount := lwtReadCount q - 1\<rparr>)"

subsection \<open>Bandwidth\<close>

text \<open>\<open>PutWriteBW\<close> guards with \<open>writeBW == 0\<close>, unlike the other three \<open>Put...BW\<close> functions.\<close>

definition GetWriteBW :: "u64 \<Rightarrow> u64 \<Rightarrow> counters \<Rightarrow> fault + counters" where
  "GetWriteBW writeBWThrottle c q =
     (if writeBWThrottle = 0 then Inr q
      else let q' = q\<lparr>writeBW := writeBW q + c\<rparr>
           in if writeBWThrottle < writeBW q' then Inl UncaughtException else Inr q')"

definition PutWriteBW :: "u64 \<Rightarrow> counters \<Rightarrow> counters" where
  "PutWriteBW c q = (if writeBW q = 0 then q else q\<lparr>writeBW := writeBW q - c\<rparr>)"

definition GetWriteBWCas :: "u64 \<Rightarrow> u64 \<Rightarrow> (u64 \<times> u64) list \<Rightarrow> counters \<Rightarrow> counters \<times> nat option" where
  "GetWriteBWCas writeBWThrottle c samples q =
     (q\<lparr>writeBW := writeBW q + c\<rparr>,
      if writeBWThrottle = 0 then Some 0 else throttle_wait True (writeBW q) writeBWThrottle samples)"

definition PutWriteBWCas :: "u64 \<Rightarrow> counters \<Rightarrow> counters" where
  "PutWriteBWCas c q = (if writeBW q < c then q else q\<lparr>writeBW := writeBW q - c\<rparr>)"

definition GetReadBW :: "u64 \<Rightarrow> u64 \<Rightarrow> counters \<Rightarrow> fault + counters" where
  "GetReadBW readBWThrottle c q =
     (if readBWThrottle = 0 then Inr q
      else let q' = q\<lparr>readBW := readBW q + c\<rparr>
           in if readBWThrottle < readBW q' then Inl UncaughtException else Inr q')"

definition PutReadBW :: "u64 \<Rightarrow> counters \<Rightarrow> counters" where
  "PutReadBW c q = (if readBW q < c then q else q\<lparr>readBW := readBW q - c\<rparr>)"

definition GetReadBWCas :: "u64 \<Rightarrow> u64 \<Rightarrow> (u64 \<times> u64) list \<Rightarrow> counters \<Rightarrow> counters \<times> nat option" where
  "GetReadBWCas readBWThrottle c samples q =
     (q\<lparr>readBW := readBW q + c\<rparr>,
      if readBWThrottle = 0 then Some 0 else throttle_wait True (readBW q) readBWThrottle samples)"

definition PutReadBWCas :: "u64 \<Rightarrow> counters \<Rightarrow> counters" where
  "PutReadBWCas c q = (if readBW q < c then q else q\<lparr>readBW := readBW q - c\<rparr>)"

section \<open>The compare-and-swap loops of many threads\<close>

text \<open>
  A thread runs one \<open>Get\<close> or one guarded \<open>Put\<close> of an amount. \<open>CasStart\<close> is the point before the guard
  (for a \<open>Put\<close>) or before the load (for a \<open>Get\<close>), \<open>CasChecked\<close> the point between guard and load of a \<open>Put\<close>,
  \<open>CasLoaded old\<close> the point before the compare-and-swap. A \<open>Put\<close> that its guard ends has changed nothing.
\<close>

datatype cas_op = CasGet u64 | CasPut u64

datatype cas_pc = CasStart | CasChecked | CasLoaded u64 | CasDone | CasGaveUp

type_synonym cas_state = "u64 \<times> (cas_op \<times> cas_pc) list"

definition cas_next :: "u64 \<Rightarrow> cas_op \<Rightarrow> cas_pc \<Rightarrow> u64 \<times> cas_pc" where
  "cas_next n op pc =
     (case pc of
        CasStart \<Rightarrow>
          (case op of
             CasGet c \<Rightarrow> (n, CasLoaded n)
           | CasPut c \<Rightarrow> if n < c then (n, CasGaveUp) else (n, CasChecked))
      | CasChecked \<Rightarrow> (n, CasLoaded n)
      | CasLoaded old \<Rightarrow>
          if n = old then ((case op of CasGet c \<Rightarrow> old + c | CasPut c \<Rightarrow> old - c), CasDone)
          else (n, CasStart)
      | CasDone \<Rightarrow> (n, CasDone)
      | CasGaveUp \<Rightarrow> (n, CasGaveUp))"

inductive cas_step :: "cas_state \<Rightarrow> cas_state \<Rightarrow> bool" where
  cas_thread: "i < length ts \<Longrightarrow> ts ! i = (op, pc) \<Longrightarrow> cas_next n op pc = (n', pc') \<Longrightarrow>
     cas_step (n, ts) (n', ts[i := (op, pc')])"

inductive_cases cas_stepE: "cas_step (n, ts) s'"

text \<open>The part of a thread's amount that has been added or subtracted.\<close>

definition gets_done :: "(cas_op \<times> cas_pc) list \<Rightarrow> nat" where
  "gets_done ts = sum_list (map (\<lambda>(op, pc). case op of CasGet c \<Rightarrow> if pc = CasDone then unat c else 0 | CasPut c \<Rightarrow> 0) ts)"

definition puts_done :: "(cas_op \<times> cas_pc) list \<Rightarrow> nat" where
  "puts_done ts = sum_list (map (\<lambda>(op, pc). case op of CasPut c \<Rightarrow> if pc = CasDone then unat c else 0 | CasGet c \<Rightarrow> 0) ts)"

definition total_gets :: "cas_op list \<Rightarrow> nat" where
  "total_gets ops = sum_list (map (\<lambda>op. case op of CasGet c \<Rightarrow> unat c | CasPut c \<Rightarrow> 0) ops)"

definition total_puts :: "cas_op list \<Rightarrow> nat" where
  "total_puts ops = sum_list (map (\<lambda>op. case op of CasPut c \<Rightarrow> unat c | CasGet c \<Rightarrow> 0) ops)"

definition cas_init :: "cas_op list \<Rightarrow> (cas_op \<times> cas_pc) list" where
  "cas_init ops = map (\<lambda>op. (op, CasStart)) ops"

lemma sum_list_update_nat:
  "i < length xs \<Longrightarrow> sum_list (map f (xs[i := y])) + f (xs ! i) = sum_list (map f xs) + (f y :: nat)"
proof (induction xs arbitrary: i)
  case (Cons x xs)
  then show ?case by (cases i) auto
qed simp

lemma cas_next_done:
  assumes "cas_next n op pc = (n', pc')"
  shows "(pc' = CasDone \<and> pc \<noteq> CasDone \<and>
            n' = (case op of CasGet c \<Rightarrow> n + c | CasPut c \<Rightarrow> n - c)) \<or>
         (n' = n \<and> (pc' = CasDone \<longleftrightarrow> pc = CasDone))"
  using assms by (auto simp: cas_next_def split: cas_pc.splits cas_op.splits if_splits)

text \<open>No update is lost: the counter is the initial value plus what was added minus what was subtracted.\<close>

lemma cas_step_sum:
  assumes "cas_step (n, ts) (n', ts')"
  shows "n' + of_nat (puts_done ts') + of_nat (gets_done ts) = n + of_nat (gets_done ts') + of_nat (puts_done ts)"
proof -
  obtain i op pc pc' where cas_thread: "i < length ts" "ts ! i = (op, pc)" "ts' = ts[i := (op, pc')]"
    "cas_next n op pc = (n', pc')"
    using assms by (auto elim: cas_stepE)
  let ?g = "\<lambda>(op, pc). case op of CasGet c \<Rightarrow> if pc = CasDone then unat c else 0 | CasPut c \<Rightarrow> (0 :: nat)"
  let ?p = "\<lambda>(op, pc). case op of CasPut c \<Rightarrow> if pc = CasDone then unat c else 0 | CasGet c \<Rightarrow> (0 :: nat)"
  have g: "gets_done ts' + ?g (op, pc) = gets_done ts + ?g (op, pc')"
    using sum_list_update_nat [of i ts ?g "(op, pc')"] cas_thread by (simp add: gets_done_def)
  have p: "puts_done ts' + ?p (op, pc) = puts_done ts + ?p (op, pc')"
    using sum_list_update_nat [of i ts ?p "(op, pc')"] cas_thread by (simp add: puts_done_def)
  note gw = arg_cong [OF g, of "of_nat :: nat \<Rightarrow> u64"] and pw = arg_cong [OF p, of "of_nat :: nat \<Rightarrow> u64"]
  show ?thesis
    using cas_next_done [OF cas_thread(4)] gw pw
    by (cases op) (auto simp: algebra_simps split: if_splits)
qed

lemma cas_ops_fixed: "cas_step s s' \<Longrightarrow> map fst (snd s') = map fst (snd s)"
  by (induction rule: cas_step.induct) (auto simp: map_update list_update_same_conv)

lemma cas_reach_ops: "cas_step\<^sup>*\<^sup>* s s' \<Longrightarrow> map fst (snd s') = map fst (snd s)"
  by (induction rule: rtranclp_induct) (auto dest: cas_ops_fixed)

lemma gets_done_init [simp]: "gets_done (cas_init ops) = 0"
  by (induction ops) (auto simp: gets_done_def cas_init_def split: cas_op.splits)

lemma puts_done_init [simp]: "puts_done (cas_init ops) = 0"
  by (induction ops) (auto simp: puts_done_def cas_init_def split: cas_op.splits)

lemma cas_reach_sum:
  assumes "cas_step\<^sup>*\<^sup>* (n0, cas_init ops) (n, ts)"
  shows "n = n0 + of_nat (gets_done ts) - of_nat (puts_done ts)"
  using assms
proof (induction "(n, ts)" arbitrary: n ts rule: rtranclp_induct)
  case base
  then show ?case by simp
next
  case (step y)
  obtain m us where y: "y = (m, us)" by fastforce
  have "m = n0 + of_nat (gets_done us) - of_nat (puts_done us)" using step.hyps(3) y by simp
  moreover have "n = m + of_nat (gets_done ts) + of_nat (puts_done us) - of_nat (gets_done us) - of_nat (puts_done ts)"
    using cas_step_sum [of m us n ts] step.hyps(2) y by (simp add: eq_diff_eq add_ac)
  ultimately show ?case by simp
qed

lemma gets_done_le: "gets_done ts \<le> total_gets (map fst ts)"
  by (induction ts) (auto simp: gets_done_def total_gets_def split: cas_op.splits)

lemma puts_done_le: "puts_done ts \<le> total_puts (map fst ts)"
  by (induction ts) (auto simp: puts_done_def total_puts_def split: cas_op.splits)

lemma puts_done_open:
  "i < length ts \<Longrightarrow> ts ! i = (CasPut c, pc) \<Longrightarrow> pc \<noteq> CasDone \<Longrightarrow> puts_done ts + unat c \<le> total_puts (map fst ts)"
proof (induction ts arbitrary: i)
  case (Cons t ts)
  obtain op' pc' where t: "t = (op', pc')" by fastforce
  show ?case
  proof (cases i)
    case 0
    then show ?thesis
      using Cons.prems t puts_done_le [of ts] by (simp add: puts_done_def total_puts_def)
  next
    case (Suc j)
    then have "puts_done ts + unat c \<le> total_puts (map fst ts)" using Cons by simp
    then show ?thesis using t by (cases op') (simp_all add: puts_done_def total_puts_def)
  qed
qed simp

section \<open>Properties\<close>

text \<open>
  C32: For any number of threads that add to and subtract from a counter through the
  compare-and-swap loops, in every interleaving no update is lost or applied twice: the counter is
  the initial value plus the amounts of the finished \<open>Get\<close>s minus those of the finished \<open>Put\<close>s,
  modulo \<open>2^64\<close>.
\<close>

theorem cas_no_lost_update:
  assumes "cas_step\<^sup>*\<^sup>* (n0, cas_init ops) (n, ts)"
  shows "n = n0 + of_nat (gets_done ts) - of_nat (puts_done ts) \<and> map fst ts = ops"
  using cas_reach_sum [OF assms] cas_reach_ops [OF assms] by (simp add: cas_init_def comp_def)

lemma cas_run_one:
  "cas_step\<^sup>*\<^sup>* (n, [(CasGet c, CasStart)]) (n + c, [(CasGet c, CasDone)])"
proof -
  have "cas_step (n, [(CasGet c, CasStart)]) (n, [(CasGet c, CasLoaded n)])"
    using cas_thread [of 0 "[(CasGet c, CasStart)]" "CasGet c" CasStart n n "CasLoaded n"] by (simp add: cas_next_def)
  moreover have "cas_step (n, [(CasGet c, CasLoaded n)]) (n + c, [(CasGet c, CasDone)])"
    using cas_thread [of 0 "[(CasGet c, CasLoaded n)]" "CasGet c" "CasLoaded n" n "n + c" CasDone]
    by (simp add: cas_next_def)
  ultimately show ?thesis by (rule converse_rtranclp_into_rtranclp [OF _ r_into_rtranclp])
qed

theorem cas_no_lost_update_witness:
  "cas_step\<^sup>*\<^sup>* (5, cas_init [CasGet 3]) (8, [(CasGet 3, CasDone)]) \<and>
   (8 :: u64) = 5 + of_nat (gets_done [(CasGet 3, CasDone)]) - of_nat (puts_done [(CasGet 3, CasDone)])"
proof -
  have r: "cas_step\<^sup>*\<^sup>* (5, cas_init [CasGet 3]) (8, [(CasGet 3, CasDone)])"
    using cas_run_one [of 5 3] by (simp add: cas_init_def)
  show ?thesis using cas_no_lost_update [OF r] by (intro conjI r) simp
qed

text \<open>
  When the amounts still to be returned are covered by the counter and the additions do not
  overflow, the guard of a \<open>Put\<close> never fires and the counter never wraps: in every interleaving the
  counter is, as a natural number, the initial value plus the finished \<open>Get\<close>s minus the finished \<open>Put\<close>s,
  and no thread gives up.
\<close>

theorem cas_disciplined:
  assumes reach: "cas_step\<^sup>*\<^sup>* (n0, cas_init ops) (n, ts)"
    and room: "unat n0 + total_gets ops < 2 ^ 64" and covered: "total_puts ops \<le> unat n0"
  shows "unat n = unat n0 + gets_done ts - puts_done ts \<and> CasGaveUp \<notin> snd ` set ts"
proof -
  have exact: "unat m = unat n0 + gets_done us - puts_done us" "puts_done us \<le> unat n0"
    if r: "cas_step\<^sup>*\<^sup>* (n0, cas_init ops) (m, us)" for m us
  proof -
    have ops: "map fst us = ops" using cas_reach_ops [OF r] by (simp add: cas_init_def comp_def)
    have le: "puts_done us \<le> unat n0" "unat n0 + gets_done us < 2 ^ 64"
      using puts_done_le [of us] gets_done_le [of us] ops room covered by auto
    have "m = of_nat (unat n0 + gets_done us - puts_done us)"
      using cas_reach_sum [OF r] le by (simp add: of_nat_diff)
    moreover have "unat n0 + gets_done us - puts_done us < 2 ^ 64" using le by simp
    ultimately show "unat m = unat n0 + gets_done us - puts_done us" by (simp add: unat_of_nat)
    show "puts_done us \<le> unat n0" by (rule le)
  qed
  have "CasGaveUp \<notin> snd ` set ts"
    using reach
  proof (induction "(n, ts)" arbitrary: n ts rule: rtranclp_induct)
    case base
    then show ?case by (auto simp: cas_init_def)
  next
    case (step y)
    obtain m us where y: "y = (m, us)" by fastforce
    have r: "cas_step\<^sup>*\<^sup>* (n0, cas_init ops) (m, us)" using step.hyps(1) y by simp
    obtain i op pc pc' where st: "i < length us" "us ! i = (op, pc)" "ts = us[i := (op, pc')]"
        "cas_next m op pc = (n, pc')"
      using step.hyps(2) y by (auto elim: cas_stepE)
    have "pc' \<noteq> CasGaveUp"
    proof
      assume g: "pc' = CasGaveUp"
      have "pc \<noteq> CasGaveUp" using step.hyps(3) y st(1,2) by (force simp: in_set_conv_nth)
      then obtain c where c: "op = CasPut c" "pc = CasStart" "m < c"
        using st(4) g by (auto simp: cas_next_def split: cas_pc.splits cas_op.splits if_splits)
      have "puts_done us + unat c \<le> total_puts ops"
        using puts_done_open [of i us c pc] st(1,2) c cas_reach_ops [OF r] by (simp add: cas_init_def comp_def)
      then have "unat c \<le> unat m" using exact [OF r] covered by simp
      then show False using c(3) by (simp add: word_less_nat_alt)
    qed
    then show ?case
      using step.hyps(3) y st(3) by (auto dest!: set_update_subset_insert [THEN subsetD])
  qed
  then show ?thesis using exact [OF reach] by simp
qed

theorem cas_disciplined_witness:
  "cas_step\<^sup>*\<^sup>* (5, cas_init [CasGet 3]) (8, [(CasGet 3, CasDone)]) \<and>
   unat (8 :: u64) = 5 + gets_done [(CasGet 3, CasDone)] - puts_done [(CasGet 3, CasDone)]"
proof -
  have r: "cas_step\<^sup>*\<^sup>* (5, cas_init [CasGet 3]) (8, [(CasGet 3, CasDone)])"
    using cas_run_one [of 5 3] by (simp add: cas_init_def)
  then show ?thesis using cas_disciplined [OF r] by (simp add: total_gets_def total_puts_def)
qed

section \<open>Waiting\<close>

text \<open>A waiting thread leaves at the first sample that is within the limit.\<close>

lemma throttle_wait_leaves:
  assumes "k < length samples" and "fst (samples ! k) \<le> snd (samples ! k)"
  shows "\<exists>m \<le> Suc k. throttle_wait z old limit samples = Some m"
  using assms
proof (induction samples arbitrary: old limit k)
  case (Cons s rest)
  obtain n l where s: "s = (n, l)" by fastforce
  show ?case
  proof (cases "old \<le> limit \<or> (z \<and> l = 0)")
    case True
    then show ?thesis using s by (subst throttle_wait.simps) auto
  next
    case False
    show ?thesis
    proof (cases k)
      case 0
      then have "throttle_wait z n l rest = Some 0" using Cons.prems(2) s by (simp add: throttle_wait.simps)
      then show ?thesis using False s by (subst throttle_wait.simps) auto
    next
      case (Suc j)
      then obtain m where "m \<le> Suc j" "throttle_wait z n l rest = Some m"
        using Cons.IH [of j n l] Cons.prems by auto
      then show ?thesis using False s Suc by (subst throttle_wait.simps) auto
    qed
  qed
qed simp

text \<open>The mutex versions fail exactly where the compare-and-swap versions wait.\<close>

lemma Getlwt_throws: "saOpThrottle \<noteq> 0 \<Longrightarrow> saOpThrottle < lwtCount q + ucast c \<Longrightarrow> Getlwt saOpThrottle c q = Inl UncaughtException"
  by (simp add: Getlwt_def)

end
