(* ===== verification/Process_Op.thy ===== *)
theory Process_Op
  imports Encode_Reply Throttle
begin

text \<open>
  One client message on its way through \<open>server_adaptor/network_module.cpp\<close>: \<open>ProcessOpReq\<close> turns
  a \<open>MOSDOp\<close> into the cache's \<open>SaOpReq\<close> (\<open>dependency/include/sa_def.h\<close>), including the
  identity of an RBD data object that it reads from the object's name; the handler then takes the admission counters
  (\<open>admit\<close>), and \<open>FinishCacheOps\<close> sends the reply and gives them back.

  The state \<open>Net\<close> has the counters, the replies sent and the messages released. The rest of a message and
  the fields of \<open>RbdObjid\<close> that the code never initialises are arguments.
\<close>

unbundle bit_operations_syntax

section \<open>Requests\<close>

abbreviation GCACHE_DEFAULT :: u32 where "GCACHE_DEFAULT \<equiv> 0"
abbreviation GCACHE_WRITE :: u32 where "GCACHE_WRITE \<equiv> 1"
abbreviation GCACHE_READ :: u32 where "GCACHE_READ \<equiv> 2"

record SaOpReq =
  vecOps :: "OpRequestOps list"
  rq_optionType :: u32
  rq_optionLength :: u64
  rq_opType :: u64
  rq_snapId :: u64
  rq_tid :: int
  opsSequence :: u64
  ptrMosdop :: "MOSDOp option"
  ptId :: u32
  rq_poolId :: u64
  rq_ts :: u64
  snapSeq :: u64
  rq_snaps :: "u64 list"
  exitsCopyUp :: int
  rq_copyupFlag :: bool
  ptVersion :: u64

definition new_SaOpReq :: SaOpReq where
  "new_SaOpReq = \<lparr>vecOps = [], rq_optionType = 0, rq_optionLength = 0, rq_opType = 0, rq_snapId = 0, rq_tid = 0,
     opsSequence = 0, ptrMosdop = None, ptId = 0, rq_poolId = 0, rq_ts = 0, snapSeq = 0, rq_snaps = [],
     exitsCopyUp = 0, rq_copyupFlag = False, ptVersion = 0\<rparr>"

text \<open>The assignment operator and the copy constructor, neither of which mentions \<open>vecOps\<close>.\<close>

definition SaOpReq_assign :: "SaOpReq \<Rightarrow> SaOpReq \<Rightarrow> SaOpReq" where
  "SaOpReq_assign self other =
     self\<lparr>rq_optionType := rq_optionType other, rq_optionLength := rq_optionLength other,
          rq_opType := rq_opType other, rq_snapId := rq_snapId other, opsSequence := opsSequence other,
          ptrMosdop := ptrMosdop other, rq_tid := rq_tid other, ptId := ptId other, rq_poolId := rq_poolId other,
          rq_ts := rq_ts other, snapSeq := snapSeq other, rq_snaps := rq_snaps other,
          exitsCopyUp := exitsCopyUp other, rq_copyupFlag := rq_copyupFlag other, ptVersion := ptVersion other\<rparr>"

definition SaOpReq_copy :: "SaOpReq \<Rightarrow> SaOpReq" where
  "SaOpReq_copy other = SaOpReq_assign new_SaOpReq other"

section \<open>Replies\<close>

record Net =
  nt_counters :: counters
  nt_replies :: "(MOSDOp \<times> int) list"
  nt_released :: "int list"

definition FinishCacheOps :: "u64 \<Rightarrow> bool \<Rightarrow> MOSDOp option \<Rightarrow> u32 \<Rightarrow> u64 \<Rightarrow> int \<Rightarrow> Net \<Rightarrow> Net" where
  "FinishCacheOps throttle has_module op optionType optionLength r s =
     (case op of
        None \<Rightarrow> s
      | Some ptr \<Rightarrow>
          let s1 = s\<lparr>nt_replies := nt_replies s @ [(ptr, r)], nt_released := nt_released s @ [mo_tid ptr]\<rparr>
          in if has_module then
               let q = nt_counters s1;
                   q1 = (if optionType = GCACHE_WRITE then PutWritelwtCas (PutWriteBWCas optionLength q) else q);
                   q2 = (if optionType = GCACHE_READ then PutReadlwtCas (PutReadBWCas optionLength q1) else q1)
               in s1\<lparr>nt_counters := PutlwtCas throttle q2\<rparr>
             else s1)"

section \<open>Names of RBD data objects\<close>

definition rbd_sections :: "string \<Rightarrow> string list" where
  "rbd_sections name = strtok (CHR ''.'') (c_str name)"

text \<open>
  The identity of an object, from the sections of its name; \<open>None\<close> is the early return for a pool number of
  more than 32 bits. \<open>seq\<close> is a bit field of 40 bits.
\<close>

definition rbd_objid :: "string list \<Rightarrow> RbdObjid \<Rightarrow> RbdObjid option" where
  "rbd_objid vecObj junk =
     (let n = length vecObj;
          oid = junk\<lparr>rbd_head := strtoull 16 (CHR ''1'' # vecObj ! (n - 2)),
                     rbd_seq := take_bit 40 (strtoull 16 (vecObj ! (n - 1))),
                     rbd_version := 1, rbd_format := 0, rbd_poolId := 0, rbd_reserve := 0\<rparr>
      in if 3 < n then
           (let p = strtoull 10 (vecObj ! (n - 3))
            in if 0 < drop_bit 32 p then None else Some (oid\<lparr>rbd_poolId := ucast p, rbd_format := 1\<rparr>))
         else Some oid)"

section \<open>From message to request\<close>

definition fresh_op :: "string \<Rightarrow> bool \<Rightarrow> RbdObjid \<Rightarrow> OpRequestOps" where
  "fresh_op name rbd oid = blank_req\<lparr>objName := c_str name, isRbd := rbd, rbdObjId := oid\<rparr>"

fun convert_ops ::
    "codec \<Rightarrow> RbdObjid \<Rightarrow> string \<Rightarrow> bool \<Rightarrow> string list \<Rightarrow> OSDOp list \<Rightarrow> SaOpReq \<Rightarrow> OptionsType \<Rightarrow> OptionsLength
      \<Rightarrow> fault + SaOpReq \<times> (OptionsType \<times> OptionsLength) option" where
  "convert_ops c junk name rbd vecObj [] opreq ot ol = Inr (opreq, Some (ot, ol))"
| "convert_ops c junk name rbd vecObj (i # ops) opreq ot ol =
     (case (if rbd then rbd_objid vecObj junk else Some junk) of
        None \<Rightarrow> Inr (opreq, None)
      | Some oid \<Rightarrow>
          (case ConvertClientopToOpreq c i (fresh_op name rbd oid) ot ol of
             Inl f \<Rightarrow> Inl f
           | Inr (exists_copy_up, oneOp, ot', ol') \<Rightarrow>
               convert_ops c junk name rbd vecObj ops
                 (opreq\<lparr>exitsCopyUp := (if exists_copy_up = 1 then 1 else exitsCopyUp opreq),
                        vecOps := vecOps opreq @ [oneOp]\<rparr>) ot' ol'))"

definition fill_request :: "MOSDOp \<Rightarrow> SaOpReq \<Rightarrow> SaOpReq" where
  "fill_request op opreq =
     opreq\<lparr>rq_opType := 0, rq_tid := mo_tid op, rq_snapId := mo_snapid op,
           rq_poolId := mo_pool op AND 0xFFFFFFFF, ptVersion := drop_bit 32 (mo_pool op),
           opsSequence := mo_seq op, ptrMosdop := Some op, ptId := mo_seed op, snapSeq := mo_snap_seq op,
           rq_snaps := rq_snaps opreq @ mo_snaps op\<rparr>"

definition ProcessOpReq ::
    "codec \<Rightarrow> RbdObjid \<Rightarrow> u64 \<Rightarrow> bool \<Rightarrow> MOSDOp list \<Rightarrow> u64 list \<Rightarrow> SaOpReq \<Rightarrow> Net
      \<Rightarrow> fault + int \<times> MOSDOp list \<times> u64 list \<times> SaOpReq \<times> Net" where
  "ProcessOpReq c junk throttle has_module dealQueue periodTs opreq s =
     (case (dealQueue, periodTs) of
        (op # dq, pts # pq) \<Rightarrow>
          let r = fill_request op opreq;
              vecObj = rbd_sections (mo_oid op);
              rbd = (vecObj \<noteq> [] \<and> hd vecObj = ''rbd_data'')
          in if rbd \<and> \<not> 3 \<le> length vecObj then
               Inr (1, dq, pq, r,
                    FinishCacheOps throttle has_module (Some op) (rq_optionType r) (rq_optionLength r) (- EINVAL) s)
             else
               (case convert_ops c junk (mo_oid op) rbd vecObj (mo_ops op) r
                       \<lparr>ot_write = 0, ot_read = 0\<rparr> \<lparr>ol_write = 0, ol_read = 0\<rparr> of
                  Inl f \<Rightarrow> Inl f
                | Inr (r', None) \<Rightarrow> Inr (- 1, dq, pq, r', s)
                | Inr (r', Some (ot, ol)) \<Rightarrow>
                    Inr (0, dq, pq,
                         (if ot_write ot = 0
                          then r'\<lparr>rq_optionType := GCACHE_READ, rq_optionLength := ol_read ol\<rparr>
                          else r'\<lparr>rq_optionType := GCACHE_WRITE, rq_optionLength := ol_write ol\<rparr>), s))
      | _ \<Rightarrow> Inl OutOfBounds)"

record QosParam =
  limitWrite :: u32
  getQuotaCycle :: u32
  enableThrottle :: u32
  saOpThrottle :: u64

text \<open>What the cache answers when it is asked for its limits (\<open>sa->Get...Throttle()\<close>).\<close>

record cache_limits =
  writeOpThrottle :: u64
  writeBWThrottle :: u64
  readOpThrottle :: u64
  readBWThrottle :: u64

text \<open>
  The counters the handler takes before it hands a request to the cache. Each call may have to wait; \<open>smp k\<close> are
  the values the \<open>k\<close>-th call samples while it sleeps, and \<open>None\<close> says that the handler is still
  waiting in one of them, the later counters not yet taken.
\<close>

definition and_then :: "counters \<times> nat option \<Rightarrow> (counters \<Rightarrow> counters \<times> nat option) \<Rightarrow> counters \<times> nat option" where
  "and_then x f = (case x of (q, None) \<Rightarrow> (q, None) | (q, Some n) \<Rightarrow> map_prod id (map_option ((+) n)) (f q))"

definition admit :: "QosParam \<Rightarrow> cache_limits \<Rightarrow> (nat \<Rightarrow> (u64 \<times> u64) list) \<Rightarrow> SaOpReq \<Rightarrow> counters \<Rightarrow> counters \<times> nat option" where
  "admit Q L smp r q =
     and_then (GetlwtCas (saOpThrottle Q) 1 (map fst (smp 0)) q) (\<lambda>q1.
     and_then (if rq_optionType r = GCACHE_WRITE
               then and_then (GetWritelwtCas (writeOpThrottle L) 1 (smp 1) q1)
                      (GetWriteBWCas (writeBWThrottle L) (rq_optionLength r) (smp 2))
               else (q1, Some 0)) (\<lambda>q2.
     if rq_optionType r = GCACHE_READ
     then and_then (GetReadlwtCas (readOpThrottle L) 1 (smp 3) q2)
            (GetReadBWCas (readBWThrottle L) (rq_optionLength r) (smp 4))
     else (q2, Some 0)))"

section \<open>Facts\<close>

lemma SaOpReq_copy_drops_ops: "vecOps (SaOpReq_copy r) = [] \<and> rq_tid (SaOpReq_copy r) = rq_tid r"
  by (simp add: SaOpReq_copy_def SaOpReq_assign_def new_SaOpReq_def)

subsection \<open>Names\<close>

lemma lower_hex_token: "is_lower_hex s \<Longrightarrow> s \<noteq> [] \<Longrightarrow> is_token (CHR ''.'') s"
  by (auto simp: is_token_def is_lower_hex_def list_all_iff Let_def)

lemma digit_char_range: "n < 10 \<Longrightarrow> 48 \<le> (of_char (digit_char n) :: nat) \<and> (of_char (digit_char n) :: nat) \<le> 57"
  by (simp add: digit_char_def)

lemma to_string_lower_hex: "is_lower_hex (to_string n)"
proof (induction n rule: to_string.induct)
  case (1 n)
  then show ?case
    using digit_char_range [of n] digit_char_range [of "n mod 10"]
    by (subst to_string.simps) (auto simp: is_lower_hex_def Let_def)
qed

lemma word_of_unat: "unat w = n \<Longrightarrow> w = of_nat n"
  by auto

lemma unat_of_nat_u64: "n < 2 ^ 64 \<Longrightarrow> unat (of_nat n :: u64) = n"
  by (simp add: unat_of_nat take_bit_nat_eq_self)

lemma ucast_of_nat_u32: "ucast (of_nat p :: u64) = (of_nat p :: u32)"
  by (simp add: bit_eq_iff bit_simps)

lemma strtoull_plain:
  assumes s: "is_lower_hex s" and ne: "s \<noteq> []" and v: "digits_acc b 0 s < 2 ^ 64"
  shows "unat (strtoull b s) = digits_acc b 0 s"
proof -
  obtain ch s' where cs: "s = ch # s'" using ne by (cases s) auto
  have range: "48 \<le> (of_char c :: nat) \<and> (of_char c :: nat) \<le> 57 \<or> 97 \<le> (of_char c :: nat) \<and> (of_char c :: nat) \<le> 102"
    if "c \<in> set s" for c using s that by (auto simp: is_lower_hex_def list_all_iff Let_def)
  have "\<not> isspace_c ch" using range [of ch] cs by (auto simp: isspace_c_def Let_def)
  then have sp: "dropWhile isspace_c s = s" using cs by simp
  have "ch \<noteq> CHR ''-''" "ch \<noteq> CHR ''+''" using range [of ch] cs by auto
  then have sg: "split_sign s = (False, s)" by (simp add: split_sign_def cs)
  have nx: "CHR ''x'' \<notin> set s" "CHR ''X'' \<notin> set s" using range by force+
  have ox: "skip_0x s = s" using nx by (cases s rule: skip_0x.cases) auto
  have "c_str s = s" using lower_hex_no_nul [OF s] by (simp add: c_str_def)
  then show ?thesis using v by (auto simp: strtoull_def sp sg ox Let_def unat_of_nat take_bit_nat_eq_self)
qed

text \<open>The name librbd gives a data object: the image's id and a sequence number, after the pool when it is separate.\<close>

definition rbd_name :: "nat option \<Rightarrow> string \<Rightarrow> string \<Rightarrow> string list" where
  "rbd_name pool iid sq = ''rbd_data'' # (case pool of None \<Rightarrow> [] | Some p \<Rightarrow> [to_string p]) @ [iid, sq]"

definition good_rbd_name :: "nat option \<Rightarrow> string \<Rightarrow> string \<Rightarrow> bool" where
  "good_rbd_name pool iid sq \<longleftrightarrow>
     (case pool of None \<Rightarrow> True | Some p \<Rightarrow> p < 2 ^ 32) \<and>
     is_lower_hex iid \<and> iid \<noteq> [] \<and> length iid \<le> 15 \<and>
     is_lower_hex sq \<and> length sq = 16 \<and> digits_acc 16 0 sq < 2 ^ 40"

lemma c_str_no_nul: "CHR 0x00 \<notin> set s \<Longrightarrow> c_str s = s"
  unfolding c_str_def by (rule takeWhile_eq_all_conv [THEN iffD2]) auto

lemma set_join_with: "set (join_with d ts) \<subseteq> insert d (\<Union> (set ` set ts))"
  by (induction d ts rule: join_with.induct) auto

lemma lower_hex_nul: "is_lower_hex s \<Longrightarrow> CHR 0x00 \<notin> set s"
  by (auto simp: is_lower_hex_def list_all_iff Let_def)

lemma sections_rbd_name:
  assumes "good_rbd_name pool iid sq"
  shows "rbd_sections (join_with (CHR ''.'') (rbd_name pool iid sq)) = rbd_name pool iid sq"
proof -
  have hex: "is_lower_hex iid" "is_lower_hex sq" "iid \<noteq> []" "sq \<noteq> []"
    using assms by (auto simp: good_rbd_name_def)
  have toks: "list_all (is_token (CHR ''.'')) (rbd_name pool iid sq)"
    using hex lower_hex_token to_string_lower_hex
    by (cases pool) (auto simp: rbd_name_def is_token_def [of _ "''rbd_data''"])
  have "CHR 0x00 \<notin> \<Union> (set ` set (rbd_name pool iid sq))"
    using hex lower_hex_nul to_string_lower_hex by (cases pool) (auto simp: rbd_name_def)
  then have "CHR 0x00 \<notin> set (join_with (CHR ''.'') (rbd_name pool iid sq))"
    using set_join_with [of "CHR ''.''" "rbd_name pool iid sq"] by auto
  then show ?thesis by (simp add: rbd_sections_def c_str_no_nul strtok_join [OF toks])
qed

lemma objid_of_name:
  assumes "good_rbd_name pool iid sq"
  shows "rbd_objid (rbd_name pool iid sq) junk = Some
    \<lparr>rbd_poolId = (case pool of None \<Rightarrow> 0 | Some p \<Rightarrow> of_nat p), rbd_head = of_nat (hex1 iid),
     rbd_seq = of_nat (digits_acc 16 0 sq), rbd_format = (case pool of None \<Rightarrow> 0 | Some _ \<Rightarrow> 1),
     rbd_version = 1, rbd_reserve = 0\<rparr>"
proof -
  have g: "is_lower_hex iid" "length iid \<le> 15" "is_lower_hex sq" "sq \<noteq> []" "digits_acc 16 0 sq < 2 ^ 40"
    using assms by (auto simp: good_rbd_name_def)
  have h: "strtoull 16 (CHR ''1'' # iid) = of_nat (hex1 iid)"
    by (rule word_of_unat [OF strtoull_hex1 [OF g(1,2)]])
  have q: "unat (strtoull 16 sq) = digits_acc 16 0 sq"
    using g(5) by (intro strtoull_plain [OF g(3,4)]) simp
  then have q': "strtoull 16 sq = of_nat (digits_acc 16 0 sq)" by (rule word_of_unat)
  have "take_bit 40 (strtoull 16 sq) = of_nat (take_bit 40 (digits_acc 16 0 sq))"
    unfolding q' by (simp add: take_bit_of_nat)
  also have "take_bit 40 (digits_acc 16 0 sq) = digits_acc 16 0 sq"
    using g(5) by (simp add: take_bit_nat_eq_self)
  finally have s: "take_bit 40 (strtoull 16 sq) = of_nat (digits_acc 16 0 sq)" .
  show ?thesis
  proof (cases pool)
    case None
    then show ?thesis by (simp add: rbd_objid_def rbd_name_def h s Let_def)
  next
    case (Some p)
    then have p: "p < 2 ^ 32" using assms by (simp add: good_rbd_name_def)
    have "unat (strtoull 10 (to_string p)) = p"
      using strtoull_plain [OF to_string_lower_hex to_string_not_Nil, of 10 p] to_string_digits [of p] p by simp
    then have pp: "strtoull 10 (to_string p) = of_nat p" by (rule word_of_unat)
    have "unat (drop_bit 32 (of_nat p :: u64)) = 0"
      using p by (simp add: drop_bit_eq_div unat_div_distrib unat_of_nat take_bit_nat_eq_self)
    then have "drop_bit 32 (of_nat p :: u64) = 0" by (simp only: unsigned_eq_0_iff)
    then show ?thesis
      using Some pp h s ucast_of_nat_u32 [of p] by (simp add: rbd_objid_def rbd_name_def Let_def)
  qed
qed

subsection \<open>Classification\<close>

text \<open>The amounts of a message, in units of 1024 bytes, each operation rounded down.\<close>

definition write_amount :: "OSDOp list \<Rightarrow> u64" where
  "write_amount ops = sum_list (map (\<lambda>i. if is_write_op i then ext_length i div 1024 else 0) ops)"

definition read_amount :: "OSDOp list \<Rightarrow> u64" where
  "read_amount ops = sum_list (map (\<lambda>i. if is_read_op i then ext_length i div 1024 else 0) ops)"

definition write_count :: "OSDOp list \<Rightarrow> nat" where
  "write_count ops = length (filter is_write_op ops)"

lemma convert_ops_totals:
  "convert_ops c junk name rbd vecObj ops r ot ol = Inr (r', Some (ot', ol')) \<Longrightarrow>
   length (vecOps r') = length (vecOps r) + length ops \<and>
   ot_write ot' = ot_write ot + of_nat (write_count ops) \<and>
   ol_write ol' = ol_write ol + write_amount ops \<and> ol_read ol' = ol_read ol + read_amount ops"
proof (induction ops arbitrary: r ot ol)
  case (Cons i ops)
  then obtain oid cp oneOp ot1 ol1 where
    conv: "ConvertClientopToOpreq c i (fresh_op name rbd oid) ot ol = Inr (cp, oneOp, ot1, ol1)" and
    rest: "convert_ops c junk name rbd vecObj ops
       (r\<lparr>exitsCopyUp := (if cp = 1 then 1 else exitsCopyUp r), vecOps := vecOps r @ [oneOp]\<rparr>) ot1 ol1 =
       Inr (r', Some (ot', ol'))"
    by (auto split: option.splits sum.splits prod.splits)
  show ?case
    using Cons.IH [OF rest] Convert_options [OF conv]
    by (simp add: write_count_def write_amount_def read_amount_def)
qed (simp add: write_count_def write_amount_def read_amount_def)

lemma convert_ops_frame:
  "convert_ops c junk name rbd vecObj ops r ot ol = Inr (r', x) \<Longrightarrow>
   r' = r\<lparr>exitsCopyUp := exitsCopyUp r', vecOps := vecOps r'\<rparr>"
proof (induction ops arbitrary: r ot ol)
  case (Cons i ops)
  show ?case
  proof (cases "if rbd then rbd_objid vecObj junk else Some junk")
    case None
    then show ?thesis using Cons.prems by simp
  next
    case (Some oid)
    with Cons.prems obtain cp :: int and oneOp ot1 ol1 where
      rest: "convert_ops c junk name rbd vecObj ops
         (r\<lparr>exitsCopyUp := (if cp = 1 then 1 else exitsCopyUp r), vecOps := vecOps r @ [oneOp]\<rparr>) ot1 ol1 = Inr (r', x)"
      by (auto split: sum.splits prod.splits)
    show ?thesis using Cons.IH [OF rest] by (cases r) simp
  qed
qed simp

text \<open>The conversion behind a message that is accepted.\<close>

lemma ProcessOpReq_accepted:
  assumes "ProcessOpReq c junk th hm (op # dq) (pts # pq) opreq s = Inr (0, dq', pq', r, s')"
  obtains r1 ot ol where
    "convert_ops c junk (mo_oid op) (rbd_sections (mo_oid op) \<noteq> [] \<and> hd (rbd_sections (mo_oid op)) = ''rbd_data'')
       (rbd_sections (mo_oid op)) (mo_ops op) (fill_request op opreq)
       \<lparr>ot_write = 0, ot_read = 0\<rparr> \<lparr>ol_write = 0, ol_read = 0\<rparr> = Inr (r1, Some (ot, ol))"
    and "r = (if ot_write ot = 0 then r1\<lparr>rq_optionType := GCACHE_READ, rq_optionLength := ol_read ol\<rparr>
              else r1\<lparr>rq_optionType := GCACHE_WRITE, rq_optionLength := ol_write ol\<rparr>)"
    and "dq' = dq" and "pq' = pq" and "s' = s"
  using assms by (auto simp: ProcessOpReq_def Let_def split: if_splits sum.splits prod.splits option.splits)

lemma accepted_message:
  assumes "ProcessOpReq c junk th hm (op # dq) (pts # pq) opreq s = Inr (0, dq', pq', r, s')"
  shows "ptrMosdop r = Some op" and "s' = s"
proof -
  show "s' = s" by (rule ProcessOpReq_accepted [OF assms])
  show "ptrMosdop r = Some op"
  proof (rule ProcessOpReq_accepted [OF assms])
    fix r1 ot ol
    assume conv: "convert_ops c junk (mo_oid op)
        (rbd_sections (mo_oid op) \<noteq> [] \<and> hd (rbd_sections (mo_oid op)) = ''rbd_data'')
        (rbd_sections (mo_oid op)) (mo_ops op) (fill_request op opreq)
        \<lparr>ot_write = 0, ot_read = 0\<rparr> \<lparr>ol_write = 0, ol_read = 0\<rparr> = Inr (r1, Some (ot, ol))"
      and r: "r = (if ot_write ot = 0 then r1\<lparr>rq_optionType := GCACHE_READ, rq_optionLength := ol_read ol\<rparr>
              else r1\<lparr>rq_optionType := GCACHE_WRITE, rq_optionLength := ol_write ol\<rparr>)"
    have "ptrMosdop r1 = Some op" by (subst convert_ops_frame [OF conv], simp add: fill_request_def)
    then show ?thesis using r by simp
  qed
qed

subsection \<open>Counters\<close>

lemma and_then_Some:
  "and_then x f = (q', Some n) \<Longrightarrow> \<exists>q1 n1 n2. x = (q1, Some n1) \<and> f q1 = (q', Some n2) \<and> n = n1 + n2"
  by (cases x; cases "f (fst x)") (auto simp: and_then_def split: option.splits)

lemma admit_counters:
  assumes "admit Q L smp r q = (q', Some n)"
  shows "q' = q\<lparr>lwtCount := (if saOpThrottle Q = 0 then lwtCount q else lwtCount q + 1),
    lwtWriteCount := (if rq_optionType r = GCACHE_WRITE then lwtWriteCount q + 1 else lwtWriteCount q),
    writeBW := (if rq_optionType r = GCACHE_WRITE then writeBW q + rq_optionLength r else writeBW q),
    lwtReadCount := (if rq_optionType r = GCACHE_READ then lwtReadCount q + 1 else lwtReadCount q),
    readBW := (if rq_optionType r = GCACHE_READ then readBW q + rq_optionLength r else readBW q)\<rparr>"
  using assms
  by (auto simp: admit_def GetlwtCas_def GetWritelwtCas_def GetWriteBWCas_def GetReadlwtCas_def GetReadBWCas_def
      dest!: and_then_Some split: if_splits)

section \<open>Properties\<close>

text \<open>
  C22: The identity the cache gets for an RBD data object identifies it. For names in librbd's form
  (\<open>rbd_data.\<close>, the pool number when the data pool is separate, an image id of at most 15 lower-case hexadecimal
  digits, a 16-digit sequence number below \<open>2^40\<close>) the identity is always computed, and two names with the
  same identity are the same name, leading zeros of the image id included: the digit 1 that the code puts in
  front of the id keeps them.
\<close>

theorem rbd_objid_injective:
  assumes "good_rbd_name pool1 id1 seq1" and "good_rbd_name pool2 id2 seq2"
  shows "\<exists>oid. rbd_objid (rbd_sections (join_with (CHR ''.'') (rbd_name pool1 id1 seq1))) junk1 = Some oid \<and>
     (rbd_objid (rbd_sections (join_with (CHR ''.'') (rbd_name pool2 id2 seq2))) junk2 = Some oid \<longleftrightarrow>
      pool1 = pool2 \<and> id1 = id2 \<and> seq1 = seq2)"
proof -
  have small: "hex1 s < 2 ^ 64" if "is_lower_hex s" "length s \<le> 15" for s
  proof -
    have "unat (strtoull 16 (CHR ''1'' # s)) < 2 ^ LENGTH(64)" by (rule unsigned_less)
    then show ?thesis using strtoull_hex1 [OF that] by simp
  qed
  have inj64: "a = b" if "(of_nat a :: u64) = of_nat b" "a < 2 ^ 64" "b < 2 ^ 64" for a b
    using arg_cong [OF that(1), of unat] that(2,3) by (simp only: unat_of_nat_u64)
  have inj32: "a = b" if "(of_nat a :: u32) = of_nat b" "a < 2 ^ 32" "b < 2 ^ 32" for a b
    using arg_cong [OF that(1), of unat] that(2,3) by (simp only: unat_of_nat_u32)
  have g: "is_lower_hex id1" "length id1 \<le> 15" "is_lower_hex seq1" "length seq1 = 16" "digits_acc 16 0 seq1 < 2 ^ 40"
    "is_lower_hex id2" "length id2 \<le> 15" "is_lower_hex seq2" "length seq2 = 16" "digits_acc 16 0 seq2 < 2 ^ 40"
    using assms by (simp_all add: good_rbd_name_def)
  have i: "id1 = id2" if "(of_nat (hex1 id1) :: u64) = of_nat (hex1 id2)"
    using inj64 [OF that small small] g hex1_inj by blast
  have sq: "seq1 = seq2" if "(of_nat (digits_acc 16 0 seq1) :: u64) = of_nat (digits_acc 16 0 seq2)"
  proof -
    have "digits_acc 16 0 seq1 = digits_acc 16 0 seq2" using inj64 [OF that] g by simp
    then show ?thesis using hex_value_inj_same_length g by simp
  qed
  show ?thesis
    using assms i sq inj32
    by (cases pool1; cases pool2) (auto simp: sections_rbd_name objid_of_name good_rbd_name_def [of "Some _"])
qed

theorem rbd_objid_injective_witness:
  "\<exists>oid. rbd_objid (rbd_sections ''rbd_data.7.0a.0000000000000003'') undefined = Some oid \<and>
     rbd_objid (rbd_sections ''rbd_data.7.a.0000000000000003'') undefined \<noteq> Some oid"
proof -
  have a: "good_rbd_name (Some 7) ''0a'' ''0000000000000003''" and b: "good_rbd_name (Some 7) ''a'' ''0000000000000003''"
    by (simp_all add: good_rbd_name_def is_lower_hex_def digit_val_def Let_def)
  have "to_string 7 = ''7''" by code_simp
  then show ?thesis
    using rbd_objid_injective [OF a b, of undefined undefined] by (auto simp: rbd_name_def)
qed

text \<open>
  C21: What \<open>ProcessOpReq\<close> makes of a message it accepts. It takes exactly the oldest message and its
  time stamp, the request has one operation per operation of the message, the pool number and its
  version are the two halves of the message's pool and can be put together again, and the request is a write,
  with the write volume, exactly when the message has a write operation, otherwise a read with the read volume.
\<close>

theorem ProcessOpReq_classifies:
  assumes run: "ProcessOpReq c junk th hm (op # dq) (pts # pq) new_SaOpReq s = Inr (0, dq', pq', r, s')"
    and few: "length (mo_ops op) < 2 ^ 32"
  shows "dq' = dq \<and> pq' = pq \<and> s' = s \<and> length (vecOps r) = length (mo_ops op) \<and> ptrMosdop r = Some op \<and>
    mo_pool op = push_bit 32 (ptVersion r) OR rq_poolId r \<and>
    (if list_ex is_write_op (mo_ops op)
     then rq_optionType r = GCACHE_WRITE \<and> rq_optionLength r = write_amount (mo_ops op)
     else rq_optionType r = GCACHE_READ \<and> rq_optionLength r = read_amount (mo_ops op))"
proof -
  let ?v = "rbd_sections (mo_oid op)"
  let ?rbd = "?v \<noteq> [] \<and> hd ?v = ''rbd_data''"
  obtain r1 ot ol where
    conv: "convert_ops c junk (mo_oid op) ?rbd ?v (mo_ops op) (fill_request op new_SaOpReq)
       \<lparr>ot_write = 0, ot_read = 0\<rparr> \<lparr>ol_write = 0, ol_read = 0\<rparr> = Inr (r1, Some (ot, ol))"
    and r: "r = (if ot_write ot = 0 then r1\<lparr>rq_optionType := GCACHE_READ, rq_optionLength := ol_read ol\<rparr>
                 else r1\<lparr>rq_optionType := GCACHE_WRITE, rq_optionLength := ol_write ol\<rparr>)"
    and q: "dq' = dq" "pq' = pq" "s' = s"
    by (rule ProcessOpReq_accepted [OF run])
  have t: "length (vecOps r1) = length (mo_ops op)" "ot_write ot = of_nat (write_count (mo_ops op))"
      "ol_write ol = write_amount (mo_ops op)" "ol_read ol = read_amount (mo_ops op)"
    using convert_ops_totals [OF conv] by (auto simp: fill_request_def new_SaOpReq_def)
  have "write_count (mo_ops op) < 2 ^ 32"
    unfolding write_count_def by (rule le_less_trans [OF length_filter_le few])
  then have "unat (ot_write ot) = write_count (mo_ops op)" by (simp only: t(2) unat_of_nat_u32)
  then have "ot_write ot = 0 \<longleftrightarrow> write_count (mo_ops op) = 0" by (metis unsigned_eq_0_iff)
  also have "\<dots> \<longleftrightarrow> \<not> list_ex is_write_op (mo_ops op)"
    by (auto simp: write_count_def filter_empty_conv list_ex_iff)
  finally have w: "ot_write ot = 0 \<longleftrightarrow> \<not> list_ex is_write_op (mo_ops op)" .
  have f: "ptVersion r1 = drop_bit 32 (mo_pool op)" "rq_poolId r1 = mo_pool op AND 0xFFFFFFFF" "ptrMosdop r1 = Some op"
    by (subst convert_ops_frame [OF conv], simp add: fill_request_def)+
  have "mo_pool op AND 0xFFFFFFFF = take_bit 32 (mo_pool op)"
    by (simp add: take_bit_eq_mask mask_eq_exp_minus_1)
  then have "mo_pool op = push_bit 32 (drop_bit 32 (mo_pool op)) OR (mo_pool op AND 0xFFFFFFFF)"
    by (auto simp: bit_eq_iff bit_simps)
  then show ?thesis using q t w f r by auto
qed

definition read_op :: "u64 \<Rightarrow> OSDOp" where
  "read_op n = blank_op\<lparr>op_code := CEPH_OSD_OP_READ, ext_length := n\<rparr>"

definition write_op :: "bytes \<Rightarrow> OSDOp" where
  "write_op b = blank_op\<lparr>op_code := CEPH_OSD_OP_WRITE, ext_length := of_nat (length b), indata := b\<rparr>"

definition idle_net :: Net where
  "idle_net = \<lparr>nt_counters = \<lparr>lwtCount = 0, lwtWriteCount = 0, lwtReadCount = 0, writeBW = 0, readBW = 0\<rparr>,
     nt_replies = [], nt_released = []\<rparr>"

theorem ProcessOpReq_classifies_witness:
  "\<exists>r. ProcessOpReq le_codec undefined 0 True [one_op_msg\<lparr>mo_pool := 0x500000003, mo_ops := [read_op 4096, write_op ''abc'']\<rparr>]
        [7] new_SaOpReq idle_net = Inr (0, [], [], r, idle_net) \<and>
     length (vecOps r) = 2 \<and> rq_optionType r = GCACHE_WRITE"
proof -
  let ?m = "one_op_msg\<lparr>mo_pool := 0x500000003, mo_ops := [read_op 4096, write_op ''abc'']\<rparr>"
  have nr: "rbd_sections ''obj'' = [''obj'']"
    by (simp add: rbd_sections_def c_str_def strtok.simps)
  obtain r where r: "ProcessOpReq le_codec undefined 0 True [?m] [7] new_SaOpReq idle_net = Inr (0, [], [], r, idle_net)"
    by (simp add: ProcessOpReq_def one_op_msg_def nr Let_def ConvertClientopToOpreq_def read_op_def write_op_def)
  have "list_ex is_write_op (mo_ops ?m)" by (simp add: is_write_op_def write_op_def)
  with ProcessOpReq_classifies [OF r] r show ?thesis by auto
qed

text \<open>
  Admission is balanced. When the handler has taken the counters for a request and the cache finishes the
  request with the same type, length and limit, all five counters are back at their
  previous values and the client has exactly one more reply with the given result, for every limit and however
  long the handler had to wait, provided the counters are not within the request of their 64-bit range.
\<close>

theorem admit_finish_balance:
  assumes got: "admit Q L smp r (nt_counters s) = (q', Some n)"
    and room: "unat (lwtWriteCount (nt_counters s)) + 1 < 2 ^ 64" "unat (lwtReadCount (nt_counters s)) + 1 < 2 ^ 64"
      "unat (writeBW (nt_counters s)) + unat (rq_optionLength r) < 2 ^ 64"
      "unat (readBW (nt_counters s)) + unat (rq_optionLength r) < 2 ^ 64"
  shows "FinishCacheOps (saOpThrottle Q) True (Some op) (rq_optionType r) (rq_optionLength r) res
      (s\<lparr>nt_counters := q'\<rparr>) =
    s\<lparr>nt_replies := nt_replies s @ [(op, res)], nt_released := nt_released s @ [mo_tid op]\<rparr>"
proof -
  have nz: "x + 1 \<noteq> 0" if "unat x + 1 < 2 ^ 64" for x :: u64
  proof -
    have "unat (x + 1) = unat x + 1" using that by (simp add: unat_word_ariths)
    then show ?thesis by auto
  qed
  have ge: "\<not> x + y < y" if "unat x + unat y < 2 ^ 64" for x y :: u64
    using that by (simp add: not_less word_le_nat_alt unat_word_ariths)
  show ?thesis
    using room nz ge
    by (simp add: admit_counters [OF got] FinishCacheOps_def PutWritelwtCas_def PutWriteBWCas_def PutReadlwtCas_def
        PutReadBWCas_def PutlwtCas_def Let_def)
qed

definition default_qos :: QosParam where
  "default_qos = \<lparr>limitWrite = 0, getQuotaCycle = 200, enableThrottle = 0, saOpThrottle = 5000\<rparr>"

definition no_limits :: cache_limits where
  "no_limits = \<lparr>writeOpThrottle = 0, writeBWThrottle = 0, readOpThrottle = 0, readBWThrottle = 0\<rparr>"

definition write_req :: SaOpReq where
  "write_req = new_SaOpReq\<lparr>rq_optionType := GCACHE_WRITE, rq_optionLength := 8\<rparr>"

theorem admit_finish_balance_witness:
  "\<exists>q' n. admit default_qos no_limits (\<lambda>_. []) write_req (nt_counters idle_net) = (q', Some n) \<and>
     lwtCount q' = 1 \<and> writeBW q' = 8 \<and>
     FinishCacheOps 5000 True (Some one_op_msg) GCACHE_WRITE 8 0 (idle_net\<lparr>nt_counters := q'\<rparr>) =
       idle_net\<lparr>nt_replies := [(one_op_msg, 0)], nt_released := [1]\<rparr>"
proof -
  let ?q = "\<lparr>lwtCount = 1, lwtWriteCount = 1, lwtReadCount = 0, writeBW = 8, readBW = 0\<rparr>"
  have got: "admit default_qos no_limits (\<lambda>_. []) write_req (nt_counters idle_net) = (?q, Some 0)"
    by (simp add: admit_def and_then_def GetlwtCas_def GetWritelwtCas_def GetWriteBWCas_def throttle_wait.simps
        default_qos_def no_limits_def write_req_def new_SaOpReq_def idle_net_def)
  have "rq_optionLength write_req = 8" "rq_optionType write_req = GCACHE_WRITE" "saOpThrottle default_qos = 5000"
    by (simp_all add: write_req_def new_SaOpReq_def default_qos_def)
  with admit_finish_balance [OF got, of one_op_msg 0] got show ?thesis
    by (simp add: idle_net_def one_op_msg_def)
qed

text \<open>
  A malformed RBD name unbalances the admission counter. An object named \<open>rbd_data\<close> with fewer than
  three sections is answered with \<open>-EINVAL\<close> at once and never reaches the cache; the answer goes through
  \<open>FinishCacheOps\<close>, which decrements the count of operations in flight although the handler
  has not incremented it. On an idle server the unsigned counter wraps to \<open>2^64 - 1\<close>.
\<close>

theorem malformed_name_underflows:
  assumes name: "rbd_sections (mo_oid op) = ''rbd_data'' # rest" "length rest < 2" and th: "th \<noteq> 0"
  shows "\<exists>r. ProcessOpReq c junk th True (op # dq) (pts # pq) new_SaOpReq s =
      Inr (1, dq, pq, r, s\<lparr>nt_replies := nt_replies s @ [(op, - EINVAL)], nt_released := nt_released s @ [mo_tid op],
        nt_counters := (nt_counters s)\<lparr>lwtCount := lwtCount (nt_counters s) - 1\<rparr>\<rparr>) \<and>
    (lwtCount (nt_counters s) = 0 \<longrightarrow> unat (lwtCount (nt_counters s) - 1) = 2 ^ 64 - 1)"
proof -
  have "rq_optionType (fill_request op new_SaOpReq) = 0"
    by (simp add: fill_request_def new_SaOpReq_def)
  then have "ProcessOpReq c junk th True (op # dq) (pts # pq) new_SaOpReq s =
      Inr (1, dq, pq, fill_request op new_SaOpReq,
        s\<lparr>nt_replies := nt_replies s @ [(op, - EINVAL)], nt_released := nt_released s @ [mo_tid op],
          nt_counters := (nt_counters s)\<lparr>lwtCount := lwtCount (nt_counters s) - 1\<rparr>\<rparr>)"
    using assms by (simp add: ProcessOpReq_def Let_def FinishCacheOps_def PutlwtCas_def)
  then show ?thesis by (auto simp: unsigned_minus_1_eq_mask mask_eq_exp_minus_1)
qed

theorem malformed_name_underflows_witness:
  "\<exists>r s'. ProcessOpReq le_codec undefined 5000 True [one_op_msg\<lparr>mo_oid := ''rbd_data.5''\<rparr>] [7] new_SaOpReq idle_net =
      Inr (1, [], [], r, s') \<and> unat (lwtCount (nt_counters s')) = 2 ^ 64 - 1"
proof -
  have "rbd_sections (mo_oid (one_op_msg\<lparr>mo_oid := ''rbd_data.5''\<rparr>)) = [''rbd_data'', ''5'']" by code_simp
  then show ?thesis
    using malformed_name_underflows [of "one_op_msg\<lparr>mo_oid := ''rbd_data.5''\<rparr>" "[''5'']" 5000 le_codec undefined
        "[]" 7 "[]" idle_net]
    by (auto simp: idle_net_def)
qed

text \<open>
  A pool number of more than 32 bits in an RBD name loses the message. \<open>ProcessOpReq\<close> returns
  -1 after it has taken the message from the queue, and neither answers nor releases it: the client
  waits for ever.
\<close>

theorem pool_overflow_no_reply:
  assumes name: "rbd_sections (mo_oid op) = [''rbd_data'', p, i, sq]" and p: "2 ^ 32 \<le> unat (strtoull 10 p)"
    and ops: "mo_ops op \<noteq> []"
  shows "\<exists>r. ProcessOpReq c junk th hm (op # dq) (pts # pq) new_SaOpReq s = Inr (- 1, dq, pq, r, s)"
proof -
  have "1 \<le> unat (drop_bit 32 (strtoull 10 p))"
    using p div_le_mono [OF p, of "2 ^ 32"] by (simp add: drop_bit_eq_div unat_div_distrib)
  then have "0 < drop_bit 32 (strtoull 10 p)" by (auto simp: word_less_nat_alt)
  then have none: "rbd_objid [''rbd_data'', p, i, sq] junk = None" by (simp add: rbd_objid_def Let_def)
  obtain o1 os where "mo_ops op = o1 # os" using ops by (cases "mo_ops op") auto
  then show ?thesis by (simp add: ProcessOpReq_def Let_def name none)
qed

theorem pool_overflow_no_reply_witness:
  "\<exists>r. ProcessOpReq le_codec undefined 5000 True [one_op_msg\<lparr>mo_oid := ''rbd_data.4294967296.a.3''\<rparr>] [7] new_SaOpReq
      idle_net = Inr (- 1, [], [], r, idle_net)"
proof -
  have "rbd_sections (mo_oid (one_op_msg\<lparr>mo_oid := ''rbd_data.4294967296.a.3''\<rparr>)) =
      [''rbd_data'', ''4294967296'', ''a'', ''3'']" by code_simp
  moreover have "(2::nat) ^ 32 \<le> unat (strtoull 10 ''4294967296'')"
  proof -
    have d: "digits_acc 10 0 ''4294967296'' = 4294967296" by (simp add: digit_val_def Let_def)
    have "is_lower_hex ''4294967296''" by (simp add: is_lower_hex_def Let_def)
    then have "unat (strtoull 10 ''4294967296'') = digits_acc 10 0 ''4294967296''"
      by (rule strtoull_plain) (simp_all only: d, simp_all)
    then show ?thesis unfolding d by simp
  qed
  ultimately show ?thesis
    by (rule pool_overflow_no_reply) (simp add: one_op_msg_def)
qed

end
