(* ===== verification/Class_Api.thy ===== *)
theory Class_Api
  imports Class_Handler Process_Op
begin

text \<open>
  \<open>server_adaptor/class_api.cc\<close>: the functions an object class calls while one of its methods runs. Each of them
  builds a request with a single operation for the object of the client's message and hands it to the cache
  through the callback of the context (\<open>SaOpContext\<close>). A call that reads gives the message a fresh operation
  vector for the duration of the callback and takes the result from it.

  The callback is a parameter: a function of the request and of the message that \<open>ptrMosdop\<close> points to, with the return code and the
  message it leaves. An output parameter is \<open>Some\<close> when the function has written it.
\<close>

section \<open>Context and registration\<close>

record SaOpContext =
  ctx_req :: SaOpReq
  ctx_opId :: nat

type_synonym cache_cb = "SaOpReq \<Rightarrow> MOSDOp \<Rightarrow> int \<times> MOSDOp"

text \<open>The handler the interface works on, a static variable.\<close>

definition cls_initialize :: "class_map \<Rightarrow> class_map option \<Rightarrow> class_map option" where
  "cls_initialize h ch = Some h"

definition cls_finalize :: "class_map option \<Rightarrow> class_map option" where
  "cls_finalize ch = None"

text \<open>\<open>CLS_METHOD_RD\<close> is 1 and \<open>CLS_METHOD_WR\<close> is 2; a null handler pointer is \<open>None\<close>.\<close>

definition cls_register :: "dl_env \<Rightarrow> class_map option \<Rightarrow> string \<Rightarrow> fault + int \<times> string option \<times> class_map" where
  "cls_register E ch name =
     (case ch of
        None \<Rightarrow> Inl NullDeref
      | Some cs \<Rightarrow> (case register_class E name cs of (cls, cs1) \<Rightarrow> Inr (if cls \<noteq> None then 1 else 0, cls, cs1)))"

definition cls_unregister :: "class_map \<Rightarrow> string \<Rightarrow> int \<times> class_map" where
  "cls_unregister cs n = (1, cs)"

definition cls_register_method :: "string \<Rightarrow> string \<Rightarrow> int \<Rightarrow> nat \<Rightarrow> class_map \<Rightarrow> int \<times> class_map" where
  "cls_register_method n mname flags f cs =
     (if and flags 3 = 0 then (- EINVAL, cs)
      else (case register_method n mname flags f cs of (ok, cs1) \<Rightarrow> (if ok then 1 else 0, cs1)))"

definition cls_register_cxx_method :: "string \<Rightarrow> string \<Rightarrow> int \<Rightarrow> nat \<Rightarrow> class_map \<Rightarrow> int \<times> class_map" where
  "cls_register_cxx_method n mname flags f cs =
     (case register_cxx_method n mname flags f cs of (ok, cs1) \<Rightarrow> (if ok then 1 else 0, cs1))"

definition cls_unregister_method :: "ClassMethod \<Rightarrow> class_map \<Rightarrow> int \<times> class_map" where
  "cls_unregister_method m cs = (1, ClassMethod_unregister m cs)"

section \<open>Calling the cache\<close>

definition with_msg :: "SaOpContext \<Rightarrow> fault + 'a \<Rightarrow> fault + 'a" where
  "with_msg ctx x = (case ptrMosdop (ctx_req ctx) of None \<Rightarrow> Inl NullDeref | Some _ \<Rightarrow> x)"

definition call_cache :: "cache_cb \<Rightarrow> SaOpContext \<Rightarrow> OpRequestOps \<Rightarrow> MOSDOp \<Rightarrow> int \<times> MOSDOp" where
  "call_cache cb ctx op m = cb ((SaOpReq_copy (ctx_req ctx))\<lparr>vecOps := [op]\<rparr>) m"

definition named_op :: "osd_op \<Rightarrow> MOSDOp \<Rightarrow> OpRequestOps" where
  "named_op oc m = blank_req\<lparr>opSubType := oc, objName := mo_oid m\<rparr>"

text \<open>The operation of the running call, whose object identity \<open>stat2\<close> and \<open>write2\<close> take over.\<close>

definition current_op :: "osd_op \<Rightarrow> SaOpContext \<Rightarrow> fault + OpRequestOps" where
  "current_op oc ctx =
     (if ctx_opId ctx < length (vecOps (ctx_req ctx)) then
        (let v = vecOps (ctx_req ctx) ! ctx_opId ctx
         in Inr (blank_req\<lparr>opSubType := oc, isRbd := isRbd v,
               rbdObjId := (rbdObjId blank_req)\<lparr>rbd_head := rbd_head (rbdObjId v), rbd_seq := rbd_seq (rbdObjId v),
                 rbd_version := rbd_version (rbdObjId v), rbd_format := rbd_format (rbdObjId v),
                 rbd_poolId := rbd_poolId (rbdObjId v)\<rparr>,
               objName := objName v\<rparr>))
      else Inl OutOfBounds)"

definition write_call :: "cache_cb \<Rightarrow> SaOpContext \<Rightarrow> OpRequestOps \<Rightarrow> MOSDOp \<Rightarrow> fault + int \<times> MOSDOp" where
  "write_call cb ctx op m = with_msg ctx (Inr (call_cache cb ctx op m))"

definition read_call :: "cache_cb \<Rightarrow> SaOpContext \<Rightarrow> OpRequestOps \<Rightarrow> MOSDOp \<Rightarrow> fault + int \<times> bytes \<times> MOSDOp" where
  "read_call cb ctx op m =
     with_msg ctx
       (let (r, m2) = call_cache cb ctx op (m\<lparr>mo_ops := [blank_op\<lparr>op_code := CEPH_OSD_OP_OTHER 0\<rparr>]\<rparr>);
            ops = mo_ops m2;
            m3 = m2\<lparr>mo_ops := mo_ops m\<rparr>
        in if r < 0 then Inr (r, [], m3)
           else (case ops of [] \<Rightarrow> Inl OutOfBounds | o1 # _ \<Rightarrow> Inr (r, outdata o1, m3)))"

text \<open>What a reading function makes of the result: the return code and the output.\<close>

definition read_then ::
    "(int \<Rightarrow> bytes \<Rightarrow> int \<times> 'a option) \<Rightarrow> fault + int \<times> bytes \<times> MOSDOp \<Rightarrow> fault + int \<times> 'a option \<times> MOSDOp" where
  "read_then f x =
     (case x of
        Inl e \<Rightarrow> Inl e
      | Inr (r, out, m) \<Rightarrow> if r < 0 then Inr (r, None, m) else (case f r out of (r', v) \<Rightarrow> Inr (r', v, m)))"

definition decoded :: "(bytes \<Rightarrow> ('a \<times> bytes) option) \<Rightarrow> ('a \<Rightarrow> int) \<Rightarrow> int \<Rightarrow> bytes \<Rightarrow> int \<times> 'a option" where
  "decoded d ret r out = (case d out of None \<Rightarrow> (- EIO, None) | Some (v, _) \<Rightarrow> (ret v, Some v))"

section \<open>Attributes, object data\<close>

definition cls_getxattr :: "bool \<Rightarrow> cache_cb \<Rightarrow> SaOpContext \<Rightarrow> string \<Rightarrow> MOSDOp \<Rightarrow> fault + int \<times> bytes option \<times> MOSDOp" where
  "cls_getxattr alloc cb ctx name m =
     read_then (\<lambda>r out. if alloc then (r, Some out) else (- ENOMEM, None))
       (read_call cb ctx ((named_op CEPH_OSD_OP_GETXATTR m)\<lparr>op_keys := [name]\<rparr>) m)"

definition cls_setxattr :: "cache_cb \<Rightarrow> SaOpContext \<Rightarrow> string \<Rightarrow> SaStr \<Rightarrow> MOSDOp \<Rightarrow> fault + int \<times> MOSDOp" where
  "cls_setxattr cb ctx name val m =
     (case sa_view val of
        Inl e \<Rightarrow> Inl e
      | Inr v \<Rightarrow> write_call cb ctx ((named_op CEPH_OSD_OP_SETXATTR m)\<lparr>op_keys := [name], op_values := [v]\<rparr>) m)"

definition cls_cxx_create :: "cache_cb \<Rightarrow> SaOpContext \<Rightarrow> bool \<Rightarrow> MOSDOp \<Rightarrow> fault + int \<times> MOSDOp" where
  "cls_cxx_create cb ctx exclusive m = write_call cb ctx (named_op CEPH_OSD_OP_CREATE m) m"

definition cls_cxx_remove :: "cache_cb \<Rightarrow> SaOpContext \<Rightarrow> MOSDOp \<Rightarrow> fault + int \<times> MOSDOp" where
  "cls_cxx_remove cb ctx m = write_call cb ctx (named_op CEPH_OSD_OP_DELETE m) m"

text \<open>A size and a time of seconds and nanoseconds.\<close>

definition dec_stat :: "codec \<Rightarrow> bytes \<Rightarrow> ((u64 \<times> u32 \<times> u32) \<times> bytes) option" where
  "dec_stat c bs = dec_both (dec_u64 c) (dec_both (dec_u32 c) (dec_u32 c)) bs"

definition cls_cxx_stat :: "codec \<Rightarrow> cache_cb \<Rightarrow> SaOpContext \<Rightarrow> MOSDOp \<Rightarrow> fault + int \<times> (u64 \<times> u32) option \<times> MOSDOp" where
  "cls_cxx_stat c cb ctx m =
     read_then (\<lambda>r out. map_prod id (map_option (\<lambda>(s, sec, nsec). (s, sec))) (decoded (dec_stat c) (\<lambda>_. 0) r out))
       (read_call cb ctx (named_op CEPH_OSD_OP_STAT m) m)"

definition cls_cxx_stat2 ::
    "codec \<Rightarrow> cache_cb \<Rightarrow> SaOpContext \<Rightarrow> MOSDOp \<Rightarrow> fault + int \<times> (u64 \<times> u32 \<times> u32) option \<times> MOSDOp" where
  "cls_cxx_stat2 c cb ctx m =
     (case current_op CEPH_OSD_OP_STAT ctx of
        Inl e \<Rightarrow> Inl e
      | Inr op \<Rightarrow> read_then (decoded (dec_stat c) (\<lambda>_. 0)) (read_call cb ctx op m))"

text \<open>\<open>uninit\<close> is the fresh buffer the function allocates for the cache.\<close>

definition cls_cxx_read2 ::
    "bytes \<Rightarrow> cache_cb \<Rightarrow> SaOpContext \<Rightarrow> int \<Rightarrow> int \<Rightarrow> u32 \<Rightarrow> MOSDOp \<Rightarrow> fault + int \<times> bytes option \<times> MOSDOp" where
  "cls_cxx_read2 uninit cb ctx ofs n op_fl m =
     (if n \<le> 0 \<or> 2 ^ 31 - 1 - 2 \<le> n then Inr (- EINVAL, None, m)
      else read_then (\<lambda>r out. (int (length out), Some out))
             (read_call cb ctx ((named_op CEPH_OSD_OP_SYNC_READ m)\<lparr>objOffset := word_of_int ofs, objLength := word_of_int n,
                outData := Some uninit, outDataLen := word_of_int n\<rparr>) m))"

definition cls_cxx_read ::
    "bytes \<Rightarrow> cache_cb \<Rightarrow> SaOpContext \<Rightarrow> int \<Rightarrow> int \<Rightarrow> MOSDOp \<Rightarrow> fault + int \<times> bytes option \<times> MOSDOp" where
  "cls_cxx_read uninit cb ctx ofs n m = cls_cxx_read2 uninit cb ctx ofs n 0 m"

definition cls_cxx_write2 ::
    "cache_cb \<Rightarrow> SaOpContext \<Rightarrow> int \<Rightarrow> int \<Rightarrow> bytes \<Rightarrow> u32 \<Rightarrow> MOSDOp \<Rightarrow> fault + int \<times> MOSDOp" where
  "cls_cxx_write2 cb ctx ofs n inbl op_fl m =
     (case current_op CEPH_OSD_OP_WRITE ctx of
        Inl e \<Rightarrow> Inl e
      | Inr op \<Rightarrow> Inr (call_cache cb ctx (op\<lparr>objOffset := word_of_int ofs, objLength := word_of_int n,
                       inData := Some inbl, inDataLen := of_nat (length inbl)\<rparr>) m))"

definition cls_cxx_write :: "cache_cb \<Rightarrow> SaOpContext \<Rightarrow> int \<Rightarrow> int \<Rightarrow> bytes \<Rightarrow> MOSDOp \<Rightarrow> fault + int \<times> MOSDOp" where
  "cls_cxx_write cb ctx ofs n inbl m = cls_cxx_write2 cb ctx ofs n inbl 0 m"

definition cls_cxx_write_full :: "cache_cb \<Rightarrow> SaOpContext \<Rightarrow> bytes \<Rightarrow> MOSDOp \<Rightarrow> fault + int \<times> MOSDOp" where
  "cls_cxx_write_full cb ctx inbl m =
     write_call cb ctx ((named_op CEPH_OSD_OP_WRITEFULL m)\<lparr>objOffset := 0, objLength := of_nat (length inbl),
        inData := Some inbl, inDataLen := of_nat (length inbl)\<rparr>) m"

definition cls_cxx_getxattr :: "cache_cb \<Rightarrow> SaOpContext \<Rightarrow> string \<Rightarrow> MOSDOp \<Rightarrow> fault + int \<times> bytes option \<times> MOSDOp" where
  "cls_cxx_getxattr cb ctx name m =
     read_then (\<lambda>r out. (int (length out), Some out))
       (read_call cb ctx ((named_op CEPH_OSD_OP_GETXATTR m)\<lparr>op_keys := [name]\<rparr>) m)"

definition cls_cxx_getxattrs ::
    "codec \<Rightarrow> cache_cb \<Rightarrow> SaOpContext \<Rightarrow> MOSDOp \<Rightarrow> fault + int \<times> (string, bytes) std_map option \<times> MOSDOp" where
  "cls_cxx_getxattrs c cb ctx m =
     read_then (decoded (dec_smap c) (\<lambda>_. 0)) (read_call cb ctx (named_op CEPH_OSD_OP_GETXATTRS m) m)"

definition cls_cxx_setxattr :: "cache_cb \<Rightarrow> SaOpContext \<Rightarrow> string \<Rightarrow> bytes \<Rightarrow> MOSDOp \<Rightarrow> fault + int \<times> MOSDOp" where
  "cls_cxx_setxattr cb ctx name inbl m =
     write_call cb ctx ((named_op CEPH_OSD_OP_SETXATTR m)\<lparr>op_keys := [name], op_values := [inbl]\<rparr>) m"

section \<open>Object maps\<close>

definition cls_cxx_map_get_vals ::
    "codec \<Rightarrow> cache_cb \<Rightarrow> SaOpContext \<Rightarrow> string \<Rightarrow> string \<Rightarrow> u64 \<Rightarrow> MOSDOp
      \<Rightarrow> fault + int \<times> ((string, bytes) std_map \<times> bool) option \<times> MOSDOp" where
  "cls_cxx_map_get_vals c cb ctx start_obj filter_prefix max_to_get m =
     read_then (decoded (dec_both (dec_smap c) (dec_bool c)) (\<lambda>(vals, more). int (length vals)))
       (read_call cb ctx ((named_op CEPH_OSD_OP_OMAPGETVALS m)
          \<lparr>op_keys := [''start_after'', ''max_return'', ''filter_prefix''],
           op_values := [start_obj, to_string (unat max_to_get), filter_prefix]\<rparr>) m)"

definition cls_cxx_map_get_all_vals ::
    "codec \<Rightarrow> cache_cb \<Rightarrow> SaOpContext \<Rightarrow> MOSDOp \<Rightarrow> fault + int \<times> ((string, bytes) std_map \<times> bool) option \<times> MOSDOp" where
  "cls_cxx_map_get_all_vals c cb ctx m =
     read_then (decoded (dec_both (dec_smap c) (dec_bool c)) (\<lambda>(vals, more). int (length vals)))
       (read_call cb ctx ((named_op CEPH_OSD_OP_OMAPGETVALS m)
          \<lparr>op_keys := [''start_after'', ''max_return'', ''filter_prefix''],
           op_values := ['''', to_string (unat (- 1 :: u64)), '''']\<rparr>) m)"

definition cls_cxx_map_get_keys ::
    "codec \<Rightarrow> cache_cb \<Rightarrow> SaOpContext \<Rightarrow> string \<Rightarrow> u64 \<Rightarrow> MOSDOp \<Rightarrow> fault + int \<times> (string list \<times> bool) option \<times> MOSDOp" where
  "cls_cxx_map_get_keys c cb ctx start_obj max_to_get m =
     read_then (decoded (dec_both (dec_sset c) (dec_bool c)) (\<lambda>(ks, more). int (length ks)))
       (read_call cb ctx ((named_op CEPH_OSD_OP_OMAPGETKEYS m)
          \<lparr>op_keys := [''start_after'', ''max_return''], op_values := [start_obj, to_string (unat max_to_get)]\<rparr>) m)"

definition cls_cxx_map_read_header :: "cache_cb \<Rightarrow> SaOpContext \<Rightarrow> MOSDOp \<Rightarrow> fault + int \<times> bytes option \<times> MOSDOp" where
  "cls_cxx_map_read_header cb ctx m =
     read_then (\<lambda>r out. (0, Some out)) (read_call cb ctx (named_op CEPH_OSD_OP_OMAPGETHEADER m) m)"

definition cls_cxx_map_get_val :: "codec \<Rightarrow> cache_cb \<Rightarrow> SaOpContext \<Rightarrow> string \<Rightarrow> MOSDOp \<Rightarrow> fault + int \<times> bytes option \<times> MOSDOp" where
  "cls_cxx_map_get_val c cb ctx key m =
     read_then (\<lambda>r out. case dec_smap c out of
                          None \<Rightarrow> (- EIO, None)
                        | Some ([], _) \<Rightarrow> (- ENOENT, None)
                        | Some ((k, v) # _, _) \<Rightarrow> (0, Some v))
       (read_call cb ctx ((named_op CEPH_OSD_OP_OMAPGETVALSBYKEYS m)\<lparr>op_keys := [key]\<rparr>) m)"

definition cls_cxx_map_set_val :: "cache_cb \<Rightarrow> SaOpContext \<Rightarrow> string \<Rightarrow> bytes \<Rightarrow> MOSDOp \<Rightarrow> fault + int \<times> MOSDOp" where
  "cls_cxx_map_set_val cb ctx key inbl m =
     write_call cb ctx ((named_op CEPH_OSD_OP_OMAPSETVALS m)\<lparr>op_keys := [key], op_values := [inbl]\<rparr>) m"

definition cls_cxx_map_set_vals ::
    "cache_cb \<Rightarrow> SaOpContext \<Rightarrow> (string, bytes) std_map \<Rightarrow> MOSDOp \<Rightarrow> fault + int \<times> MOSDOp" where
  "cls_cxx_map_set_vals cb ctx kvs m =
     write_call cb ctx (foldl (\<lambda>op (k, v). push_kv k v op) (named_op CEPH_OSD_OP_OMAPSETVALS m) kvs) m"

definition cls_cxx_map_clear :: "cache_cb \<Rightarrow> SaOpContext \<Rightarrow> MOSDOp \<Rightarrow> fault + int \<times> MOSDOp" where
  "cls_cxx_map_clear cb ctx m = write_call cb ctx (named_op CEPH_OSD_OP_OMAPCLEAR m) m"

definition cls_cxx_map_write_header :: "cache_cb \<Rightarrow> SaOpContext \<Rightarrow> bytes \<Rightarrow> MOSDOp \<Rightarrow> fault + int \<times> MOSDOp" where
  "cls_cxx_map_write_header cb ctx inbl m =
     write_call cb ctx ((named_op CEPH_OSD_OP_OMAPSETHEADER m)\<lparr>inDataLen := of_nat (length inbl), inData := Some inbl\<rparr>) m"

definition cls_cxx_map_remove_key :: "cache_cb \<Rightarrow> SaOpContext \<Rightarrow> string \<Rightarrow> MOSDOp \<Rightarrow> fault + int \<times> MOSDOp" where
  "cls_cxx_map_remove_key cb ctx key m =
     write_call cb ctx ((named_op CEPH_OSD_OP_OMAPRMKEYS m)\<lparr>op_keys := [key]\<rparr>) m"

section \<open>Other services\<close>

definition cls_current_version :: "SaOpContext \<Rightarrow> u64" where
  "cls_current_version ctx = 0"

definition cls_current_subop_num :: "SaOpContext \<Rightarrow> nat" where
  "cls_current_subop_num ctx = ctx_opId ctx"

text \<open>
  \<open>armor cap src\<close> is \<open>ceph_armor\<close> into a buffer of \<open>cap\<close> bytes; \<open>rnd\<close> the random bytes, \<open>stack\<close> the uninitialised rest of
  \<open>tmp_dest\<close>.
\<close>

definition cls_gen_rand_base64 ::
    "(nat \<Rightarrow> bytes \<Rightarrow> int + bytes) \<Rightarrow> (nat \<Rightarrow> bytes) \<Rightarrow> bytes \<Rightarrow> nat \<Rightarrow> fault + int \<times> bytes option" where
  "cls_gen_rand_base64 armor rnd stack size1 =
     (if size1 = 0 then Inl OutOfBounds
      else
        (case armor (size1 + 4) (take (((size1 - 1) * 3 + 4 - 1) div 4) (rnd size1)) of
           Inl e \<Rightarrow> Inr (- 1, None)
         | Inr out \<Rightarrow>
             if size1 + 4 \<le> length out then Inl OutOfBounds
             else Inr (0, Some (take (size1 - 1) (out @ [CHR 0x00] @ stack) @ [CHR 0x00]))))"

text \<open>
  \<open>vsn size\<close> is the result of \<open>vsnprintf\<close> into a buffer of that size. The loop doubles the buffer until the line
  fits or the buffer is larger than \<open>MAX_SIZE\<close>; the result has the size of the buffer that is logged.
\<close>

partial_function (option) cls_log_loop :: "(int \<Rightarrow> int) \<Rightarrow> int \<Rightarrow> (int \<times> int) option" where
  "cls_log_loop vsn size1 =
     (if (vsn size1 > - 1 \<and> vsn size1 < size1) \<or> size1 > 8196 then Some (vsn size1, size1)
      else cls_log_loop vsn (size1 * 2))"

definition cls_log :: "(int \<Rightarrow> int) \<Rightarrow> (int \<times> int) option" where
  "cls_log vsn = cls_log_loop vsn 256"

section \<open>Facts\<close>

lemma read_call_cases:
  assumes "read_call cb ctx op m = Inr (r, out, m')"
  shows "mo_ops m' = mo_ops m"
  using assms by (auto simp: read_call_def with_msg_def Let_def split: option.splits prod.splits if_splits list.splits)

lemma read_then_msg: "read_then f x = Inr (r, v, m') \<Longrightarrow> \<exists>r0 out. x = Inr (r0, out, m')"
  by (auto simp: read_then_def split: sum.splits prod.splits if_splits)

lemma read_then_keeps:
  "read_then f (read_call cb ctx op m) = Inr (r, v, m') \<Longrightarrow> mo_ops m' = mo_ops m"
  using read_then_msg read_call_cases by blast

text \<open>The operations of the message after a call.\<close>

definition keeps_ops :: "(MOSDOp \<Rightarrow> fault + int \<times> 'a option \<times> MOSDOp) \<Rightarrow> MOSDOp \<Rightarrow> bool" where
  "keeps_ops f m \<longleftrightarrow> (\<forall>r v m'. f m = Inr (r, v, m') \<longrightarrow> mo_ops m' = mo_ops m)"

text \<open>A callback that succeeds and writes \<open>out\<close> as the output of the first operation.\<close>

definition answers :: "cache_cb \<Rightarrow> (OpRequestOps \<Rightarrow> bytes) \<Rightarrow> bool" where
  "answers cb out \<longleftrightarrow>
     (\<forall>req m o1 op. vecOps req = [op] \<longrightarrow> mo_ops m = [o1] \<longrightarrow> cb req m = (0, m\<lparr>mo_ops := [o1\<lparr>outdata := outdata o1 @ out op\<rparr>]\<rparr>))"

lemma read_call_answers:
  assumes "answers cb out" and "ptrMosdop (ctx_req ctx) = Some m0"
  shows "read_call cb ctx op m = Inr (0, out op, m)"
proof -
  let ?o = "blank_op\<lparr>op_code := CEPH_OSD_OP_OTHER 0\<rparr>"
  have "call_cache cb ctx op (m\<lparr>mo_ops := [?o]\<rparr>) = (0, m\<lparr>mo_ops := [?o\<lparr>outdata := outdata ?o @ out op\<rparr>]\<rparr>)"
    using assms(1) unfolding answers_def call_cache_def by simp
  then show ?thesis using assms(2) by (simp add: read_call_def with_msg_def blank_op_def)
qed

text \<open>The cache's side of an omap read and of a stat, by its own encoders on operation 0.\<close>

definition getvals_server :: "codec \<Rightarrow> (string \<times> bytes) list \<Rightarrow> cache_cb" where
  "getvals_server c kvs req m =
     (case EncodeOmapGetvals c (Some (kv_of kvs)) 0 (Some m) of Inr (Some m') \<Rightarrow> (0, m') | _ \<Rightarrow> (- EIO, m))"

definition stat_server :: "codec \<Rightarrow> u64 \<Rightarrow> int \<Rightarrow> cache_cb" where
  "stat_server c psize ptime req m =
     (case EncodeGetOpstat c psize ptime 0 (Some m) of Inr (Some m') \<Rightarrow> (0, m') | _ \<Rightarrow> (- EIO, m))"

lemma stat_server_answers:
  "answers (stat_server c psize ptime) (\<lambda>_. enc_u64 c psize @ enc_u64 c (word_of_int ptime))"
  by (auto simp: answers_def stat_server_def EncodeGetOpstat_def update_op_def append_out_def)

lemma getvals_server_answers:
  assumes c: "codec_ok c" and m: "map_wf kvs" "small_map kvs" and ne: "list_all (\<lambda>(k, v). k \<noteq> [] \<and> v \<noteq> []) kvs"
  shows "answers (getvals_server c kvs) (\<lambda>_. enc_smap c kvs @ enc_bool c False)"
proof -
  have "EncodeOmapGetvals c (Some (kv_of kvs)) 0 (Some msg) =
      Inr (Some (msg\<lparr>mo_ops := [append_out (enc_smap c kvs @ enc_bool c False) o1]\<rparr>))" if "mo_ops msg = [o1]" for msg o1
    using EncodeOmapGetvals_nonempty [OF c m(2) _ ne, of 0 msg] that by simp
  then show ?thesis by (auto simp: answers_def getvals_server_def append_out_def)
qed

lemma enc_le_add: "enc_le (a + b) x = enc_le a x @ enc_le b (x div 256 ^ a)"
  by (induction a arbitrary: x) (simp_all add: div_mult2_eq)

lemma stat_decodes:
  assumes p: "0 \<le> ptime" "ptime < 2 ^ 32"
  shows "dec_stat le_codec (enc_u64 le_codec psize @ enc_u64 le_codec (word_of_int ptime)) =
    Some ((psize, word_of_int ptime, 0), [])"
proof -
  have "unat psize < 2 ^ LENGTH(64)" by (rule unsigned_less)
  then have s: "dec_le 8 (enc_le 8 (unat psize) @ r) = Some (unat psize, r)" for r by (simp add: dec_enc_le)
  have u: "unat (word_of_int ptime :: u64) = nat ptime"
    using p by (simp add: unsigned_of_int take_bit_int_eq_self nat_take_bit_eq)
  have n: "nat ptime < 256 ^ 4" using p by simp
  have e: "enc_le 8 (nat ptime) = enc_le 4 (nat ptime) @ enc_le 4 0"
    using enc_le_add [of 4 4 "nat ptime"] n by simp
  have t1: "dec_le 4 (enc_le 4 (nat ptime) @ enc_le 4 0) = Some (nat ptime, enc_le 4 0)"
    by (rule dec_enc_le [OF n])
  have t2: "dec_le 4 (enc_le 4 0) = Some (0, [])" using dec_enc_le [of 0 4 "[]"] by simp
  have w: "(of_nat (nat ptime) :: u32) = word_of_int ptime" using p by simp
  show ?thesis
    by (simp add: dec_stat_def le_codec_def dec_both_def dec_word_def s u e t1 t2 w)
qed

section \<open>Properties\<close>

text \<open>
  A reading call of an object class leaves the client's message alone. Whatever the cache writes into the
  operations of the message during the callback, and whether the call succeeds, fails or cannot decode the
  result, the message has its own operations back when the function returns.
\<close>

theorem reads_keep_message:
  "keeps_ops (cls_getxattr alloc cb ctx name) m \<and> keeps_ops (cls_cxx_getxattr cb ctx name) m \<and>
   keeps_ops (cls_cxx_getxattrs c cb ctx) m \<and> keeps_ops (cls_cxx_read uninit cb ctx ofs n) m \<and>
   keeps_ops (cls_cxx_stat c cb ctx) m \<and> keeps_ops (cls_cxx_stat2 c cb ctx) m \<and>
   keeps_ops (cls_cxx_map_get_vals c cb ctx start pre mx) m \<and> keeps_ops (cls_cxx_map_get_all_vals c cb ctx) m \<and>
   keeps_ops (cls_cxx_map_get_keys c cb ctx start mx) m \<and> keeps_ops (cls_cxx_map_read_header cb ctx) m \<and>
   keeps_ops (cls_cxx_map_get_val c cb ctx key) m"
  by (simp add: keeps_ops_def cls_getxattr_def cls_cxx_getxattr_def cls_cxx_getxattrs_def cls_cxx_read_def cls_cxx_read2_def
      cls_cxx_stat_def cls_cxx_stat2_def cls_cxx_map_get_vals_def cls_cxx_map_get_all_vals_def cls_cxx_map_get_keys_def
      cls_cxx_map_read_header_def cls_cxx_map_get_val_def read_then_keeps split: sum.split)

definition demo_ctx :: SaOpContext where
  "demo_ctx = \<lparr>ctx_req = new_SaOpReq\<lparr>ptrMosdop := Some one_op_msg\<rparr>, ctx_opId = 0\<rparr>"

text \<open>
  C27: An object class that reads an object map gets what the cache holds. When the cache answers with
  \<open>EncodeOmapGetvals\<close> for a map with non-empty keys and values, \<open>cls_cxx_map_get_vals\<close> returns the number of
  entries, exactly that map and the flag that there is no more, and the message is unchanged.
\<close>

theorem map_get_vals_end_to_end:
  assumes c: "codec_ok c" "\<forall>b r. dec_bool c (enc_bool c b @ r) = Some (b, r)"
    and m: "map_wf kvs" "small_map kvs" "list_all (\<lambda>(k, v). k \<noteq> [] \<and> v \<noteq> []) kvs"
    and ctx: "ptrMosdop (ctx_req ctx) = Some m0"
  shows "cls_cxx_map_get_vals c (getvals_server c kvs) ctx start pre mx msg =
    Inr (int (length kvs), Some (kvs, False), msg)"
proof -
  have "dec_bool c (enc_bool c False) = Some (False, [])" using c(2) [rule_format, of False "[]"] by simp
  then have "dec_both (dec_smap c) (dec_bool c) (enc_smap c kvs @ enc_bool c False) = Some ((kvs, False), [])"
    using codec_okD(4) [OF c(1) m(1,2)] by (simp add: dec_both_def)
  then show ?thesis
    using read_call_answers [OF getvals_server_answers [OF c(1) m] ctx]
    by (simp add: cls_cxx_map_get_vals_def read_then_def decoded_def)
qed

theorem map_get_vals_end_to_end_witness:
  "cls_cxx_map_get_vals le_codec (getvals_server le_codec [(''a'', ''1'')]) demo_ctx [] [] 10 one_op_msg =
     Inr (1, Some ([(''a'', ''1'')], False), one_op_msg)"
proof -
  have b: "\<forall>b r. dec_bool le_codec (enc_bool le_codec b @ r) = Some (b, r)" by (simp add: le_codec_def)
  have m: "map_wf [(''a'', ''1'')]" "small_map [(''a'', ''1'')]" by (simp_all add: map_wf_def small_map_def)
  have "ptrMosdop (ctx_req demo_ctx) = Some one_op_msg" by (simp add: demo_ctx_def)
  from map_get_vals_end_to_end [OF le_codec_ok b m _ this] show ?thesis by simp
qed

text \<open>
  \<open>cls_cxx_stat\<close> reads what \<open>EncodeGetOpstat\<close> wrote: the encoder writes the modification time as one 64-bit number, the
  reader expects seconds and nanoseconds of 32 bits each, and for every size and every time before the
  year 2106 both agree, in Ceph's wire format.
\<close>

theorem stat_end_to_end:
  assumes "0 \<le> ptime" "ptime < 2 ^ 32" and "ptrMosdop (ctx_req ctx) = Some m0"
  shows "cls_cxx_stat le_codec (stat_server le_codec psize ptime) ctx msg = Inr (0, Some (psize, word_of_int ptime), msg)"
  using read_call_answers [OF stat_server_answers assms(3)] stat_decodes [OF assms(1,2)]
  by (simp add: cls_cxx_stat_def read_then_def decoded_def)

theorem stat_end_to_end_witness:
  "cls_cxx_stat le_codec (stat_server le_codec 4096 1700000000) demo_ctx one_op_msg = Inr (0, Some (4096, 1700000000), one_op_msg)"
  using stat_end_to_end [of 1700000000 demo_ctx one_op_msg 4096 one_op_msg] by (simp add: demo_ctx_def)

text \<open>
  Logging from an object class terminates: whatever \<open>vsnprintf\<close> reports, the loop ends within seven rounds, with a
  buffer of at most 16384 bytes; the line is complete unless the buffer has reached that size.
\<close>

theorem cls_log_terminates:
  "\<exists>n size1. cls_log vsn = Some (n, size1) \<and> n = vsn size1 \<and> 256 \<le> size1 \<and> size1 \<le> 16384 \<and>
     ((0 \<le> n \<and> n < size1) \<or> size1 = 16384)"
  unfolding cls_log_def
  by (simp add: cls_log_loop.simps [of vsn 256] cls_log_loop.simps [of vsn 512] cls_log_loop.simps [of vsn 1024]
      cls_log_loop.simps [of vsn 2048] cls_log_loop.simps [of vsn 4096] cls_log_loop.simps [of vsn 8192]
      cls_log_loop.simps [of vsn 16384])

end
