(* ===== verification/Op_Queue.thy ===== *)
theory Op_Queue
  imports Process_Op Fifo_Server
begin

text \<open>
  The operation queues of the server adaptor (\<open>server_adaptor/client_op_queue.h\<close> and, in
  \<open>network_module.cpp\<close>, \<open>EnqueueClientop\<close>, \<open>OpHandlerThread\<close>, \<open>CreateWorkThread\<close>, \<open>StopThread\<close>).
  \<open>LimitWrite\<close>, which \<open>EnqueueClientop\<close> calls last and which delays its return with the lock held, is in \<open>Write_Quota\<close>.

  One queue with its handler thread, any number of receiving threads and the thread that calls \<open>StopThread\<close> is a step relation.
  A receiver's critical section is one step. The handler is cut where another thread can get between: \<open>finishThread\<close> is
  written without the lock, so its test and the wait that follows are two steps. Waking up without a
  notification is a relation of its own. Taking the admission counters is one step that is enabled when none of the
  calls would wait. \<open>oq_acc\<close>, \<open>oq_served\<close> and \<open>oq_submitted\<close> are history variables.
\<close>

section \<open>The queue\<close>

record ClientOpQueue =
  reqQueue :: "MOSDOp list"
  tsQueue :: "u64 list"
  period :: "u64 list"

definition new_queue :: ClientOpQueue where
  "new_queue = \<lparr>reqQueue = [], tsQueue = [], period = []\<rparr>"

definition EnQueue :: "MOSDOp \<Rightarrow> u64 \<Rightarrow> u64 \<Rightarrow> ClientOpQueue \<Rightarrow> ClientOpQueue" where
  "EnQueue opReq ts p q =
     q\<lparr>reqQueue := reqQueue q @ [opReq], tsQueue := tsQueue q @ [ts], period := period q @ [p]\<rparr>"

definition Empty :: "ClientOpQueue \<Rightarrow> bool" where
  "Empty q \<longleftrightarrow> reqQueue q = []"

definition GetSize :: "ClientOpQueue \<Rightarrow> nat" where
  "GetSize q = length (reqQueue q)"

text \<open>The queue an operation goes to: \<open>hash(name) % queueNum\<close>.\<close>

definition queue_index :: "(string \<Rightarrow> nat) \<Rightarrow> nat \<Rightarrow> MOSDOp \<Rightarrow> fault + nat" where
  "queue_index hash queueNum op = (if queueNum = 0 then Inl DivByZero else Inr (hash (mo_oid op) mod queueNum))"

fun ContainWriteOp :: "OSDOp list \<Rightarrow> bool" where
  "ContainWriteOp [] = False"
| "ContainWriteOp (i # ops) =
     (if op_code i = CEPH_OSD_OP_WRITEFULL \<or> op_code i = CEPH_OSD_OP_WRITE then True else ContainWriteOp ops)"

section \<open>The threads of a queue\<close>

text \<open>
  \<open>HTest\<close> and \<open>HBody\<close> hold the lock: \<open>HTest\<close> before the loop condition, \<open>HBody\<close> after it.
  \<open>HRelock\<close> and \<open>HWoken\<close> want the lock, \<open>HDeal\<close> works through the batch, \<open>HAdmit\<close> waits for admission, \<open>HCopy\<close>
  for the end of a copy-up.
\<close>

datatype hpc = HRelock | HTest | HBody | HWait | HWoken | HDeal | HAdmit SaOpReq | HCopy SaOpReq | HDone | HCrashed fault

datatype spc = SIdle | SSet | SNotify | SJoin | SJoined

type_synonym entry = "MOSDOp \<times> u64 \<times> u64"

record op_queue =
  oq_q :: ClientOpQueue
  dealQueue :: "MOSDOp list"
  dealTs :: "u64 list"
  periodTs :: "u64 list"
  finishThread :: bool
  copyupFlag :: bool
  oq_hpc :: hpc
  oq_spc :: spc
  cap_wait :: "entry list"
  cap_woken :: "entry list"
  oq_net :: Net
  oq_acc :: "entry list"
  oq_served :: "entry list"
  oq_submitted :: "SaOpReq list"

record queue_env =
  e_codec :: codec
  e_junk :: RbdObjid
  e_qos :: QosParam
  e_limits :: cache_limits
  e_module :: bool
  queueMaxCapacity :: nat

text \<open>\<open>CreateWorkThread\<close>: an empty queue and a handler about to take the lock.\<close>

definition new_op_queue :: "Net \<Rightarrow> op_queue" where
  "new_op_queue n = \<lparr>oq_q = new_queue, dealQueue = [], dealTs = [], periodTs = [], finishThread = False,
     copyupFlag = False, oq_hpc = HRelock, oq_spc = SIdle, cap_wait = [], cap_woken = [], oq_net = n,
     oq_acc = [], oq_served = [], oq_submitted = []\<rparr>"

text \<open>The cores of the handler threads: those the messenger threads leave over.\<close>

definition work_cores :: "bool \<Rightarrow> nat \<Rightarrow> nat \<Rightarrow> int list \<Rightarrow> int list" where
  "work_cores bindMsgrCore msgrNum portAmount coreId =
     (if bindMsgrCore then
        if length coreId \<le> msgrNum + portAmount then coreId else drop (msgrNum + portAmount) coreId
      else coreId)"

definition CreateWorkThread :: "bool \<Rightarrow> nat \<Rightarrow> nat \<Rightarrow> int list \<Rightarrow> nat \<Rightarrow> Net \<Rightarrow> fault + (op_queue \<times> int) list" where
  "CreateWorkThread bindMsgrCore msgrNum portAmount coreId qnum n =
     (let saCoreId = work_cores bindMsgrCore msgrNum portAmount coreId in
      if qnum = 0 then Inr []
      else if saCoreId = [] then Inl DivByZero
      else Inr (map (\<lambda>i. (new_op_queue n, saCoreId ! (i mod length saCoreId))) [0 ..< qnum]))"

definition lock_free :: "op_queue \<Rightarrow> bool" where
  "lock_free s \<longleftrightarrow> oq_hpc s \<noteq> HTest \<and> oq_hpc s \<noteq> HBody"

definition notify_condOpReq :: "op_queue \<Rightarrow> op_queue" where
  "notify_condOpReq s = (if oq_hpc s = HWait then s\<lparr>oq_hpc := HWoken\<rparr> else s)"

text \<open>The receiver inside the lock: it enqueues, or waits once when the queue is over capacity.\<close>

definition enqueue :: "entry \<Rightarrow> op_queue \<Rightarrow> op_queue" where
  "enqueue e s =
     (case e of (op, ts, p) \<Rightarrow>
        notify_condOpReq (s\<lparr>oq_q := EnQueue op ts p (oq_q s), oq_acc := oq_acc s @ [e]\<rparr>))"

definition EnqueueClientop :: "queue_env \<Rightarrow> entry \<Rightarrow> op_queue \<Rightarrow> op_queue" where
  "EnqueueClientop E e s =
     (if queueMaxCapacity E < GetSize (oq_q s) then s\<lparr>cap_wait := cap_wait s @ [e]\<rparr> else enqueue e s)"

text \<open>The handler inside the lock, after the loop condition: it swaps the queues or waits.\<close>

definition handler_body :: "op_queue \<Rightarrow> op_queue" where
  "handler_body s =
     (if \<not> Empty (oq_q s) then
        s\<lparr>oq_q := \<lparr>reqQueue = dealQueue s, tsQueue = dealTs s, period = periodTs s\<rparr>,
          dealQueue := reqQueue (oq_q s), dealTs := tsQueue (oq_q s), periodTs := period (oq_q s),
          cap_wait := [], cap_woken := cap_woken s @ cap_wait s, oq_hpc := HDeal\<rparr>
      else s\<lparr>oq_hpc := HWait\<rparr>)"

text \<open>One round of the loop over the batch, up to admission.\<close>

definition deal_one :: "queue_env \<Rightarrow> op_queue \<Rightarrow> op_queue" where
  "deal_one E s =
     (case dealTs s of
        [] \<Rightarrow> s\<lparr>oq_hpc := HCrashed OutOfBounds\<rparr>
      | ts # dts \<Rightarrow>
          (case ProcessOpReq (e_codec E) (e_junk E) (saOpThrottle (e_qos E)) (e_module E)
                  (dealQueue s) (periodTs s) new_SaOpReq (oq_net s) of
             Inl f \<Rightarrow> s\<lparr>oq_hpc := HCrashed f\<rparr>
           | Inr (ret, dq, pq, opreq, n) \<Rightarrow>
               s\<lparr>dealQueue := dq, dealTs := dts, periodTs := pq, oq_net := n,
                 oq_served := oq_served s @ [(hd (dealQueue s), ts, hd (periodTs s))],
                 oq_hpc := (if ret \<noteq> 0 then HDeal else HAdmit opreq)\<rparr>))"

definition submit :: "SaOpReq \<Rightarrow> op_queue \<Rightarrow> op_queue" where
  "submit opreq s =
     (if exitsCopyUp opreq = 1
      then s\<lparr>copyupFlag := True, oq_submitted := oq_submitted s @ [opreq\<lparr>rq_copyupFlag := True\<rparr>], oq_hpc := HDeal\<rparr>
      else s\<lparr>oq_submitted := oq_submitted s @ [opreq], oq_hpc := HDeal\<rparr>)"

inductive oq_step :: "queue_env \<Rightarrow> op_queue \<Rightarrow> op_queue \<Rightarrow> bool" for E where
  recv: "lock_free s \<Longrightarrow> oq_step E s (EnqueueClientop E e s)"
| recv_woken: "lock_free s \<Longrightarrow> cap_woken s = e # es \<Longrightarrow> oq_step E s (enqueue e (s\<lparr>cap_woken := es\<rparr>))"
| lock: "oq_hpc s \<in> {HRelock, HWoken} \<Longrightarrow> oq_step E s (s\<lparr>oq_hpc := HTest\<rparr>)"
| test: "oq_hpc s = HTest \<Longrightarrow> oq_step E s (s\<lparr>oq_hpc := (if finishThread s then HDone else HBody)\<rparr>)"
| body: "oq_hpc s = HBody \<Longrightarrow> oq_step E s (handler_body s)"
| deal: "oq_hpc s = HDeal \<Longrightarrow> dealQueue s \<noteq> [] \<Longrightarrow> oq_step E s (deal_one E s)"
| deal_end: "oq_hpc s = HDeal \<Longrightarrow> dealQueue s = [] \<Longrightarrow> oq_step E s (s\<lparr>oq_hpc := HRelock\<rparr>)"
| admitted: "oq_hpc s = HAdmit r \<Longrightarrow> admit (e_qos E) (e_limits E) smp r (nt_counters (oq_net s)) = (q', Some n) \<Longrightarrow>
     oq_step E s (s\<lparr>oq_net := (oq_net s)\<lparr>nt_counters := q'\<rparr>, oq_hpc := HCopy r\<rparr>)"
| do_ops: "oq_hpc s = HCopy r \<Longrightarrow> \<not> copyupFlag s \<Longrightarrow> oq_step E s (submit r s)"
| copy_end: "copyupFlag s \<Longrightarrow> oq_step E s (s\<lparr>copyupFlag := False\<rparr>)"
| finish: "r \<in> set (oq_submitted s) \<Longrightarrow>
     oq_step E s (s\<lparr>oq_net := FinishCacheOps (saOpThrottle (e_qos E)) (e_module E) (ptrMosdop r) (rq_optionType r)
        (rq_optionLength r) res (oq_net s)\<rparr>)"
| stop_lock: "oq_spc s = SIdle \<Longrightarrow> lock_free s \<Longrightarrow> oq_step E s (s\<lparr>oq_spc := SSet\<rparr>)"
| stop_set: "oq_spc s = SSet \<Longrightarrow> oq_step E s (s\<lparr>finishThread := True, oq_spc := SNotify\<rparr>)"
| stop_notify: "oq_spc s = SNotify \<Longrightarrow> oq_step E s (notify_condOpReq (s\<lparr>oq_spc := SJoin\<rparr>))"
| stop_join: "oq_spc s = SJoin \<Longrightarrow> oq_hpc s = HDone \<Longrightarrow> oq_step E s (s\<lparr>oq_spc := SJoined\<rparr>)"

inductive oq_spurious :: "op_queue \<Rightarrow> op_queue \<Rightarrow> bool" where
  spurious: "oq_hpc s = HWait \<Longrightarrow> oq_spurious s (s\<lparr>oq_hpc := HWoken\<rparr>)"
| spurious_cap: "cap_wait s = xs @ e # ys \<Longrightarrow>
     oq_spurious s (s\<lparr>cap_wait := xs @ ys, cap_woken := cap_woken s @ [e]\<rparr>)"

definition oq_any :: "queue_env \<Rightarrow> op_queue \<Rightarrow> op_queue \<Rightarrow> bool" where
  "oq_any E s s' \<longleftrightarrow> oq_step E s s' \<or> oq_spurious s s'"

section \<open>The invariant\<close>

text \<open>
  The three queues stay in step, the batch is empty whenever the handler is at the shared queue, a waiting handler
  has an empty queue, and receivers wait only above capacity.
\<close>

definition entries3 :: "MOSDOp list \<Rightarrow> u64 list \<Rightarrow> u64 list \<Rightarrow> entry list" where
  "entries3 a b c = zip a (zip b c)"

definition oq_pending :: "op_queue \<Rightarrow> entry list" where
  "oq_pending s = entries3 (dealQueue s) (dealTs s) (periodTs s) @
     entries3 (reqQueue (oq_q s)) (tsQueue (oq_q s)) (period (oq_q s))"

definition dealing :: "hpc \<Rightarrow> bool" where
  "dealing h \<longleftrightarrow> (case h of HDeal \<Rightarrow> True | HAdmit _ \<Rightarrow> True | HCopy _ \<Rightarrow> True | HCrashed _ \<Rightarrow> True | _ \<Rightarrow> False)"

definition oq_inv :: "queue_env \<Rightarrow> op_queue \<Rightarrow> bool" where
  "oq_inv E s \<longleftrightarrow>
     length (tsQueue (oq_q s)) = length (reqQueue (oq_q s)) \<and> length (period (oq_q s)) = length (reqQueue (oq_q s)) \<and>
     length (dealTs s) = length (dealQueue s) \<and> length (periodTs s) = length (dealQueue s) \<and>
     (\<not> dealing (oq_hpc s) \<longrightarrow> dealQueue s = []) \<and>
     (oq_hpc s = HWait \<longrightarrow> reqQueue (oq_q s) = []) \<and>
     (cap_wait s \<noteq> [] \<longrightarrow> queueMaxCapacity E < length (reqQueue (oq_q s)))"

lemma dealing_simps [simp]:
  "\<not> dealing HRelock" "\<not> dealing HTest" "\<not> dealing HBody" "\<not> dealing HWait" "\<not> dealing HWoken" "\<not> dealing HDone"
  "dealing HDeal" "dealing (HAdmit r)" "dealing (HCopy r)" "dealing (HCrashed f)"
  by (simp_all add: dealing_def)

lemma ConvertOmapOp_fault: "ConvertOmapOp c i r = Inl f \<Longrightarrow> f = UncaughtException"
  by (auto simp: ConvertOmapOp_def Let_def split: osd_op.splits option.splits prod.splits)

lemma ConvertAttrOp_fault: "ConvertAttrOp c i r = Inl f \<Longrightarrow> f = UncaughtException"
  by (auto simp: ConvertAttrOp_def Let_def split: cmpxattr_mode.splits option.splits prod.splits if_splits)

lemma Convert_fault: "ConvertClientopToOpreq c i r ot ol = Inl f \<Longrightarrow> f = UncaughtException"
  by (cases "op_code i")
    (auto simp: ConvertClientopToOpreq_def Let_def ConvertOmapOp_fault ConvertAttrOp_fault
      split: sum.splits prod.splits)

lemma convert_ops_fault:
  "convert_ops c junk name rbd v ops r ot ol = Inl f \<Longrightarrow> f = UncaughtException"
  by (induction ops arbitrary: r ot ol)
    (auto dest: Convert_fault split: option.splits sum.splits prod.splits)

text \<open>With both queues non-empty \<open>ProcessOpReq\<close> takes one element of each, or a decoder throws.\<close>

lemma ProcessOpReq_cases:
  obtains "ProcessOpReq c junk th hm (op # dq) (pts # pq) r n = Inl UncaughtException"
  | ret r' n' where "ProcessOpReq c junk th hm (op # dq) (pts # pq) r n = Inr (ret, dq, pq, r', n')"
proof -
  have "ProcessOpReq c junk th hm (op # dq) (pts # pq) r n = Inl UncaughtException \<or>
    (\<exists>ret r' n'. ProcessOpReq c junk th hm (op # dq) (pts # pq) r n = Inr (ret, dq, pq, r', n'))"
    by (auto simp: ProcessOpReq_def Let_def dest: convert_ops_fault split: sum.splits prod.splits option.splits)
  then show thesis using that by blast
qed

lemma deal_one_cases:
  assumes inv: "oq_inv E s" and ne: "dealQueue s \<noteq> []"
  obtains "deal_one E s = s\<lparr>oq_hpc := HCrashed UncaughtException\<rparr>"
  | op ts pts dq dts pq h n where "dealQueue s = op # dq" "dealTs s = ts # dts" "periodTs s = pts # pq"
      "deal_one E s = s\<lparr>dealQueue := dq, dealTs := dts, periodTs := pq, oq_net := n,
         oq_served := oq_served s @ [(op, ts, pts)], oq_hpc := h\<rparr>" "dealing h" "\<forall>f. h \<noteq> HCrashed f"
proof -
  from ne obtain op dq where d: "dealQueue s = op # dq" by (cases "dealQueue s") auto
  with inv obtain ts dts pts pq where t: "dealTs s = ts # dts" "periodTs s = pts # pq"
    by (cases "dealTs s"; cases "periodTs s") (auto simp: oq_inv_def)
  show thesis
    by (rule ProcessOpReq_cases [of "e_codec E" "e_junk E" "saOpThrottle (e_qos E)" "e_module E" op dq pts pq
          new_SaOpReq "oq_net s"])
      (use that d t in \<open>auto simp: deal_one_def split: if_splits\<close>)
qed

lemma enqueue_q:
  "oq_q (enqueue (op, ts, p) s) = EnQueue op ts p (oq_q s)"
  "oq_acc (enqueue (op, ts, p) s) = oq_acc s @ [(op, ts, p)]"
  "oq_hpc (enqueue (op, ts, p) s) = (if oq_hpc s = HWait then HWoken else oq_hpc s)"
  "dealQueue (enqueue e s) = dealQueue s" "dealTs (enqueue e s) = dealTs s" "periodTs (enqueue e s) = periodTs s"
  "cap_wait (enqueue e s) = cap_wait s" "cap_woken (enqueue e s) = cap_woken s" "oq_served (enqueue e s) = oq_served s"
  "oq_submitted (enqueue e s) = oq_submitted s" "copyupFlag (enqueue e s) = copyupFlag s"
  "oq_spc (enqueue e s) = oq_spc s" "finishThread (enqueue e s) = finishThread s" "oq_net (enqueue e s) = oq_net s"
  by (simp_all add: enqueue_def notify_condOpReq_def split: prod.split)

lemma enqueue_inv: "oq_inv E s \<Longrightarrow> oq_inv E (enqueue e s)"
  by (cases e) (auto simp: oq_inv_def enqueue_q EnQueue_def)

lemma oq_inv_woken [simp]: "oq_inv E (s\<lparr>cap_woken := x\<rparr>) = oq_inv E s"
  by (simp add: oq_inv_def)

lemma oq_inv_init: "oq_inv E (new_op_queue n)"
  by (simp add: oq_inv_def new_op_queue_def new_queue_def)

lemma oq_step_inv: "oq_step E s s' \<Longrightarrow> oq_inv E s \<Longrightarrow> oq_inv E s'"
proof (induction rule: oq_step.induct)
  case (recv s e)
  then show ?case
    by (cases "queueMaxCapacity E < GetSize (oq_q s)")
      (auto simp: EnqueueClientop_def enqueue_inv, simp add: oq_inv_def GetSize_def)
next
  case (recv_woken s e es)
  then show ?case by (simp add: enqueue_inv)
next
  case (deal s)
  show ?case
    by (rule deal_one_cases [OF deal.prems deal.hyps(2)]) (use deal in \<open>auto simp: oq_inv_def\<close>)
next
  case (body s)
  then show ?case by (auto simp: handler_body_def oq_inv_def Empty_def)
qed (auto simp: oq_inv_def submit_def notify_condOpReq_def)

lemma oq_spurious_inv: "oq_spurious s s' \<Longrightarrow> oq_inv E s \<Longrightarrow> oq_inv E s'"
  by (induction rule: oq_spurious.induct) (auto simp: oq_inv_def)

lemma oq_any_inv: "oq_any E s s' \<Longrightarrow> oq_inv E s \<Longrightarrow> oq_inv E s'"
  using oq_step_inv oq_spurious_inv by (auto simp: oq_any_def)

lemma oq_reach_inv: "(oq_any E)\<^sup>*\<^sup>* (new_op_queue n) s \<Longrightarrow> oq_inv E s"
  by (induction rule: rtranclp_induct) (auto intro: oq_inv_init oq_any_inv)

section \<open>First in, first out\<close>

text \<open>A step from a state that satisfies the invariant.\<close>

definition oq_good_step :: "queue_env \<Rightarrow> op_queue \<Rightarrow> op_queue \<Rightarrow> bool" where
  "oq_good_step E s s' \<longleftrightarrow> oq_inv E s \<and> oq_any E s s'"

lemma oq_good_reach: "(oq_any E)\<^sup>*\<^sup>* (new_op_queue n) s \<Longrightarrow> (oq_good_step E)\<^sup>*\<^sup>* (new_op_queue n) s"
proof (induction rule: rtranclp_induct)
  case (step y z)
  then show ?case using oq_reach_inv [OF step.hyps(1)] by (auto simp: oq_good_step_def intro: rtranclp.rtrancl_into_rtrancl)
qed simp

definition same_flow :: "op_queue \<Rightarrow> op_queue \<Rightarrow> bool" where
  "same_flow s s' \<longleftrightarrow> oq_acc s' = oq_acc s \<and> oq_pending s' = oq_pending s \<and> oq_served s' = oq_served s"

definition takes :: "op_queue \<Rightarrow> op_queue \<Rightarrow> bool" where
  "takes s s' \<longleftrightarrow> (\<exists>e. oq_acc s' = oq_acc s @ [e] \<and> oq_pending s' = oq_pending s @ [e] \<and> oq_served s' = oq_served s)"

definition serves :: "op_queue \<Rightarrow> op_queue \<Rightarrow> bool" where
  "serves s s' \<longleftrightarrow> (\<exists>e. oq_acc s' = oq_acc s \<and> oq_pending s = e # oq_pending s' \<and> oq_served s' = oq_served s @ [e])"

lemma enqueue_takes: "oq_inv E s \<Longrightarrow> takes s (enqueue e s)"
  by (cases e) (simp add: takes_def oq_inv_def oq_pending_def entries3_def enqueue_q EnQueue_def)

lemma oq_step_flow: "oq_step E s s' \<Longrightarrow> oq_inv E s \<Longrightarrow> takes s s' \<or> serves s s' \<or> same_flow s s'"
proof (induction rule: oq_step.induct)
  case (recv s e)
  then show ?case
    using enqueue_takes by (auto simp: EnqueueClientop_def same_flow_def oq_pending_def)
next
  case (recv_woken s e es)
  have "takes (s\<lparr>cap_woken := es\<rparr>) (enqueue e (s\<lparr>cap_woken := es\<rparr>))"
    using recv_woken.prems by (intro enqueue_takes) simp
  then show ?case by (simp add: takes_def oq_pending_def)
next
  case (body s)
  then have "dealQueue s = []" "dealTs s = []" "periodTs s = []" by (auto simp: oq_inv_def)
  then show ?case by (simp add: handler_body_def same_flow_def oq_pending_def entries3_def)
next
  case (deal s)
  show ?case
    by (rule deal_one_cases [OF deal.prems deal.hyps(2)])
      (use deal in \<open>auto simp: serves_def same_flow_def oq_pending_def entries3_def\<close>)
qed (auto simp: same_flow_def oq_pending_def submit_def notify_condOpReq_def)

lemma oq_spurious_flow: "oq_spurious s s' \<Longrightarrow> same_flow s s'"
  by (induction rule: oq_spurious.induct) (auto simp: same_flow_def oq_pending_def)

interpretation opq: fifo_server "\<lambda>s. \<exists>n. s = new_op_queue n" "oq_good_step E" oq_acc oq_served oq_pending
  for E
proof
  show "\<exists>n. s = new_op_queue n \<Longrightarrow> oq_acc s = [] \<and> oq_served s = [] \<and> oq_pending s = []" for s
    by (auto simp: new_op_queue_def oq_pending_def entries3_def new_queue_def)
  show "(\<exists>r. oq_acc s' = oq_acc s @ [r] \<and> oq_pending s' = oq_pending s @ [r] \<and> oq_served s' = oq_served s) \<or>
      (\<exists>r. oq_acc s' = oq_acc s \<and> oq_pending s = r # oq_pending s' \<and> oq_served s' = oq_served s @ [r]) \<or>
      oq_acc s' = oq_acc s \<and> oq_pending s' = oq_pending s \<and> oq_served s' = oq_served s"
    if "oq_good_step E s s'" for s s'
    using that oq_step_flow [of E s s'] oq_spurious_flow [of s s']
    by (auto simp: oq_good_step_def oq_any_def takes_def serves_def same_flow_def)
qed

section \<open>Faults, copy-ups and the end of the handler\<close>

definition only_exceptions :: "op_queue \<Rightarrow> bool" where
  "only_exceptions s \<longleftrightarrow> (\<forall>f. oq_hpc s = HCrashed f \<longrightarrow> f = UncaughtException)"

lemma oq_step_exceptions: "oq_step E s s' \<Longrightarrow> oq_inv E s \<Longrightarrow> only_exceptions s \<Longrightarrow> only_exceptions s'"
proof (induction rule: oq_step.induct)
  case (recv s e)
  then show ?case by (cases e) (auto simp: EnqueueClientop_def only_exceptions_def enqueue_q)
next
  case (recv_woken s e es)
  then show ?case by (cases e) (auto simp: only_exceptions_def enqueue_q)
next
  case (deal s)
  show ?case
    by (rule deal_one_cases [OF deal.prems(1) deal.hyps(2)]) (auto simp: only_exceptions_def)
qed (auto simp: only_exceptions_def handler_body_def submit_def notify_condOpReq_def split: if_splits)

lemma oq_reach_exceptions: "(oq_any E)\<^sup>*\<^sup>* (new_op_queue n) s \<Longrightarrow> only_exceptions s"
proof (induction rule: rtranclp_induct)
  case base
  then show ?case by (simp add: only_exceptions_def new_op_queue_def)
next
  case (step y z)
  then show ?case
    using oq_step_exceptions [OF _ oq_reach_inv [OF step.hyps(1)]]
    by (auto simp: oq_any_def only_exceptions_def elim: oq_spurious.cases)
qed

definition copyup_last :: "op_queue \<Rightarrow> bool" where
  "copyup_last s \<longleftrightarrow> (copyupFlag s \<longrightarrow> oq_submitted s \<noteq> [] \<and> exitsCopyUp (last (oq_submitted s)) = 1)"

lemma oq_step_submitted:
  "oq_step E s s' \<Longrightarrow> oq_inv E s \<Longrightarrow>
   (oq_submitted s' = oq_submitted s \<and> (copyupFlag s' \<longrightarrow> copyupFlag s)) \<or> (\<not> copyupFlag s \<and> (\<exists>r. s' = submit r s))"
proof (induction rule: oq_step.induct)
  case (deal s)
  show ?case by (rule deal_one_cases [OF deal.prems deal.hyps(2)]) simp_all
qed (auto simp: EnqueueClientop_def enqueue_q handler_body_def notify_condOpReq_def)

lemma oq_spurious_submitted: "oq_spurious s s' \<Longrightarrow> oq_submitted s' = oq_submitted s \<and> copyupFlag s' = copyupFlag s"
  by (induction rule: oq_spurious.induct) auto

lemma submit_copyup: "\<not> copyupFlag s \<Longrightarrow> copyup_last (submit r s)"
  by (simp add: copyup_last_def submit_def)

lemma oq_any_copyup: "oq_any E s s' \<Longrightarrow> oq_inv E s \<Longrightarrow> copyup_last s \<Longrightarrow> copyup_last s'"
  using oq_step_submitted [of E s s'] oq_spurious_submitted [of s s'] submit_copyup
  by (auto simp: oq_any_def copyup_last_def)

lemma oq_reach_copyup: "(oq_any E)\<^sup>*\<^sup>* (new_op_queue n) s \<Longrightarrow> copyup_last s"
proof (induction rule: rtranclp_induct)
  case base
  then show ?case by (simp add: copyup_last_def new_op_queue_def)
next
  case (step y z)
  then show ?case using oq_any_copyup oq_reach_inv by blast
qed

lemma done_stays: "oq_any E s s' \<Longrightarrow> oq_hpc s = HDone \<Longrightarrow> oq_hpc s' = HDone \<and> oq_served s' = oq_served s"
  unfolding oq_any_def
proof (elim disjE)
  assume "oq_step E s s'" "oq_hpc s = HDone"
  then show ?thesis
  proof (induction rule: oq_step.induct)
    case (recv s e)
    then show ?case by (cases e) (auto simp: EnqueueClientop_def enqueue_q)
  next
    case (recv_woken s e es)
    then show ?case by (cases e) (auto simp: enqueue_q)
  qed (auto simp: notify_condOpReq_def)
qed (auto elim: oq_spurious.cases)

lemma done_for_ever: "(oq_any E)\<^sup>*\<^sup>* s s' \<Longrightarrow> oq_hpc s = HDone \<Longrightarrow> oq_hpc s' = HDone \<and> oq_served s' = oq_served s"
proof (induction rule: rtranclp_induct)
  case (step y z)
  then show ?case using done_stays [OF step.hyps(2)] by simp
qed simp

section \<open>Properties\<close>

text \<open>
  C14: Operations of a queue are processed in the order in which they were accepted, each exactly once and
  each with its own two time stamps, in every interleaving of receivers, handler, cache and stop. The handler never
  reads from an empty queue: the only fault that can end it is a decoder's exception.
\<close>

theorem queue_fifo:
  assumes "(oq_any E)\<^sup>*\<^sup>* (new_op_queue n) s"
  shows "oq_acc s = oq_served s @ oq_pending s \<and> (\<forall>f. oq_hpc s = HCrashed f \<longrightarrow> f = UncaughtException)"
  using opq.conservation [OF _ oq_good_reach [OF assms]] oq_reach_exceptions [OF assms]
  by (auto simp: only_exceptions_def)

definition demo_env :: queue_env where
  "demo_env = \<lparr>e_codec = le_codec, e_junk = rbdObjId blank_req, e_qos = default_qos, e_limits = no_limits,
     e_module = True, queueMaxCapacity = 10\<rparr>"

definition demo_run :: op_queue where
  "demo_run = EnqueueClientop demo_env (one_op_msg, 1, 2) (new_op_queue idle_net)"

lemma demo_run_reach: "(oq_any demo_env)\<^sup>*\<^sup>* (new_op_queue idle_net) demo_run"
  unfolding demo_run_def oq_any_def
  by (intro r_into_rtranclp disjI1 recv) (simp add: lock_free_def new_op_queue_def)

theorem queue_fifo_witness:
  "oq_acc demo_run = [(one_op_msg, 1, 2)] \<and> oq_acc demo_run = oq_served demo_run @ oq_pending demo_run"
  using queue_fifo [OF demo_run_reach]
  by (simp add: demo_run_def EnqueueClientop_def demo_env_def GetSize_def new_op_queue_def new_queue_def enqueue_q)

text \<open>
  C15: No wake-up is lost between receivers and handler. Whenever the handler waits on its condition variable
  everything accepted has been processed and no receiver waits for room in the queue.
\<close>

theorem queue_no_lost_wakeup:
  assumes reach: "(oq_any E)\<^sup>*\<^sup>* (new_op_queue n) s" and wait: "oq_hpc s = HWait"
  shows "oq_pending s = [] \<and> cap_wait s = [] \<and> oq_served s = oq_acc s"
proof -
  have "oq_inv E s" by (rule oq_reach_inv [OF reach])
  then have p: "oq_pending s = []" "cap_wait s = []"
    using wait by (auto simp: oq_inv_def oq_pending_def entries3_def)
  then show ?thesis using opq.all_served [OF _ oq_good_reach [OF reach]] by auto
qed

lemma idle_handler_reach:
  "(oq_step E)\<^sup>*\<^sup>* (new_op_queue n) ((new_op_queue n)\<lparr>oq_hpc := HWait\<rparr>)"
proof -
  have "oq_step E (new_op_queue n) ((new_op_queue n)\<lparr>oq_hpc := HTest\<rparr>)"
    by (rule lock) (simp add: new_op_queue_def)
  moreover have "oq_step E ((new_op_queue n)\<lparr>oq_hpc := HTest\<rparr>) ((new_op_queue n)\<lparr>oq_hpc := HBody\<rparr>)"
    using test [of "(new_op_queue n)\<lparr>oq_hpc := HTest\<rparr>" E] by (simp add: new_op_queue_def)
  moreover have "oq_step E ((new_op_queue n)\<lparr>oq_hpc := HBody\<rparr>) ((new_op_queue n)\<lparr>oq_hpc := HWait\<rparr>)"
    using body [of "(new_op_queue n)\<lparr>oq_hpc := HBody\<rparr>" E]
    by (simp add: new_op_queue_def handler_body_def Empty_def new_queue_def)
  ultimately show ?thesis
    by (meson converse_rtranclp_into_rtranclp r_into_rtranclp)
qed

lemma step_reach_any: "(oq_step E)\<^sup>*\<^sup>* s s' \<Longrightarrow> (oq_any E)\<^sup>*\<^sup>* s s'"
  by (erule rtranclp_mono [THEN predicate2D, rotated]) (auto simp: oq_any_def)

theorem queue_no_lost_wakeup_witness:
  "oq_pending ((new_op_queue idle_net)\<lparr>oq_hpc := HWait\<rparr>) = []"
  using queue_no_lost_wakeup [OF step_reach_any [OF idle_handler_reach [of demo_env idle_net]]] by simp

text \<open>
  C16: A copy-up is exclusive on its queue. While the flag of a copy-up is set, the copy-up is the last request that was
  handed to the cache, and no step of any thread hands over another one.
\<close>

theorem copyup_exclusive:
  assumes reach: "(oq_any E)\<^sup>*\<^sup>* (new_op_queue n) s" and flag: "copyupFlag s" and step: "oq_any E s s'"
  shows "oq_submitted s \<noteq> [] \<and> exitsCopyUp (last (oq_submitted s)) = 1 \<and> oq_submitted s' = oq_submitted s"
  using oq_reach_copyup [OF reach] flag step oq_step_submitted [of E s s', OF _ oq_reach_inv [OF reach]]
    oq_spurious_submitted [of s s']
  by (auto simp: copyup_last_def oq_any_def)

definition copy_msg :: MOSDOp where
  "copy_msg = one_op_msg\<lparr>mo_ops := [blank_op\<lparr>op_code := CEPH_OSD_OP_CALL, class_len := 3, method_len := 6,
     indata := ''rbdcopyup''\<rparr>]\<rparr>"

definition copy_req :: SaOpReq where
  "copy_req = (fill_request copy_msg new_SaOpReq)\<lparr>vecOps := [(fresh_op ''obj'' False (rbdObjId blank_req))\<lparr>opSubType := CEPH_OSD_OP_CALL\<rparr>],
     exitsCopyUp := 1, rq_optionType := GCACHE_READ\<rparr>"

definition copy_net :: Net where
  "copy_net = idle_net\<lparr>nt_counters := \<lparr>lwtCount = 1, lwtWriteCount = 0, lwtReadCount = 1, writeBW = 0, readBW = 0\<rparr>\<rparr>"

lemma copy_process:
  "ProcessOpReq le_codec (rbdObjId blank_req) 5000 True [copy_msg] [2] new_SaOpReq idle_net = Inr (0, [], [], copy_req, idle_net)"
proof -
  have "rbd_sections ''obj'' = [''obj'']" by (simp add: rbd_sections_def c_str_def strtok.simps)
  then show ?thesis
    by (simp add: ProcessOpReq_def copy_msg_def copy_req_def one_op_msg_def Let_def ConvertClientopToOpreq_def
        call_names_def bl_copy_def fill_request_def new_SaOpReq_def)
qed

lemma copy_admit: "admit default_qos no_limits (\<lambda>_. []) copy_req (nt_counters idle_net) = (nt_counters copy_net, Some 0)"
  by (simp add: admit_def and_then_def GetlwtCas_def GetReadlwtCas_def GetReadBWCas_def throttle_wait.simps
      default_qos_def no_limits_def copy_req_def fill_request_def new_SaOpReq_def idle_net_def copy_net_def)

definition copy_state :: op_queue where
  "copy_state = (new_op_queue copy_net)\<lparr>copyupFlag := True, oq_hpc := HDeal, oq_acc := [(copy_msg, 1, 2)],
     oq_served := [(copy_msg, 1, 2)], oq_submitted := [copy_req\<lparr>rq_copyupFlag := True\<rparr>]\<rparr>"

lemma copy_reach: "(oq_step demo_env)\<^sup>*\<^sup>* (new_op_queue idle_net) copy_state"
proof -
  let ?i = "new_op_queue idle_net"
  let ?a = "?i\<lparr>oq_q := \<lparr>reqQueue = [copy_msg], tsQueue = [1], period = [2]\<rparr>, oq_acc := [(copy_msg, 1, 2)]\<rparr>"
  let ?b = "?i\<lparr>dealQueue := [copy_msg], dealTs := [1], periodTs := [2], oq_acc := [(copy_msg, 1, 2)], oq_hpc := HDeal\<rparr>"
  let ?c = "?i\<lparr>oq_acc := [(copy_msg, 1, 2)], oq_served := [(copy_msg, 1, 2)], oq_hpc := HAdmit copy_req\<rparr>"
  let ?d = "(new_op_queue copy_net)\<lparr>oq_acc := [(copy_msg, 1, 2)], oq_served := [(copy_msg, 1, 2)], oq_hpc := HCopy copy_req\<rparr>"
  have 1: "oq_step demo_env ?i ?a"
    using recv [of ?i demo_env "(copy_msg, 1, 2)"]
    by (simp add: lock_free_def new_op_queue_def EnqueueClientop_def demo_env_def GetSize_def new_queue_def enqueue_def
        EnQueue_def notify_condOpReq_def)
  have 2: "oq_step demo_env ?a (?a\<lparr>oq_hpc := HTest\<rparr>)"
    using lock [of ?a demo_env] by (simp add: new_op_queue_def)
  have 3: "oq_step demo_env (?a\<lparr>oq_hpc := HTest\<rparr>) (?a\<lparr>oq_hpc := HBody\<rparr>)"
    using test [of "?a\<lparr>oq_hpc := HTest\<rparr>" demo_env] by (simp add: new_op_queue_def)
  have 4: "oq_step demo_env (?a\<lparr>oq_hpc := HBody\<rparr>) ?b"
    using body [of "?a\<lparr>oq_hpc := HBody\<rparr>" demo_env]
    by (simp add: new_op_queue_def handler_body_def Empty_def new_queue_def)
  have 5: "oq_step demo_env ?b ?c"
    using deal [of ?b demo_env] copy_process by (simp add: new_op_queue_def deal_one_def demo_env_def default_qos_def)
  have 6: "oq_step demo_env ?c ?d"
    using admitted [of ?c copy_req demo_env "\<lambda>_. []" "nt_counters copy_net" 0] copy_admit
    by (simp add: new_op_queue_def demo_env_def copy_net_def idle_net_def)
  have 7: "oq_step demo_env ?d copy_state"
    using do_ops [of ?d copy_req demo_env]
    by (simp add: new_op_queue_def submit_def copy_state_def copy_req_def)
  show ?thesis using 1 2 3 4 5 6 7 by (meson converse_rtranclp_into_rtranclp r_into_rtranclp)
qed

theorem copyup_exclusive_witness:
  "copyupFlag copy_state \<and> exitsCopyUp (last (oq_submitted copy_state)) = 1 \<and>
   oq_submitted (EnqueueClientop demo_env (one_op_msg, 3, 4) copy_state) = oq_submitted copy_state"
proof -
  have f: "copyupFlag copy_state" by (simp add: copy_state_def)
  have "oq_any demo_env copy_state (EnqueueClientop demo_env (one_op_msg, 3, 4) copy_state)"
    unfolding oq_any_def by (intro disjI1 recv) (simp add: lock_free_def copy_state_def)
  with copyup_exclusive [OF step_reach_any [OF copy_reach] f] f show ?thesis by blast
qed

text \<open>
  Stopping can hang. \<open>StopThread\<close> takes and releases the lock before it sets \<open>finishThread\<close>, so the
  handler can test the flag, then \<open>StopThread\<close> can set it and notify, and then the handler goes to
  wait: without a spurious wake-up no step is possible but the arrival of a new operation, and \<open>join\<close>
  does not return.
\<close>

theorem stop_lost_wakeup:
  "\<exists>s. (oq_step E)\<^sup>*\<^sup>* (new_op_queue n) s \<and> finishThread s \<and> oq_spc s = SJoin \<and> oq_hpc s = HWait \<and>
     (\<forall>s'. oq_step E s s' \<longrightarrow> oq_acc s' \<noteq> oq_acc s)"
proof -
  let ?ini = "new_op_queue n"
  let ?s = "?ini\<lparr>finishThread := True, oq_spc := SJoin, oq_hpc := HWait\<rparr>"
  have 1: "oq_step E ?ini (?ini\<lparr>oq_spc := SSet\<rparr>)"
    using stop_lock [of ?ini E] by (simp add: new_op_queue_def lock_free_def)
  have 2: "oq_step E (?ini\<lparr>oq_spc := SSet\<rparr>) (?ini\<lparr>oq_spc := SSet, oq_hpc := HTest\<rparr>)"
    using lock [of "?ini\<lparr>oq_spc := SSet\<rparr>" E] by (simp add: new_op_queue_def)
  have 3: "oq_step E (?ini\<lparr>oq_spc := SSet, oq_hpc := HTest\<rparr>) (?ini\<lparr>oq_spc := SSet, oq_hpc := HBody\<rparr>)"
    using test [of "?ini\<lparr>oq_spc := SSet, oq_hpc := HTest\<rparr>" E] by (simp add: new_op_queue_def)
  have 4: "oq_step E (?ini\<lparr>oq_spc := SSet, oq_hpc := HBody\<rparr>) (?ini\<lparr>finishThread := True, oq_spc := SNotify, oq_hpc := HBody\<rparr>)"
    using stop_set [of "?ini\<lparr>oq_spc := SSet, oq_hpc := HBody\<rparr>" E] by (simp add: new_op_queue_def)
  have 5: "oq_step E (?ini\<lparr>finishThread := True, oq_spc := SNotify, oq_hpc := HBody\<rparr>)
      (?ini\<lparr>finishThread := True, oq_spc := SJoin, oq_hpc := HBody\<rparr>)"
    using stop_notify [of "?ini\<lparr>finishThread := True, oq_spc := SNotify, oq_hpc := HBody\<rparr>" E]
    by (simp add: new_op_queue_def notify_condOpReq_def)
  have 6: "oq_step E (?ini\<lparr>finishThread := True, oq_spc := SJoin, oq_hpc := HBody\<rparr>) ?s"
    using body [of "?ini\<lparr>finishThread := True, oq_spc := SJoin, oq_hpc := HBody\<rparr>" E]
    by (simp add: new_op_queue_def handler_body_def Empty_def new_queue_def)
  have "(oq_step E)\<^sup>*\<^sup>* ?ini ?s"
    using 1 2 3 4 5 6 by (meson converse_rtranclp_into_rtranclp r_into_rtranclp)
  moreover have "oq_acc s' \<noteq> oq_acc ?s" if "oq_step E ?s s'" for s'
    using that
  proof (cases rule: oq_step.cases)
    case (recv e)
    then show ?thesis
      by (cases e) (simp add: EnqueueClientop_def GetSize_def new_op_queue_def new_queue_def enqueue_q)
  qed (auto simp: new_op_queue_def)
  ultimately show ?thesis by (intro exI [of _ ?s]) (simp add: new_op_queue_def)
qed

theorem stop_lost_wakeup_witness:
  "\<exists>s. (oq_step demo_env)\<^sup>*\<^sup>* (new_op_queue idle_net) s \<and> oq_spc s = SJoin \<and> oq_hpc s = HWait \<and>
     (\<forall>s'. oq_step demo_env s s' \<longrightarrow> oq_acc s' \<noteq> oq_acc s)"
  using stop_lost_wakeup [of demo_env idle_net] by blast

text \<open>
  Stopping drops what is queued. There are runs in which \<open>StopThread\<close> returns while an accepted operation is still
  in the queue, and no continuation ever processes it: the handler leaves its loop as soon as it sees the
  flag.
\<close>

theorem stop_drops_queued:
  "\<exists>s. (oq_step E)\<^sup>*\<^sup>* (new_op_queue n) s \<and> oq_spc s = SJoined \<and> oq_acc s = [e] \<and> oq_served s = [] \<and>
     (\<forall>s'. (oq_any E)\<^sup>*\<^sup>* s s' \<longrightarrow> oq_served s' = [])"
proof -
  obtain op ts p where e: "e = (op, ts, p)" by (cases e)
  let ?a = "(new_op_queue n)\<lparr>oq_q := EnQueue op ts p new_queue, oq_acc := [e]\<rparr>"
  let ?s = "?a\<lparr>oq_hpc := HDone, finishThread := True, oq_spc := SJoined\<rparr>"
  note flat = new_op_queue_def lock_free_def notify_condOpReq_def
  have 1: "oq_step E (new_op_queue n) ?a"
    using recv [of "new_op_queue n" E e] e
    by (simp add: flat EnqueueClientop_def enqueue_def GetSize_def new_queue_def)
  have 2: "oq_step E ?a (?a\<lparr>oq_spc := SSet\<rparr>)"
    using stop_lock [of ?a E] by (simp add: flat)
  have 3: "oq_step E (?a\<lparr>oq_spc := SSet\<rparr>) (?a\<lparr>finishThread := True, oq_spc := SNotify\<rparr>)"
    using stop_set [of "?a\<lparr>oq_spc := SSet\<rparr>" E] by (simp add: flat)
  have 4: "oq_step E (?a\<lparr>finishThread := True, oq_spc := SNotify\<rparr>) (?a\<lparr>finishThread := True, oq_spc := SJoin\<rparr>)"
    using stop_notify [of "?a\<lparr>finishThread := True, oq_spc := SNotify\<rparr>" E] by (simp add: flat)
  have 5: "oq_step E (?a\<lparr>finishThread := True, oq_spc := SJoin\<rparr>) (?a\<lparr>oq_hpc := HTest, finishThread := True, oq_spc := SJoin\<rparr>)"
    using lock [of "?a\<lparr>finishThread := True, oq_spc := SJoin\<rparr>" E] by (simp add: flat)
  have 6: "oq_step E (?a\<lparr>oq_hpc := HTest, finishThread := True, oq_spc := SJoin\<rparr>)
      (?a\<lparr>oq_hpc := HDone, finishThread := True, oq_spc := SJoin\<rparr>)"
    using test [of "?a\<lparr>oq_hpc := HTest, finishThread := True, oq_spc := SJoin\<rparr>" E] by (simp add: flat)
  have 7: "oq_step E (?a\<lparr>oq_hpc := HDone, finishThread := True, oq_spc := SJoin\<rparr>) ?s"
    using stop_join [of "?a\<lparr>oq_hpc := HDone, finishThread := True, oq_spc := SJoin\<rparr>" E] by (simp add: flat)
  have "(oq_step E)\<^sup>*\<^sup>* (new_op_queue n) ?s"
    using 1 2 3 4 5 6 7 by (meson converse_rtranclp_into_rtranclp r_into_rtranclp)
  moreover have "oq_served s' = []" if "(oq_any E)\<^sup>*\<^sup>* ?s s'" for s'
    using done_for_ever [OF that] by (simp add: flat)
  ultimately show ?thesis by (intro exI [of _ ?s]) (simp add: flat)
qed

theorem stop_drops_queued_witness:
  "\<exists>s. (oq_step demo_env)\<^sup>*\<^sup>* (new_op_queue idle_net) s \<and> oq_spc s = SJoined \<and> oq_acc s = [(one_op_msg, 1, 2)] \<and>
     (\<forall>s'. (oq_any demo_env)\<^sup>*\<^sup>* s s' \<longrightarrow> oq_served s' = [])"
  using stop_drops_queued [of demo_env idle_net "(one_op_msg, 1, 2)"] by blast

end
