(* ===== verification/Write_Quota.thy ===== *)
theory Write_Quota
  imports Process_Op
begin

text \<open>
  The write limit of \<open>server_adaptor/network_module.cpp\<close> (\<open>LimitWrite\<close>): per cycle of \<open>getQuotaCycle\<close>
  milliseconds the adaptor asks the cache for its write quota and lets the receiving thread sleep to the end of the cycle once
  the cycle's volume is used up.

  Clock readings (in milliseconds), the cache's answers and the uninitialised \<open>timeInterval\<close> are arguments. The loop that asks
  again while the quota is 0 consumes one answer a round; \<open>None\<close> says that it is still asking when the
  answers are used up.
\<close>

record write_limit =
  cycleBegin :: int
  periodBW :: u64
  wcacheBW :: u64
  writeRatio :: u32

definition quota_bw :: "u32 \<Rightarrow> u32 \<Rightarrow> fault + u64" where
  "quota_bw cyc ratio =
     (if cyc < 1000 then
        if cyc = 0 then Inl DivByZero else Inr (ucast (ratio div (1000 div cyc)))
      else Inr (ucast (ratio * (cyc div 1000))))"

fun quota_loop :: "u32 \<Rightarrow> int \<Rightarrow> u32 list \<Rightarrow> write_limit \<Rightarrow> fault + write_limit option" where
  "quota_loop cyc t [] l = Inr None"
| "quota_loop cyc t (ratio # answers) l =
     (case quota_bw cyc ratio of
        Inl f \<Rightarrow> Inl f
      | Inr bw \<Rightarrow>
          let l1 = l\<lparr>writeRatio := ratio, wcacheBW := bw\<rparr>
          in if ratio = 0 then quota_loop cyc t answers l1
             else Inr (Some (l1\<lparr>periodBW := 0, cycleBegin := t\<rparr>)))"

text \<open>The result is the new state and the time to sleep before the operation is let through.\<close>

definition LimitWrite ::
    "u32 \<Rightarrow> MOSDOp \<Rightarrow> int \<Rightarrow> int \<Rightarrow> u32 list \<Rightarrow> int \<Rightarrow> int \<Rightarrow> write_limit \<Rightarrow> fault + (write_limit \<times> u32) option" where
  "LimitWrite cyc op nowTime junk answers begin_time later l =
     (let timeInterval = (if cycleBegin l \<le> nowTime then nowTime - cycleBegin l else junk) in
      case (if uint cyc \<le> timeInterval then quota_loop cyc begin_time answers l else Inr (Some l)) of
        Inl f \<Rightarrow> Inl f
      | Inr None \<Rightarrow> Inr None
      | Inr (Some l1) \<Rightarrow>
          let l2 = l1\<lparr>periodBW := periodBW l1 + write_amount (mo_ops op)\<rparr> in
          if wcacheBW l2 \<le> periodBW l2 then
            let interval2 = later - cycleBegin l2
            in if interval2 \<le> uint cyc then Inr (Some (l2, word_of_int (uint cyc - interval2))) else Inr (Some (l2, 0))
          else Inr (Some (l2, 0)))"

definition SetQosParam :: "QosParam \<Rightarrow> QosParam \<Rightarrow> QosParam" where
  "SetQosParam p qosParam = p"

section \<open>Facts\<close>

lemma uint_of_range: "0 \<le> x \<Longrightarrow> x < 2 ^ 32 \<Longrightarrow> uint (word_of_int x :: u32) = x"
  by (simp add: uint_word_of_int)

lemma unat_ucast_u32_u64: "unat (ucast (w :: u32) :: u64) = unat w"
proof -
  have "unat w < 2 ^ LENGTH(32)" by (rule unsigned_less)
  then show ?thesis by (simp add: unsigned_ucast_eq take_bit_nat_eq_self)
qed

lemma quota_bw_ok: "cyc \<noteq> 0 \<Longrightarrow> \<exists>bw. quota_bw cyc ratio = Inr bw"
  by (simp add: quota_bw_def)

lemma quota_loop_zero: "cyc \<noteq> 0 \<Longrightarrow> list_all (\<lambda>a. a = 0) answers \<Longrightarrow> quota_loop cyc t answers l = Inr None"
proof (induction answers arbitrary: l)
  case (Cons a answers)
  then show ?case using quota_bw_ok [of cyc a] by (auto simp: Let_def)
qed simp

lemma quota_loop_some:
  "cyc \<noteq> 0 \<Longrightarrow> list_ex (\<lambda>a. a \<noteq> 0) answers \<Longrightarrow> \<exists>l'. quota_loop cyc t answers l = Inr (Some l') \<and> cycleBegin l' = t"
proof (induction answers arbitrary: l)
  case (Cons a answers)
  then show ?case using quota_bw_ok [of cyc a] by (auto simp: Let_def)
qed simp

section \<open>Properties\<close>

text \<open>
  What the write limit does. With a cycle of at least a millisecond and a clock that does not go
  back: if a new cycle is due and the cache answers with quota 0 only, the call does not return; in every other case it
  returns, and then either the cycle's volume is still below the quota or the sleep reaches the
  end of the cycle.
\<close>

theorem LimitWrite_effect:
  assumes cyc: "cyc \<noteq> 0" and time: "cycleBegin l \<le> nowTime" "nowTime \<le> begin_time" "begin_time \<le> later"
  shows "if uint cyc \<le> nowTime - cycleBegin l \<and> list_all (\<lambda>a. a = 0) answers
    then LimitWrite cyc op nowTime junk answers begin_time later l = Inr None
    else \<exists>l' w. LimitWrite cyc op nowTime junk answers begin_time later l = Inr (Some (l', w)) \<and>
           (periodBW l' < wcacheBW l' \<or> cycleBegin l' + uint cyc \<le> later + uint w)"
proof (cases "uint cyc \<le> nowTime - cycleBegin l \<and> list_all (\<lambda>a. a = 0) answers")
  case True
  then show ?thesis using time quota_loop_zero [OF cyc] by (simp add: LimitWrite_def Let_def)
next
  case False
  have "\<exists>l1. (if uint cyc \<le> nowTime - cycleBegin l then quota_loop cyc begin_time answers l else Inr (Some l)) = Inr (Some l1) \<and>
      cycleBegin l1 \<le> later"
  proof (cases "uint cyc \<le> nowTime - cycleBegin l")
    case True
    then have "list_ex (\<lambda>a. a \<noteq> 0) answers" using False by (auto simp: list_all_iff list_ex_iff)
    from quota_loop_some [OF cyc this] obtain l' where
      "quota_loop cyc begin_time answers l = Inr (Some l')" "cycleBegin l' = begin_time" by blast
    then show ?thesis using True time by auto
  qed (use time in auto)
  then obtain l1 where l1: "(if uint cyc \<le> nowTime - cycleBegin l then quota_loop cyc begin_time answers l else Inr (Some l)) =
      Inr (Some l1)" "cycleBegin l1 \<le> later" by blast
  have w: "uint (word_of_int (uint cyc - (later - cycleBegin l1)) :: u32) = uint cyc - (later - cycleBegin l1)"
    if "later - cycleBegin l1 \<le> uint cyc"
  proof (rule uint_of_range)
    have "uint cyc < 2 ^ LENGTH(32)" by (rule unsigned_less)
    with l1(2) show "uint cyc - (later - cycleBegin l1) < 2 ^ 32" by simp
  qed (use that in simp)
  show ?thesis
    using False l1 w time by (auto simp: LimitWrite_def Let_def not_le)
qed

theorem LimitWrite_effect_witness:
  "LimitWrite 200 one_op_msg 1000 0 [0, 0, 0] 1000 1000 \<lparr>cycleBegin = 0, periodBW = 0, wcacheBW = 0, writeRatio = 0\<rparr> = Inr None"
  using LimitWrite_effect [of 200 "\<lparr>cycleBegin = 0, periodBW = 0, wcacheBW = 0, writeRatio = 0\<rparr>" 1000 1000 1000 "[0, 0, 0]"
      one_op_msg 0]
  by simp

text \<open>
  The quota of a cycle is the cache's rate for a second, scaled to the cycle, rounded. For a cycle below a second the
  integer arithmetic never gives less than the proportional share (rounded down) and at most twice the share; the factor is
  real: a cycle of 501 ms gets the full second's quota.
\<close>

theorem quota_bw_bounds:
  assumes "0 < cyc" and "cyc < 1000"
  shows "\<exists>bw. quota_bw cyc ratio = Inr bw \<and>
    unat ratio * unat cyc < 1000 * (unat bw + 1) \<and> 1000 * unat bw \<le> 2 * unat ratio * unat cyc \<and>
    quota_bw 501 ratio = Inr (ucast ratio)"
proof -
  let ?c = "unat cyc" and ?r = "unat ratio"
  let ?k = "1000 div ?c"
  have c: "0 < ?c" "?c < 1000" using assms by (auto simp: word_less_nat_alt)
  have k: "0 < ?k" using c by (simp add: div_greater_zero_iff)
  have bw: "quota_bw cyc ratio = Inr (ucast (ratio div (1000 div cyc)))" using assms by (auto simp: quota_bw_def)
  have u: "unat (ucast (ratio div (1000 div cyc)) :: u64) = ?r div ?k"
    by (simp add: unat_ucast_u32_u64 unat_div_distrib)
  have "?r < (?r div ?k + 1) * ?k" using k by (simp add: dividend_less_times_div mult.commute)
  then have "?r * ?c < (?r div ?k + 1) * ?k * ?c" using c by simp
  also have "\<dots> \<le> (?r div ?k + 1) * 1000"
    using div_times_less_eq_dividend [of 1000 ?c] by (simp only: mult.assoc mult_le_mono2)
  finally have lower: "?r * ?c < 1000 * (?r div ?k + 1)" by (simp add: mult.commute)
  have "1000 < (?k + 1) * ?c" using c by (simp add: dividend_less_div_times)
  also have "\<dots> \<le> (2 * ?k) * ?c" using k by (intro mult_le_mono1) simp
  finally have "1000 * (?r div ?k) \<le> 2 * ?c * (?k * (?r div ?k))" by (simp add: mult.assoc mult.left_commute)
  also have "\<dots> \<le> 2 * ?c * ?r" by (intro mult_le_mono2) (rule times_div_less_eq_dividend)
  finally have upper: "1000 * (?r div ?k) \<le> 2 * ?r * ?c" by (simp add: mult.assoc mult.commute)
  have "quota_bw 501 ratio = Inr (ucast ratio)" by (simp add: quota_bw_def)
  then show ?thesis using bw u lower upper by auto
qed

theorem quota_bw_bounds_witness:
  "\<exists>bw. quota_bw 200 1000 = Inr bw \<and> 1000 * unat bw \<le> 400000 \<and> 200000 < 1000 * (unat bw + 1)"
  using quota_bw_bounds [of 200 1000] by auto

end
