(* ===== verification/Osa.thy ===== *)
theory Osa
  imports Config_Read Class_Api Op_Queue Write_Quota
begin

text \<open>
  \<open>server_adaptor/osa.cpp\<close> and the start of \<open>network_module.cpp\<close>: reading and checking the parameters of the server adaptor,
  binding its threads to cores, starting the network module and waiting for it, and running an object class
  for a client (\<open>OSA_ExecClass\<close>).

  The network interfaces, the number of processors, the results of binding a port and the moments at which the start sees the
  server thread's answer are parameters.
\<close>

section \<open>Checking the parameters\<close>

definition IsDigit :: "string \<Rightarrow> bool" where
  "IsDigit c \<longleftrightarrow> list_all (\<lambda>x. CHR ''0'' \<le> x \<and> x \<le> CHR ''9'') c"

definition CheckPort :: "string \<Rightarrow> bool" where
  "CheckPort p \<longleftrightarrow> IsDigit p \<and> (let portNum = atoi p in \<not> (65535 < portNum \<or> portNum < 1024))"

definition CheckCoreId :: "int \<Rightarrow> int \<Rightarrow> bool" where
  "CheckCoreId ncpu c \<longleftrightarrow> 0 \<le> c \<and> c < ncpu"

text \<open>
  An interface: no address, or whether its family is an internet one, with what \<open>getnameinfo\<close> says of it. The list is
  missing when \<open>getifaddrs\<close> fails.
\<close>

type_synonym ifaddrs = "(bool \<times> (int + string)) option list"

fun find_if :: "string \<Rightarrow> ifaddrs \<Rightarrow> bool" where
  "find_if ip [] = False"
| "find_if ip (None # ifs) = find_if ip ifs"
| "find_if ip (Some (inet, name) # ifs) =
     (if inet then (case name of Inl _ \<Rightarrow> False | Inr host \<Rightarrow> if ip = host then True else find_if ip ifs) else find_if ip ifs)"

definition CheckLocalIp :: "ifaddrs option \<Rightarrow> string \<Rightarrow> bool" where
  "CheckLocalIp ifs ip = (case ifs of None \<Rightarrow> False | Some l \<Rightarrow> find_if ip l)"

record sa_params =
  ap_addr :: string
  ap_ports :: "string list"
  ap_cores :: "int list"
  ap_queueAmount :: u32
  ap_queueMaxCapacity :: u32
  ap_msgrAmount :: u32
  ap_bindCore :: u32
  ap_bindSaCore :: u32
  ap_qos :: QosParam

abbreviation comma :: char where "comma \<equiv> CHR 0x2C"

text \<open>\<open>OSA_Init\<close> up to the start of Ceph's own library; \<open>None\<close> is the return of \<open>ERROR_PORT\<close>.\<close>

definition osa_check :: "ifaddrs option \<Rightarrow> int \<Rightarrow> SA_ClusterControlCfg \<Rightarrow> sa_params option" where
  "osa_check ifs ncpu cfg =
     (let vecPort = strtok comma (GetListenPort cfg);
          vecCoreId = map atoi (strtok comma (GetCoreNumber cfg));
          queueAmount = GetQueueAmount cfg;
          queueMaxCapacity1 = GetQueueMaxCapacity cfg;
          msgrAmount1 = GetMsgrAmount cfg;
          bindCore1 = GetBindCore cfg;
          qos = \<lparr>limitWrite = GetWriteQoS cfg, getQuotaCycle = GetQuotCyc cfg, enableThrottle = GetMessengerThrottle cfg,
                 saOpThrottle = GetSaOpThrottle cfg\<rparr>
      in if \<not> CheckLocalIp ifs (GetListenIp cfg) then None
         else if \<not> list_all CheckPort vecPort then None
         else if vecPort = [] \<or> 8 < length vecPort then None
         else if \<not> list_all (CheckCoreId ncpu) vecCoreId then None
         else if 5000 < queueAmount \<or> queueAmount < 4 then None
         else if 1024 < queueMaxCapacity1 \<or> queueMaxCapacity1 < 1 then None
         else if 16 < msgrAmount1 \<or> msgrAmount1 < 3 then None
         else if length vecCoreId < unat msgrAmount1 + length vecPort \<and> bindCore1 \<noteq> 0 then None
         else if getQuotaCycle qos < 1 then None
         else if saOpThrottle qos \<noteq> 0 \<and> (saOpThrottle qos < 2000 \<or> 30000 < saOpThrottle qos) then None
         else Some \<lparr>ap_addr = GetListenIp cfg, ap_ports = vecPort, ap_cores = vecCoreId, ap_queueAmount = queueAmount,
                ap_queueMaxCapacity = queueMaxCapacity1, ap_msgrAmount = msgrAmount1, ap_bindCore = bindCore1,
                ap_bindSaCore = GetBindQueueCore cfg, ap_qos = qos\<rparr>)"

section \<open>Binding threads to cores\<close>

text \<open>The tasks are those of \<open>Rados_Client\<close>; here a status file that cannot be read is skipped.\<close>

fun scan_status :: "(string \<times> (bool \<times> string option)) list \<Rightarrow> (u64 list \<times> u64 list) option" where
  "scan_status [] = Some ([], [])"
| "scan_status ((tid, opened, line) # ts) =
     (if \<not> opened then None
      else
        (case scan_status ts of
           None \<Rightarrow> None
         | Some (m, d) \<Rightarrow>
             (case line of
                None \<Rightarrow> Some (m, d)
              | Some l \<Rightarrow> Some (if find_sub ''msgr-worker-'' l then strtoull 10 tid # m else m,
                               if find_sub ''ms_dispatch'' l then strtoull 10 tid # d else d))))"

definition BindCore :: "int list \<Rightarrow> u64 \<Rightarrow> nat \<Rightarrow> bool \<Rightarrow> fault + u64 \<times> int list" where
  "BindCore coreId ii n isWorker =
     (if isWorker then
        if n = 0 then Inr (ii, [])
        else if coreId = [] then Inl DivByZero
        else Inr (ii, map (\<lambda>i. coreId ! (i mod length coreId)) [0 ..< n])
      else if coreId = [] then Inl DivByZero
      else Inr (ii, [coreId ! (n mod length coreId)]))"

fun bind_threads :: "int list \<Rightarrow> nat \<Rightarrow> u64 list \<Rightarrow> fault + (u64 \<times> int list) list" where
  "bind_threads coreId n [] = Inr []"
| "bind_threads coreId n (ii # iis) =
     (case BindCore coreId ii n True of
        Inl f \<Rightarrow> Inl f
      | Inr b \<Rightarrow> (case bind_threads coreId n iis of Inl f \<Rightarrow> Inl f | Inr bs \<Rightarrow> Inr (b # bs)))"

definition BindMsgrWorker ::
    "int list \<Rightarrow> nat \<Rightarrow> nat \<Rightarrow> (string \<times> (bool \<times> string option)) list \<Rightarrow> fault + (u64 \<times> int list) list" where
  "BindMsgrWorker coreId msgrNum portNum tasks =
     (case scan_status tasks of
        None \<Rightarrow> Inr []
      | Some (msgr, dispatch) \<Rightarrow>
          bind_threads coreId (msgrNum + portNum) (take msgrNum (rev (sort msgr)) @ take portNum (rev (sort dispatch))))"

section \<open>Starting and stopping\<close>

record osa_state =
  g_ptrNetwork :: "(op_queue \<times> int) list option"
  rpc_handler :: "class_map option"

text \<open>\<open>look i\<close> is \<open>bindSuccess\<close> as the start sees it the \<open>i\<close>-th time: \<open>-1\<close>, then what the server thread has written.\<close>

function bind_wait :: "(nat \<Rightarrow> int) \<Rightarrow> nat \<Rightarrow> int \<Rightarrow> int \<times> nat" where
  "bind_wait look sleepCnt ret =
     (if look sleepCnt = -1 then
        if 60 \<le> sleepCnt then (102, sleepCnt + 1) else bind_wait look (sleepCnt + 1) ret
      else (ret, sleepCnt))"
  by pat_completeness auto
termination
  by (relation "measure (\<lambda>(look, n, ret). 61 - n)") auto

declare bind_wait.simps [simp del]

text \<open>What \<open>ThreadFuncBodyServer\<close> writes: 0 at the first port that cannot be bound, else 1.\<close>

definition server_answer :: "(string \<Rightarrow> int) \<Rightarrow> string list \<Rightarrow> int" where
  "server_answer bind ports = (if list_all (\<lambda>p. 0 \<le> bind p) ports then 1 else 0)"

definition rpc_init :: "nat \<Rightarrow> dl_env \<Rightarrow> class_map \<Rightarrow> (int \<times> class_map) option" where
  "rpc_init k E cs =
     (case open_class k E ''rgw'' cs of
        None \<Rightarrow> None
      | Some (ret, _, cs1) \<Rightarrow>
          if ret \<noteq> 0 then Some (ret, cs1)
          else (case open_class k E ''lock'' cs1 of None \<Rightarrow> None | Some (ret2, _, cs2) \<Rightarrow> Some (ret2, cs2)))"

text \<open>
  \<open>net_ret\<close> is the result of creating the server thread; the result of \<open>rpc_init\<close> is not looked at. \<open>None\<close> says that loading
  a class does not return.
\<close>

definition OSA_Init ::
    "cfg_env \<Rightarrow> ifaddrs option \<Rightarrow> int \<Rightarrow> int \<Rightarrow> int \<Rightarrow> (nat \<Rightarrow> int) \<Rightarrow> nat \<Rightarrow> dl_env \<Rightarrow> Net \<Rightarrow> osa_state
     \<Rightarrow> (fault + int \<times> osa_state) option" where
  "OSA_Init C ifs nconf ncpu net_ret look k E n s =
     (case CacheClusterConfigInit C nconf of
        Inl f \<Rightarrow> Some (Inl f)
      | Inr (r, cfg) \<Rightarrow>
          if r \<noteq> 0 then Some (Inr (101, s))
          else
            (case osa_check ifs ncpu cfg of
               None \<Rightarrow> Some (Inr (101, s))
             | Some ap \<Rightarrow>
                 if g_ptrNetwork s \<noteq> None then Some (Inr (0, s))
                 else
                   (case CreateWorkThread (ap_bindCore ap \<noteq> 0) (unat (ap_msgrAmount ap)) (length (ap_ports ap)) (ap_cores ap)
                           (unat (ap_queueAmount ap)) n of
                      Inl f \<Rightarrow> Some (Inl f)
                    | Inr qs \<Rightarrow>
                        (case rpc_init k E [] of
                           None \<Rightarrow> None
                         | Some (_, cs) \<Rightarrow>
                             let (ret, cnt) = bind_wait look 0 net_ret
                             in Some (Inr (if look cnt = 0 then 102 else ret,
                                           s\<lparr>g_ptrNetwork := Some qs, rpc_handler := Some cs\<rparr>))))))"

definition OSA_Finish :: "osa_state \<Rightarrow> int \<times> osa_state" where
  "OSA_Finish s =
     (case g_ptrNetwork s of
        None \<Rightarrow> (1, s)
      | Some _ \<Rightarrow> (0, s\<lparr>g_ptrNetwork := None, rpc_handler := None\<rparr>))"

section \<open>Entry points of the cache\<close>

text \<open>The cache hands back the pointer it got in \<open>ptrMosdop\<close>; the entry points cast it and call the function of the network module.\<close>

definition OSA_FinishCacheOps :: "u64 \<Rightarrow> bool \<Rightarrow> MOSDOp option \<Rightarrow> u64 \<Rightarrow> u64 \<Rightarrow> int \<Rightarrow> Net \<Rightarrow> int \<times> Net" where
  "OSA_FinishCacheOps throttle has_module p t l r n = (0, FinishCacheOps throttle has_module p (ucast t) l r n)"

definition OSA_ProcessBuf :: "codec \<Rightarrow> SaStr \<Rightarrow> nat \<Rightarrow> MOSDOp option \<Rightarrow> fault + MOSDOp option" where
  "OSA_ProcessBuf c s cnt p = ProcessBuf c s cnt p"

definition OSA_EncodeOmapGetkeys :: "codec \<Rightarrow> SaBatchKeys option \<Rightarrow> nat \<Rightarrow> MOSDOp option \<Rightarrow> fault + MOSDOp option" where
  "OSA_EncodeOmapGetkeys c batchKeys i p = EncodeOmapGetkeys c batchKeys i p"

definition OSA_EncodeOmapGetvals :: "codec \<Rightarrow> SaBatchKv option \<Rightarrow> nat \<Rightarrow> MOSDOp option \<Rightarrow> fault + MOSDOp option" where
  "OSA_EncodeOmapGetvals c KVs i p = EncodeOmapGetvals c KVs i p"

definition OSA_EncodeOmapGetvalsbykeys :: "codec \<Rightarrow> SaBatchKv option \<Rightarrow> nat \<Rightarrow> MOSDOp option \<Rightarrow> fault + MOSDOp option" where
  "OSA_EncodeOmapGetvalsbykeys c keyValue i p = EncodeOmapGetvalsbykeys c keyValue i p"

definition OSA_EncodeRead ::
    "codec \<Rightarrow> osd_op \<Rightarrow> u32 \<Rightarrow> u32 \<Rightarrow> SaStr \<Rightarrow> nat \<Rightarrow> MOSDOp option \<Rightarrow> fault + MOSDOp option" where
  "OSA_EncodeRead c opType off n s i p = EncodeRead c opType off n s i p"

definition OSA_SetOpResult :: "nat \<Rightarrow> int \<Rightarrow> MOSDOp option \<Rightarrow> fault + MOSDOp option" where
  "OSA_SetOpResult i ret p = SetOpResult i ret p"

definition OSA_EncodeXattrGetxattr :: "SaBatchKv option \<Rightarrow> nat \<Rightarrow> MOSDOp option \<Rightarrow> fault + MOSDOp option" where
  "OSA_EncodeXattrGetxattr keyValue i p = EncodeXattrGetXattr keyValue i p"

definition OSA_EncodeXattrGetxattrs :: "codec \<Rightarrow> SaBatchKv option \<Rightarrow> nat \<Rightarrow> MOSDOp option \<Rightarrow> fault + MOSDOp option" where
  "OSA_EncodeXattrGetxattrs c keyValue i p = EncodeXattrGetXattrs c keyValue i p"

definition OSA_EncodeGetOpstat :: "codec \<Rightarrow> u64 \<Rightarrow> int \<Rightarrow> nat \<Rightarrow> MOSDOp option \<Rightarrow> fault + MOSDOp option" where
  "OSA_EncodeGetOpstat c psize ptime i p = EncodeGetOpstat c psize ptime i p"

definition OSA_EncodeListSnaps ::
    "(obj_list_snap_response_t \<Rightarrow> bytes) \<Rightarrow> ObjSnaps option \<Rightarrow> nat \<Rightarrow> MOSDOp option \<Rightarrow> fault + MOSDOp option" where
  "OSA_EncodeListSnaps enc_resp objSnaps i p = EncodeListSnaps enc_resp objSnaps i p"

section \<open>Running an object class\<close>

text \<open>
  The callbacks of the cache and the code of the methods are parameters; \<open>xe_effect\<close> is what a method does to the client's message through
  the calls of \<open>Class_Api\<close>. \<open>ex_copyup\<close> is \<open>*copyupFlag\<close>.
\<close>

record exec_env =
  xe_codec :: codec
  xe_cb :: cache_cb
  xe_prefetch :: "SaOpReq \<Rightarrow> OpRequestOps \<Rightarrow> int"
  xe_fuel :: nat
  xe_dl :: dl_env
  xe_cxx :: "nat \<Rightarrow> bytes \<Rightarrow> int \<times> bytes"
  xe_c :: "nat \<Rightarrow> bytes \<Rightarrow> int \<times> bytes option"
  xe_effect :: "ClassMethod \<Rightarrow> bytes \<Rightarrow> MOSDOp \<Rightarrow> MOSDOp"

record exec_state =
  ex_msg :: MOSDOp
  ex_ctx :: SaOpContext
  ex_copyup :: bool
  ex_classes :: class_map

definition CheckClassList :: "string \<Rightarrow> bool" where
  "CheckClassList cname \<longleftrightarrow> cname \<in> set [''rgw'', ''lock'']"

text \<open>Class name, method name and input, copied from the operation's data; \<open>None\<close> when the data is too short.\<close>

definition call_parts :: "OSDOp \<Rightarrow> (string \<times> string \<times> bytes) option" where
  "call_parts op =
     (case bl_copy (unat (class_len op)) (indata op) of
        None \<Rightarrow> None
      | Some (cname, bp) \<Rightarrow>
          (case bl_copy (unat (method_len op)) bp of
             None \<Rightarrow> None
           | Some (mname, bp1) \<Rightarrow>
               (case bl_copy (unat (indata_len op)) bp1 of None \<Rightarrow> None | Some (inp, _) \<Rightarrow> Some (cname, mname, inp))))"

definition exec_prefetch :: "exec_env \<Rightarrow> bytes \<Rightarrow> exec_state \<Rightarrow> fault + int \<times> exec_state" where
  "exec_prefetch X inp s =
     (case dec_both (dec_u64 (xe_codec X)) (dec_u64 (xe_codec X)) inp of
        None \<Rightarrow> Inl UncaughtException
      | Some ((offset, n), _) \<Rightarrow>
          let req = ctx_req (ex_ctx s); i = ctx_opId (ex_ctx s) in
          if length (vecOps req) \<le> i then Inl OutOfBounds
          else
            let osdop = (vecOps req ! i)\<lparr>objOffset := ucast offset, objLength := ucast n\<rparr>;
                req1 = req\<lparr>vecOps := (vecOps req)[i := osdop]\<rparr>
            in Inr (xe_prefetch X req1 osdop, s\<lparr>ex_ctx := (ex_ctx s)\<lparr>ctx_req := req1\<rparr>\<rparr>))"

definition exec_copyup :: "exec_env \<Rightarrow> bytes \<Rightarrow> exec_state \<Rightarrow> fault + int \<times> exec_state" where
  "exec_copyup X inp s =
     (case cls_cxx_stat2 (xe_codec X) (xe_cb X) (ex_ctx s) (ex_msg s) of
        Inl f \<Rightarrow> Inl f
      | Inr (r, _, m1) \<Rightarrow>
          if r = 0 then Inr (0, s\<lparr>ex_msg := m1, ex_copyup := False\<rparr>)
          else
            (case cls_cxx_write (xe_cb X) (ex_ctx s) 0 (int (length inp)) inp m1 of
               Inl f \<Rightarrow> Inl f
             | Inr (ret, m2) \<Rightarrow> Inr (ret, s\<lparr>ex_msg := m2, ex_copyup := False\<rparr>)))"

definition exec_method :: "exec_env \<Rightarrow> ClassMethod \<Rightarrow> bytes \<Rightarrow> exec_state \<Rightarrow> fault + int \<times> exec_state" where
  "exec_method X meth inp s =
     (case ClassMethod_exec (xe_cxx X) (xe_c X) meth inp [] of
        Inl f \<Rightarrow> Inl f
      | Inr (result, out) \<Rightarrow>
          let m1 = xe_effect X meth inp (ex_msg s); i = ctx_opId (ex_ctx s) in
          if result = 0 then
            if length (mo_ops m1) \<le> i then Inl OutOfBounds
            else
              let o1 = mo_ops m1 ! i;
                  o2 = o1\<lparr>ext_length := of_nat (length out), outdata := outdata o1 @ out\<rparr>
              in Inr (result, s\<lparr>ex_msg := m1\<lparr>mo_ops := (mo_ops m1)[i := o2]\<rparr>\<rparr>)
          else Inr (result, s\<lparr>ex_msg := m1\<rparr>))"

definition exec_named :: "exec_env \<Rightarrow> string \<Rightarrow> string \<Rightarrow> bytes \<Rightarrow> exec_state \<Rightarrow> (fault + int \<times> exec_state) option" where
  "exec_named X cname mname inp s =
     (case open_class (xe_fuel X) (xe_dl X) cname (ex_classes s) of
        None \<Rightarrow> None
      | Some (r, cls, cs1) \<Rightarrow>
          let s1 = s\<lparr>ex_classes := cs1\<rparr> in
          if r \<noteq> 0 then Some (Inr (- EOPNOTSUPP, s1))
          else
            (case cls of
               None \<Rightarrow> Some (Inl UninitRead)
             | Some n \<Rightarrow>
                 (case get_method (cls_at cs1 n) (c_str mname) of
                    None \<Rightarrow> Some (Inr (- EOPNOTSUPP, s1))
                  | Some meth \<Rightarrow> Some (exec_method X meth inp s1))))"

definition OSA_ExecClass :: "exec_env \<Rightarrow> bool \<Rightarrow> exec_state \<Rightarrow> (fault + int \<times> exec_state) option" where
  "OSA_ExecClass X ctx_nonnull s =
     (if \<not> ctx_nonnull then Some (Inr (- EINVAL, s))
      else if ptrMosdop (ctx_req (ex_ctx s)) = None then Some (Inr (- EINVAL, s))
      else if length (mo_ops (ex_msg s)) \<le> ctx_opId (ex_ctx s) then Some (Inl OutOfBounds)
      else
        (case call_parts (mo_ops (ex_msg s) ! ctx_opId (ex_ctx s)) of
           None \<Rightarrow> Some (Inr (- EINVAL, s))
         | Some (cname, mname, inp) \<Rightarrow>
             if cname = ''rpc'' \<and> mname = ''das_prefetch'' then Some (exec_prefetch X inp s)
             else if cname = ''rbd'' \<and> mname = ''copyup'' then Some (exec_copyup X inp s)
             else if \<not> CheckClassList cname then Some (Inr (- EOPNOTSUPP, s))
             else exec_named X cname mname inp s))"

section \<open>Properties\<close>

subsection \<open>Splitting a list\<close>

text \<open>Tokens of at least \<open>k\<close> characters, with their delimiters, fit \<open>length s div (k + 1)\<close> times into a string.\<close>

definition tokens_fit :: "nat \<Rightarrow> char \<Rightarrow> string \<Rightarrow> bool" where
  "tokens_fit k d s \<longleftrightarrow> (list_all (\<lambda>t. k \<le> length t) (strtok d s) \<longrightarrow> (k + 1) * length (strtok d s) \<le> length s + 1)"

lemma tokens_fit_tail:
  assumes "\<And>t. length t < n \<Longrightarrow> tokens_fit k d t" "length s \<le> n"
    and "list_all (\<lambda>t. k \<le> length t) (strtok d (dropWhile (\<lambda>c. c \<noteq> d) s))"
  shows "(k + 1) * length (strtok d (dropWhile (\<lambda>c. c \<noteq> d) s)) \<le> length (dropWhile (\<lambda>c. c \<noteq> d) s)"
proof (cases "dropWhile (\<lambda>c. c \<noteq> d) s")
  case Nil
  show ?thesis unfolding Nil by simp
next
  case (Cons c r)
  then have "c = d" by (metis (mono_tags) hd_dropWhile list.distinct(1) list.sel(1))
  moreover have "length r < n"
    using assms(2) length_dropWhile_le [of "\<lambda>c. c \<noteq> d" s] Cons by simp
  ultimately show ?thesis using assms(1) [of r] assms(3) Cons by (simp add: tokens_fit_def)
qed

lemma strtok_fit: "tokens_fit k d s"
proof (induction s rule: length_induct)
  case (1 s)
  let ?s = "dropWhile (\<lambda>c. c = d) s"
  let ?t = "takeWhile (\<lambda>c. c \<noteq> d) ?s" and ?r = "dropWhile (\<lambda>c. c \<noteq> d) ?s"
  show ?case
  proof (cases "?s = []")
    case True
    then show ?thesis by (simp add: strtok.simps [of d s] tokens_fit_def)
  next
    case False
    have eq: "strtok d s = ?t # strtok d ?r"
      using False by (simp add: strtok.simps [of d s] Let_def del: dropWhile_eq_Nil_conv)
    have sum: "length ?s = length ?t + length ?r" by (metis length_append takeWhile_dropWhile_id)
    have le: "length ?s \<le> length s" by (rule length_dropWhile_le)
    have "(k + 1) * length (strtok d s) \<le> length s + 1" if "list_all (\<lambda>t. k \<le> length t) (strtok d s)"
    proof -
      have "k \<le> length ?t" and "list_all (\<lambda>t. k \<le> length t) (strtok d ?r)" using that unfolding eq by simp_all
      moreover from this(2) have "(k + 1) * length (strtok d ?r) \<le> length ?r"
        using "1.IH" le by (intro tokens_fit_tail [where n = "length s"]) auto
      ultimately show ?thesis unfolding eq using sum le by simp
    qed
    then show ?thesis by (simp add: tokens_fit_def)
  qed
qed

lemma strtok_count:
  "\<forall>t \<in> set (strtok d s). k \<le> length t \<Longrightarrow> (k + 1) * length (strtok d s) \<le> length s + 1"
  using strtok_fit [of k d s] by (simp add: tokens_fit_def list_all_iff)

text \<open>A port number has at least four digits.\<close>

lemma digit_not_special:
  assumes "CHR ''0'' \<le> c" "c \<le> CHR ''9''"
  shows "\<not> isspace_c c" "c \<noteq> CHR 0x00" "c \<noteq> CHR ''-''" "c \<noteq> CHR ''+''" "digit_val 10 c \<noteq> None"
  using assms by (auto simp: isspace_c_def digit_val_def less_eq_char_def Let_def)

lemma atoi_digits:
  assumes "IsDigit p" "p \<noteq> []"
  shows "atoi p = sint (word_of_int (min (2 ^ 63 - 1) (int (digits_acc 10 0 p))) :: 32 word)"
proof -
  have c: "c_str p = p"
    using assms(1) by (auto simp: c_str_def IsDigit_def list_all_iff digit_not_special intro!: takeWhile_eq_all_conv [THEN iffD2])
  obtain x r where p: "p = x # r" using assms(2) by (cases p) auto
  have x: "CHR ''0'' \<le> x" "x \<le> CHR ''9''" using assms(1) p by (simp_all add: IsDigit_def)
  have "dropWhile isspace_c p = p" "split_sign p = (False, p)"
    using digit_not_special [OF x] by (simp_all add: p split_sign_def)
  then show ?thesis by (simp add: atoi_def c)
qed

lemma CheckPort_length:
  assumes "CheckPort p"
  shows "4 \<le> length p"
proof (rule ccontr)
  assume "\<not> 4 \<le> length p"
  then have l: "length p \<le> 3" by simp
  have d: "IsDigit p" and r: "1024 \<le> atoi p" using assms by (auto simp: CheckPort_def Let_def)
  have "p \<noteq> []" using r by (auto simp: atoi_def c_str_def split_sign_def)
  have "list_all (\<lambda>c. digit_val 10 c \<noteq> None) p"
    using d by (auto simp: IsDigit_def list_all_iff dest: digit_not_special(5))
  then have "digits_acc 10 0 p < 10 ^ length p" by (rule digits_acc_less)
  also have "\<dots> \<le> 10 ^ 3" using l by (intro power_increasing) auto
  finally have v: "digits_acc 10 0 p < 1000" by simp
  then have "sint (word_of_int (min (2 ^ 63 - 1) (int (digits_acc 10 0 p))) :: 32 word) < 1000"
    by (simp add: sint_uint unsigned_of_nat take_bit_int_eq_self take_bit_nat_eq_self signed_take_bit_int_eq_self)
  then show False using atoi_digits [OF d \<open>p \<noteq> []\<close>] r by simp
qed


subsection \<open>Accepted parameters\<close>

lemma osa_checkD:
  assumes "osa_check ifs ncpu cfg = Some ap"
  shows "ap_ports ap = strtok comma (c_str (listenPort cfg))" "ap_cores ap = map atoi (strtok comma (c_str (coreNumber cfg)))"
    "list_all CheckPort (ap_ports ap)" "ap_ports ap \<noteq> []" "length (ap_ports ap) \<le> 8" "list_all (CheckCoreId ncpu) (ap_cores ap)"
    "4 \<le> ap_queueAmount ap" "ap_queueAmount ap \<le> 5000" "ap_queueMaxCapacity ap \<noteq> 0" "ap_queueMaxCapacity ap \<le> 1024"
    "3 \<le> ap_msgrAmount ap" "ap_msgrAmount ap \<le> 16"
    "ap_bindCore ap \<noteq> 0 \<Longrightarrow> unat (ap_msgrAmount ap) + length (ap_ports ap) \<le> length (ap_cores ap)"
    "getQuotaCycle (ap_qos ap) \<noteq> 0"
    "saOpThrottle (ap_qos ap) = 0 \<or> 2000 \<le> saOpThrottle (ap_qos ap) \<and> saOpThrottle (ap_qos ap) \<le> 30000"
  using assms by (auto simp: osa_check_def Let_def not_less not_le split: if_splits)

lemma CreateWorkThread_cores:
  assumes "coreId \<noteq> []"
  shows "\<exists>qs. CreateWorkThread b msgrNum portAmount coreId qnum n = Inr qs \<and> length qs = qnum \<and> snd ` set qs \<subseteq> set coreId"
proof -
  let ?cs = "work_cores b msgrNum portAmount coreId"
  have ne: "?cs \<noteq> []" and sub: "set ?cs \<subseteq> set coreId"
    using assms set_drop_subset [of "msgrNum + portAmount" coreId] by (auto simp: work_cores_def)
  have "?cs ! (i mod length ?cs) \<in> set coreId" for i
    using sub nth_mem [of "i mod length ?cs" ?cs] ne by auto
  then show ?thesis using ne by (cases "qnum = 0") (auto simp: CreateWorkThread_def Let_def)
qed


text \<open>A configuration with one port and four cores.\<close>

definition sample_cfg :: SA_ClusterControlCfg where
  "sample_cfg = zero_SaCfg\<lparr>listenIp := ''::1'', listenPort := ''7880'', coreNumber := ''0,1,2,3'', sc_queueAmount := 4,
     sc_msgrAmount := 3, sc_bindCore := 1, sc_queueMaxCapacity := 8, sc_getQuotaCyc := 200\<rparr>"

definition sample_params :: sa_params where
  "sample_params = \<lparr>ap_addr = ''::1'', ap_ports = [''7880''], ap_cores = [0, 1, 2, 3], ap_queueAmount = 4, ap_queueMaxCapacity = 8,
     ap_msgrAmount = 3, ap_bindCore = 1, ap_bindSaCore = 0,
     ap_qos = \<lparr>limitWrite = 0, getQuotaCycle = 200, enableThrottle = 0, saOpThrottle = 0\<rparr>\<rparr>"

lemma sample_atoi: "atoi ''7880'' = 7880" "atoi ''0'' = 0" "atoi ''1'' = 1" "atoi ''2'' = 2" "atoi ''3'' = 3"
  by (simp_all add: atoi_def c_str_def isspace_c_def split_sign_def digit_val_def Let_def sint_uint)

lemma sample_accepted: "osa_check (Some [None, Some (True, Inr ''::1'')]) 8 sample_cfg = Some sample_params"
proof -
  have p: "strtok comma ''7880'' = [''7880'']" by (simp add: strtok.simps Let_def)
  have c: "strtok comma ''0,1,2,3'' = [''0'', ''1'', ''2'', ''3'']" by (simp add: strtok.simps Let_def)
  have s: "c_str ''7880'' = ''7880''" "c_str ''0,1,2,3'' = ''0,1,2,3''" "c_str ''::1'' = ''::1''" by (simp_all add: c_str_def)
  have k: "CheckPort ''7880''" by (simp add: CheckPort_def IsDigit_def less_eq_char_def sample_atoi)
  show ?thesis
    by (simp add: osa_check_def sample_cfg_def zero_SaCfg_def p c s k sample_atoi CheckLocalIp_def CheckCoreId_def Let_def sample_params_def
        GetQueueAmount_def GetQueueMaxCapacity_def GetMsgrAmount_def GetBindCore_def GetBindQueueCore_def GetWriteQoS_def GetQuotCyc_def
        GetMessengerThrottle_def GetSaOpThrottle_def)
qed


text \<open>
  The port item is read with the size of an address, 16 bytes, although up to eight ports are allowed for: together with the
  lower bound on a port this means that at most three ports are ever listened on; the array of the cores allows
  for at most 64. The configuration library is assumed never to write more than the size it is given.
\<close>

theorem listen_ports_limit:
  assumes "cfg_env_ok C" "CacheClusterConfigInit C nconf = Inr (r, cfg)" "osa_check ifs ncpu cfg = Some ap"
  shows "length (ap_ports ap) \<le> 3 \<and> length (ap_cores ap) \<le> 64"
proof -
  note D = osa_checkD [OF assms(3)]
  have f: "sa_cfg_fits cfg" using CacheClusterConfigInit_result [OF assms(1), of nconf] assms(2) by simp
  have cs: "length (c_str x) \<le> length x" for x by (simp add: c_str_def length_takeWhile_le)
  have "(4 + 1) * length (ap_ports ap) \<le> length (c_str (listenPort cfg)) + 1"
    unfolding D(1) by (rule strtok_count) (use D(1,3) in \<open>auto simp: list_all_iff intro: CheckPort_length\<close>)
  then have "5 * length (ap_ports ap) \<le> 16" using f cs [of "listenPort cfg"] by (simp add: sa_cfg_fits_def)
  moreover have "1 \<le> length x" if "x \<in> set (strtok comma s)" for x s
    using strtok_tokens [OF that] by (cases x) (auto simp: is_token_def)
  then have "(1 + 1) * length (strtok comma (c_str (coreNumber cfg))) \<le> length (c_str (coreNumber cfg)) + 1"
    by (intro strtok_count) blast
  then have "2 * length (ap_cores ap) \<le> 128" using f cs [of "coreNumber cfg"] by (simp add: sa_cfg_fits_def D(2))
  ultimately show ?thesis by simp
qed

text \<open>A configuration file with the values of \<open>sample_cfg\<close>.\<close>

definition sample_num :: "string \<Rightarrow> u64" where
  "sample_num k = (if k = ''queue_amount'' then 4 else if k = ''queue_max_capacity'' then 8 else if k = ''msgr_amount'' then 3
     else if k = ''bind_core'' then 1 else if k = ''get_quota_cyc'' then 200 else 0)"

definition sample_env :: cfg_env where
  "sample_env =
     \<lparr>GetCfgItemCstr = (\<lambda>n u k. (0, Some (take (n - 1) (if k = ''local_port'' then ''7880'' else if k = ''public_ipv4_addr'' then ''::1''
        else ''0,1,2,3'')))) , GetCfgItemUint64 = (\<lambda>u k. (0, Some (sample_num k)))\<rparr>"

definition sized_env :: "cfg_env \<Rightarrow> cfg_env" where
  "sized_env E = E\<lparr>GetCfgItemCstr := \<lambda>n u k. if n = 0 then (-1, None) else GetCfgItemCstr E n u k\<rparr>"

lemma sample_env_ok: "cfg_env_ok (sized_env sample_env)"
  by (auto simp: cfg_env_ok_def sample_env_def sized_env_def)

lemma sample_read: "CacheClusterConfigInit (sized_env sample_env) 8 = Inr (0, sample_cfg)"
  by (simp add: CacheClusterConfigInit_def sa_ReadConfig_def get_str_def get_u64_def SetCfgCorenum_def sa_ReadNumbers_def
      sized_env_def sample_env_def sample_num_def core_key_def sample_cfg_def zero_SaCfg_def Let_def)

theorem listen_ports_limit_witness: "length (ap_ports sample_params) \<le> 3 \<and> length (ap_cores sample_params) \<le> 64"
  by (rule listen_ports_limit [OF sample_env_ok sample_read sample_accepted])

subsection \<open>Starting\<close>

lemma bind_wait_from:
  "n \<le> 60 \<Longrightarrow> bind_wait look n ret =
     (if \<exists>i. n \<le> i \<and> i \<le> 60 \<and> look i \<noteq> -1 then (ret, LEAST i. n \<le> i \<and> look i \<noteq> -1) else (102, 61))"
proof (induction look n ret rule: bind_wait.induct)
  case (1 look n ret)
  show ?case
  proof (cases "look n = -1")
    case False
    then have "(LEAST i. n \<le> i \<and> look i \<noteq> -1) = n" by (intro Least_equality) auto
    then show ?thesis using False "1.prems" by (auto simp: bind_wait.simps [of look n])
  next
    case True
    then have step: "(n \<le> i \<and> look i \<noteq> -1) = (n + 1 \<le> i \<and> look i \<noteq> -1)" for i
      by (cases "i = n") auto
    have ex: "(\<exists>i. n \<le> i \<and> i \<le> 60 \<and> look i \<noteq> -1) = (\<exists>i. n + 1 \<le> i \<and> i \<le> 60 \<and> look i \<noteq> -1)"
      using step by blast
    show ?thesis
    proof (cases "60 \<le> n")
      case True
      then have n: "n = 60" using "1.prems" by simp
      have none: "\<not> (\<exists>i. n \<le> i \<and> i \<le> 60 \<and> look i \<noteq> -1)" using n \<open>look n = -1\<close> by (metis le_antisym)
      have "bind_wait look n ret = (102, 61)" using n \<open>look n = -1\<close> by (subst bind_wait.simps) simp
      then show ?thesis by (simp only: if_not_P [OF none])
    next
      case False
      then show ?thesis using "1.IH" [OF True False] True unfolding ex step by (simp add: bind_wait.simps [of look n])
    qed
  qed
qed

text \<open>
  Waiting for the server thread ends: the start looks at \<open>bindSuccess\<close> at most 61 times. It goes on
  at the first look that sees an answer and keeps its result; when none of the looks 0 to 60 sees one it gives up with
  \<open>ERROR_BIND\<close>.
\<close>

theorem bind_wait_outcome:
  "bind_wait look 0 ret =
     (if \<exists>i\<le>60. look i \<noteq> -1 then (ret, LEAST i. look i \<noteq> -1) else (102, 61))"
  using bind_wait_from [of 0 look ret] by (simp only: le0 simp_thms)

lemma OSA_Init_cases:
  assumes "OSA_Init C ifs nconf ncpu net_ret look k E n s = Some (Inr (r, s1))"
  shows "s1 = s \<and> r \<in> {101, 0} \<or> (\<exists>qs cs. s1 = s\<lparr>g_ptrNetwork := Some qs, rpc_handler := Some cs\<rparr>)"
  using assms by (auto simp: OSA_Init_def Let_def split: sum.splits if_splits option.splits prod.splits)


lemma failed_start:
  "OSA_Init (sized_env sample_env) (Some [None, Some (True, Inr ''::1'')]) 8 8 0 (\<lambda>_. 0) 1 (demo_dl\<lparr>osd_class_load_list := ''''\<rparr>)
     idle_net \<lparr>g_ptrNetwork = None, rpc_handler = None\<rparr> =
   Some (Inr (102, \<lparr>g_ptrNetwork = Some (map (\<lambda>i. (new_op_queue idle_net, [0, 1, 2, 3] ! (i mod 4))) [0 ..< 4]),
     rpc_handler = Some []\<rparr>))"
proof -
  have r: "rpc_init 1 (demo_dl\<lparr>osd_class_load_list := ''''\<rparr>) [] = Some (- EPERM, [])"
    by (simp add: rpc_init_def open_class_def get_class_def demo_dl_def in_class_list_def istream_words.simps)
  have w: "bind_wait (\<lambda>_. 0) 0 0 = (0, 0)" by (simp add: bind_wait.simps)
  have t: "CreateWorkThread True 3 1 [0, 1, 2, 3] 4 idle_net =
      Inr (map (\<lambda>i. (new_op_queue idle_net, [0, 1, 2, 3] ! (i mod 4))) [0 ..< 4])"
    by (simp add: CreateWorkThread_def work_cores_def)
  show ?thesis
    by (simp add: OSA_Init_def sample_read sample_accepted r [unfolded One_nat_def] w sample_params_def t [unfolded One_nat_def] del: upt.simps)
qed


subsection \<open>Running classes\<close>

lemma stat2_keeps: "cls_cxx_stat2 c cb ctx m = Inr (r, v, m1) \<Longrightarrow> mo_ops m1 = mo_ops m"
  by (auto simp: cls_cxx_stat2_def split: sum.splits dest: read_then_keeps)

definition the_call :: "exec_state \<Rightarrow> (string \<times> string \<times> bytes) option" where
  "the_call s = call_parts (mo_ops (ex_msg s) ! ctx_opId (ex_ctx s))"

definition call_ready :: "exec_state \<Rightarrow> bool" where
  "call_ready s \<longleftrightarrow> ptrMosdop (ctx_req (ex_ctx s)) \<noteq> None \<and> ctx_opId (ex_ctx s) < length (mo_ops (ex_msg s))"

lemma OSA_ExecClass_ready:
  "call_ready s \<Longrightarrow> OSA_ExecClass X True s =
     (case the_call s of
        None \<Rightarrow> Some (Inr (- EINVAL, s))
      | Some (cname, mname, inp) \<Rightarrow>
          if cname = ''rpc'' \<and> mname = ''das_prefetch'' then Some (exec_prefetch X inp s)
          else if cname = ''rbd'' \<and> mname = ''copyup'' then Some (exec_copyup X inp s)
          else if \<not> CheckClassList cname then Some (Inr (- EOPNOTSUPP, s))
          else exec_named X cname mname inp s)"
  by (auto simp: OSA_ExecClass_def call_ready_def the_call_def not_le)

text \<open>
  C24: A client cannot run arbitrary classes. A call whose class is neither \<open>rgw\<close> nor \<open>lock\<close> and which is not one of the two calls that the
  adaptor handles itself is answered with \<open>-EOPNOTSUPP\<close>, and a call whose names and input do not fit its data with \<open>-EINVAL\<close>; in
  both cases the message, the cache's flag and the table of classes are as before.
\<close>

theorem ExecClass_whitelist:
  assumes "call_ready s"
    and "the_call s = None \<or>
      (\<exists>cname mname inp. the_call s = Some (cname, mname, inp) \<and> cname \<notin> {''rgw'', ''lock''} \<and>
         (cname, mname) \<notin> {(''rpc'', ''das_prefetch''), (''rbd'', ''copyup'')})"
  shows "OSA_ExecClass X True s = Some (Inr (if the_call s = None then - EINVAL else - EOPNOTSUPP, s))"
proof -
  note ready = OSA_ExecClass_ready [OF assms(1)]
  show ?thesis
  proof (cases "the_call s")
    case None
    then show ?thesis by (simp add: ready)
  next
    case (Some p)
    obtain cname mname inp where p: "p = (cname, mname, inp)" by (cases p) auto
    have n: "cname \<notin> {''rgw'', ''lock''}" "(cname, mname) \<notin> {(''rpc'', ''das_prefetch''), (''rbd'', ''copyup'')}"
      using assms(2) Some p by simp_all
    then have "\<not> (cname = ''rpc'' \<and> mname = ''das_prefetch'')" "\<not> (cname = ''rbd'' \<and> mname = ''copyup'')" "\<not> CheckClassList cname"
      by (simp_all add: CheckClassList_def)
    then show ?thesis by (simp only: ready Some p option.case prod.case if_False if_True simp_thms) simp
  qed
qed

definition sample_call :: "string \<Rightarrow> string \<Rightarrow> bytes \<Rightarrow> OSDOp" where
  "sample_call cname mname inp =
     blank_op\<lparr>class_len := of_nat (length cname), method_len := of_nat (length mname), indata_len := of_nat (length inp),
       indata := cname @ mname @ inp\<rparr>"

definition sample_exec :: "OSDOp \<Rightarrow> exec_state" where
  "sample_exec op =
     \<lparr>ex_msg = one_op_msg\<lparr>mo_ops := [op]\<rparr>,
      ex_ctx = demo_ctx\<lparr>ctx_req := (ctx_req demo_ctx)\<lparr>vecOps := [blank_req\<lparr>objName := ''o''\<rparr>]\<rparr>\<rparr>, ex_copyup = True, ex_classes = []\<rparr>"

lemma sample_exec_ready: "call_ready (sample_exec op)" "the_call (sample_exec op) = call_parts op"
  by (simp_all add: call_ready_def the_call_def sample_exec_def demo_ctx_def)

lemma sample_parts: "call_parts (sample_call ''cephfs'' ''stat'' ''x'') = Some (''cephfs'', ''stat'', ''x'')"
  "call_parts (sample_call ''rbd'' ''copyup'' ''data'') = Some (''rbd'', ''copyup'', ''data'')"
  by code_simp+

text \<open>A cache without the object: the query fails and the write succeeds.\<close>

definition empty_cache :: cache_cb where
  "empty_cache req m = (if map opSubType (vecOps req) = [CEPH_OSD_OP_WRITE] then (0, m) else (- ENOENT, m))"

definition sample_exec_env :: exec_env where
  "sample_exec_env = \<lparr>xe_codec = le_codec, xe_cb = empty_cache, xe_prefetch = (\<lambda>_ _. 0), xe_fuel = 1, xe_dl = demo_dl,
     xe_cxx = (\<lambda>_ _. (0, [])), xe_c = (\<lambda>_ _. (0, None)), xe_effect = (\<lambda>_ _ m. m)\<rparr>"

theorem ExecClass_whitelist_witness:
  "OSA_ExecClass sample_exec_env True (sample_exec (sample_call ''cephfs'' ''stat'' ''x'')) =
     Some (Inr (- EOPNOTSUPP, sample_exec (sample_call ''cephfs'' ''stat'' ''x'')))"
  using ExecClass_whitelist [OF sample_exec_ready(1)] by (simp add: sample_exec_ready sample_parts)



end
