(* ===== verification/Net_Module.thy ===== *)
theory Net_Module
  imports Osa "HOL-Library.Multiset"
begin

text \<open>
  The life of the network module (\<open>server_adaptor/network_module.cpp\<close> and its destructor in \<open>network_module.h\<close>):
  the server thread that creates one messenger for every port, the objects that belong to it, and taking it down again.

  A Ceph messenger is the list of the calls made on it; whether a port can be bound is a parameter. Of the messenger
  only this is used: \<open>wait\<close> returns once \<open>shutdown\<close> has been called. Objects created with \<open>new\<close> are numbered, and
  \<open>nm_live\<close> lists those that have not been deleted. \<open>None\<close> says that a call does not return. The performance recorder
  (\<open>SA_PERF\<close>, off by default) is not part of it.
\<close>

section \<open>State\<close>

datatype nobj = NMsgModule | NQueue | NMessenger string | NDispatcher | NByteThrottle u64 | NMsgThrottle u64

datatype mcall = MSetAuth | MSetMagic | MDefaultPolicy | MPolicyThrottlers "nat option" "nat option" | MBind string
  | MAddDispatcher nat | MStart | MShutdown | MWait

record Messenger =
  mg_id :: nat
  mg_port :: string
  mg_calls :: "mcall list"

text \<open>Where the server thread is: not created, about to bind the remaining ports, waiting for the first messenger, finished, joined.\<close>

datatype sthread = TNone | TBinding "string list" | TWaiting | TEnded | TJoined

record NetworkModule =
  nm_live :: "(nat \<times> nobj) list"
  nm_next :: nat
  ptrMsgModule :: "nat option"
  recvAddr :: string
  vecPorts :: "string list"
  opDispatcher :: "nat list"
  vecSvrMessenger :: "Messenger list"
  vecDispatcher :: "nat list"
  vecByteThrottler :: "nat list"
  vecMsgThrottler :: "nat list"
  clientMessenger :: "Messenger option"
  startServerThread :: bool
  serverThread :: sthread
  bindSuccess :: int
  nm_cores :: "(u64 \<times> int list) list"

text \<open>The configuration, the answers of \<open>pthread_create\<close> and \<open>bind\<close>, and the tasks of the process.\<close>

record net_env =
  ne_create :: int
  ne_bind :: "string \<Rightarrow> int"
  messageSize :: u64
  messageCap :: u64
  ne_throttle :: bool
  bindMsgrCore :: bool
  ne_cores :: "int list"
  ne_msgrNum :: nat
  ne_tasks :: "(string \<times> (bool \<times> string option)) list"

definition new_obj :: "nobj \<Rightarrow> NetworkModule \<Rightarrow> nat \<times> NetworkModule" where
  "new_obj k s = (nm_next s, s\<lparr>nm_live := (nm_next s, k) # nm_live s, nm_next := nm_next s + 1\<rparr>)"

fun delete_all :: "nat list \<Rightarrow> NetworkModule \<Rightarrow> fault + NetworkModule" where
  "delete_all [] s = Inr s"
| "delete_all (i # is) s =
     (if i \<in> fst ` set (nm_live s) then delete_all is (s\<lparr>nm_live := filter (\<lambda>x. fst x \<noteq> i) (nm_live s)\<rparr>) else Inl UseAfterFree)"

definition m_call :: "mcall \<Rightarrow> Messenger \<Rightarrow> Messenger" where
  "m_call c m = m\<lparr>mg_calls := mg_calls m @ [c]\<rparr>"

section \<open>Starting\<close>

definition new_NetworkModule :: NetworkModule where
  "new_NetworkModule = \<lparr>nm_live = [], nm_next = 0, ptrMsgModule = None, recvAddr = ''localhost'', vecPorts = [], opDispatcher = [],
     vecSvrMessenger = [], vecDispatcher = [], vecByteThrottler = [], vecMsgThrottler = [], clientMessenger = None,
     startServerThread = False, serverThread = TNone, bindSuccess = -1, nm_cores = []\<rparr>"

text \<open>The queues that \<open>CreateWorkThread\<close> allocates; their threads are those of \<open>Op_Queue\<close>.\<close>

fun new_queues :: "nat \<Rightarrow> NetworkModule \<Rightarrow> NetworkModule" where
  "new_queues 0 s = s"
| "new_queues (Suc n) s = (let (i, s1) = new_obj NQueue s in new_queues n (s1\<lparr>opDispatcher := opDispatcher s1 @ [i]\<rparr>))"

definition InitMessenger :: "net_env \<Rightarrow> NetworkModule \<Rightarrow> int \<times> NetworkModule" where
  "InitMessenger E s =
     (if ne_create E \<noteq> 0 then (ne_create E, s\<lparr>startServerThread := False\<rparr>)
      else (0, s\<lparr>startServerThread := True, serverThread := TBinding (vecPorts s)\<rparr>))"

definition InitNetworkModule :: "net_env \<Rightarrow> string \<Rightarrow> string list \<Rightarrow> NetworkModule \<Rightarrow> int \<times> NetworkModule" where
  "InitNetworkModule E rAddr rPort s =
     (let s1 = (case ptrMsgModule s of
                  None \<Rightarrow> (let (i, t) = new_obj NMsgModule s in t\<lparr>ptrMsgModule := Some i\<rparr>)
                | Some _ \<Rightarrow> s)
      in InitMessenger E (s1\<lparr>recvAddr := rAddr, vecPorts := rPort, bindSuccess := -1\<rparr>))"

definition GetMsgModule :: "NetworkModule \<Rightarrow> nat option" where
  "GetMsgModule s = ptrMsgModule s"

text \<open>One round of the loop of \<open>ThreadFuncBodyServer\<close>; the answer says whether the port was bound.\<close>

definition serve_port :: "net_env \<Rightarrow> string \<Rightarrow> NetworkModule \<Rightarrow> bool \<times> NetworkModule" where
  "serve_port E strPort s =
     (let dest_str = ''tcp://'' @ recvAddr s @ '':'' @ strPort;
          (i, s1) = new_obj (NMessenger strPort) s;
          (b, s2) = new_obj (NByteThrottle (messageSize E)) s1;
          (c, s3) = new_obj (NMsgThrottle (messageCap E)) s2;
          calls = [MSetAuth, MSetMagic, MDefaultPolicy] @
            (if ne_throttle E then [MPolicyThrottlers (Some b) None, MPolicyThrottlers (Some c) None] else []) @ [MBind dest_str]
      in if ne_bind E dest_str < 0 then (False, s3\<lparr>bindSuccess := 0\<rparr>)
         else
           let (d, s4) = new_obj NDispatcher s3;
               m = \<lparr>mg_id = i, mg_port = strPort, mg_calls = calls @ [MAddDispatcher d, MStart]\<rparr>
           in (True, s4\<lparr>vecSvrMessenger := vecSvrMessenger s4 @ [m], vecDispatcher := vecDispatcher s4 @ [d],
                        vecByteThrottler := vecByteThrottler s4 @ [b], vecMsgThrottler := vecMsgThrottler s4 @ [c]\<rparr>))"

fun server_loop :: "net_env \<Rightarrow> string list \<Rightarrow> NetworkModule \<Rightarrow> bool \<times> NetworkModule" where
  "server_loop E [] s = (True, s)"
| "server_loop E (p # ps) s =
     (let (ok, s1) = serve_port E p s
      in if ok then server_loop E ps (s1\<lparr>serverThread := TBinding ps\<rparr>) else (False, s1\<lparr>serverThread := TEnded\<rparr>))"

text \<open>From the round for \<open>ports\<close> on to the point where the thread waits or ends.\<close>

definition ThreadFuncBodyServer :: "net_env \<Rightarrow> string list \<Rightarrow> NetworkModule \<Rightarrow> fault + NetworkModule" where
  "ThreadFuncBodyServer E ports s =
     (let (ok, s1) = server_loop E ports s
      in if \<not> ok then Inr s1
         else
           (case if bindMsgrCore E then BindMsgrWorker (ne_cores E) (ne_msgrNum E) (length (vecPorts s1)) (ne_tasks E) else Inr [] of
              Inl f \<Rightarrow> Inl f
            | Inr bs \<Rightarrow>
                let s2 = s1\<lparr>nm_cores := nm_cores s1 @ bs\<rparr>
                in if vecPorts s2 \<noteq> [] then Inr (s2\<lparr>bindSuccess := 1, serverThread := TWaiting\<rparr>)
                   else Inr (s2\<lparr>serverThread := TEnded\<rparr>)))"

section \<open>Finishing\<close>

text \<open>
  \<open>pthread_join\<close>: the server thread runs on from where it is. It returns when the thread ends by itself or the messenger it waits for
  has been shut down.
\<close>

definition first_shut :: "NetworkModule \<Rightarrow> bool" where
  "first_shut s = (case vecSvrMessenger s of [] \<Rightarrow> False | m # _ \<Rightarrow> MShutdown \<in> set (mg_calls m))"

definition join_state :: "NetworkModule \<Rightarrow> (fault + NetworkModule) option" where
  "join_state s =
     (case serverThread s of
        TEnded \<Rightarrow> Some (Inr (s\<lparr>serverThread := TJoined\<rparr>))
      | TWaiting \<Rightarrow> if first_shut s then Some (Inr (s\<lparr>serverThread := TJoined\<rparr>)) else None
      | _ \<Rightarrow> Some (Inl UninitRead))"

definition join_server :: "net_env \<Rightarrow> NetworkModule \<Rightarrow> (fault + NetworkModule) option" where
  "join_server E s =
     (case serverThread s of
        TBinding ps \<Rightarrow> (case ThreadFuncBodyServer E ps s of Inl f \<Rightarrow> Some (Inl f) | Inr t \<Rightarrow> join_state t)
      | _ \<Rightarrow> join_state s)"

definition FinishMessenger :: "net_env \<Rightarrow> NetworkModule \<Rightarrow> (fault + int \<times> NetworkModule) option" where
  "FinishMessenger E s =
     (let s1 = s\<lparr>vecSvrMessenger := map (m_call MShutdown) (vecSvrMessenger s)\<rparr>
      in case delete_all (vecMsgThrottler s1) s1 of
           Inl f \<Rightarrow> Some (Inl f)
         | Inr s2 \<Rightarrow>
             (let s3 = s2\<lparr>vecMsgThrottler := []\<rparr>
              in case delete_all (vecByteThrottler s3) s3 of
                   Inl f \<Rightarrow> Some (Inl f)
                 | Inr s4 \<Rightarrow>
                     (let s5 = s4\<lparr>vecByteThrottler := [],
                                 clientMessenger := map_option (\<lambda>m. m_call MWait (m_call MShutdown m)) (clientMessenger s4)\<rparr>
                      in case join_server E s5 of
                           None \<Rightarrow> None
                         | Some (Inl f) \<Rightarrow> Some (Inl f)
                         | Some (Inr s6) \<Rightarrow> Some (Inr (0, s6)))))"

definition FinishNetworkModule :: "net_env \<Rightarrow> NetworkModule \<Rightarrow> (fault + int \<times> NetworkModule) option" where
  "FinishNetworkModule E s = FinishMessenger E s"

definition delete_NetworkModule :: "NetworkModule \<Rightarrow> fault + NetworkModule" where
  "delete_NetworkModule s =
     delete_all ((case ptrMsgModule s of None \<Rightarrow> [] | Some i \<Rightarrow> [i]) @ map mg_id (vecSvrMessenger s) @ vecDispatcher s @
                 (case clientMessenger s of None \<Rightarrow> [] | Some m \<Rightarrow> [mg_id m])) s"

text \<open>\<open>OSA_Finish\<close> on the module: finish it and delete it. \<open>StopThread\<close> in between is that of \<open>Op_Queue\<close>.\<close>

definition net_down :: "net_env \<Rightarrow> NetworkModule \<Rightarrow> (fault + NetworkModule) option" where
  "net_down E s =
     (case FinishNetworkModule E s of
        None \<Rightarrow> None
      | Some (Inl f) \<Rightarrow> Some (Inl f)
      | Some (Inr (_, t)) \<Rightarrow> Some (delete_NetworkModule t))"

section \<open>Which objects the module owns\<close>

definition owned :: "net_env \<Rightarrow> NetworkModule \<Rightarrow> (nat \<times> nobj) list" where
  "owned E s =
     (case ptrMsgModule s of None \<Rightarrow> [] | Some i \<Rightarrow> [(i, NMsgModule)]) @
     map (\<lambda>m. (mg_id m, NMessenger (mg_port m))) (vecSvrMessenger s) @ map (\<lambda>d. (d, NDispatcher)) (vecDispatcher s) @
     map (\<lambda>b. (b, NByteThrottle (messageSize E))) (vecByteThrottler s) @
     map (\<lambda>c. (c, NMsgThrottle (messageCap E))) (vecMsgThrottler s) @ map (\<lambda>q. (q, NQueue)) (opDispatcher s)"

text \<open>The live objects are those the module owns, each once, and \<open>L\<close>, which nothing refers to.\<close>

definition nm_inv :: "net_env \<Rightarrow> (nat \<times> nobj) multiset \<Rightarrow> NetworkModule \<Rightarrow> bool" where
  "nm_inv E L s \<longleftrightarrow> distinct (map fst (nm_live s)) \<and> list_all (\<lambda>x. fst x < nm_next s) (nm_live s) \<and>
     mset (nm_live s) = mset (owned E s) + L \<and> clientMessenger s = None"

definition url :: "NetworkModule \<Rightarrow> string \<Rightarrow> string" where
  "url s p = ''tcp://'' @ recvAddr s @ '':'' @ p"

lemma owned_live [simp]: "owned E (s\<lparr>nm_live := l\<rparr>) = owned E s" "owned E (s\<lparr>nm_next := n\<rparr>) = owned E s"
  "owned E (s\<lparr>serverThread := t\<rparr>) = owned E s" "owned E (s\<lparr>bindSuccess := b\<rparr>) = owned E s"
  "owned E (s\<lparr>nm_cores := c\<rparr>) = owned E s" "owned E (s\<lparr>recvAddr := a\<rparr>) = owned E s" "owned E (s\<lparr>vecPorts := ps\<rparr>) = owned E s"
  "owned E (s\<lparr>startServerThread := f\<rparr>) = owned E s"
  by (simp_all add: owned_def)

lemma nm_inv_frame [simp]: "nm_inv E L (s\<lparr>serverThread := t\<rparr>) = nm_inv E L s" "nm_inv E L (s\<lparr>bindSuccess := b\<rparr>) = nm_inv E L s"
  "nm_inv E L (s\<lparr>nm_cores := c\<rparr>) = nm_inv E L s" "nm_inv E L (s\<lparr>recvAddr := a\<rparr>) = nm_inv E L s" "nm_inv E L (s\<lparr>vecPorts := ps\<rparr>) = nm_inv E L s"
  "nm_inv E L (s\<lparr>startServerThread := f\<rparr>) = nm_inv E L s"
  by (simp_all add: nm_inv_def)

lemma new_obj_inv:
  assumes "nm_inv E L s"
  shows "nm_inv E (add_mset (nm_next s, k) L) (snd (new_obj k s))"
  using assms by (auto simp: nm_inv_def new_obj_def list_all_iff)

text \<open>What a new object is added to becomes owned.\<close>

lemma own_queue:
  "nm_inv E (add_mset (i, NQueue) L) s \<Longrightarrow> nm_inv E L (s\<lparr>opDispatcher := opDispatcher s @ [i]\<rparr>)"
  by (simp add: nm_inv_def owned_def)

lemma own_module: "nm_inv E (add_mset (i, NMsgModule) L) s \<Longrightarrow> ptrMsgModule s = None \<Longrightarrow> nm_inv E L (s\<lparr>ptrMsgModule := Some i\<rparr>)"
  by (simp add: nm_inv_def owned_def)

definition lost :: "net_env \<Rightarrow> nat \<Rightarrow> string \<Rightarrow> (nat \<times> nobj) multiset" where
  "lost E n p = {#(n, NMessenger p), (n + 1, NByteThrottle (messageSize E)), (n + 2, NMsgThrottle (messageCap E))#}"

lemma serve_port_ok:
  assumes "nm_inv E L s" "0 \<le> ne_bind E (url s p)"
  shows "\<exists>t. serve_port E p s = (True, t) \<and> nm_inv E L t \<and> recvAddr t = recvAddr s \<and> vecPorts t = vecPorts s \<and>
    opDispatcher t = opDispatcher s \<and> length (vecSvrMessenger t) = Suc (length (vecSvrMessenger s))"
  using assms by (auto simp: serve_port_def new_obj_def url_def nm_inv_def owned_def list_all_iff Let_def)

lemma serve_port_fail:
  assumes "nm_inv E L s" "ne_bind E (url s p) < 0"
  shows "\<exists>t. serve_port E p s = (False, t) \<and> nm_inv E (L + lost E (nm_next s) p) t \<and> opDispatcher t = opDispatcher s \<and>
    vecSvrMessenger t = vecSvrMessenger s"
  using assms by (auto simp: serve_port_def new_obj_def url_def nm_inv_def owned_def list_all_iff lost_def Let_def)

text \<open>The first port that cannot be bound.\<close>

definition first_bad :: "net_env \<Rightarrow> NetworkModule \<Rightarrow> string list \<Rightarrow> string option" where
  "first_bad E s ps = List.find (\<lambda>p. ne_bind E (url s p) < 0) ps"

lemma server_loop_inv:
  assumes "nm_inv E L s"
  shows "\<exists>t. server_loop E ps s = (first_bad E s ps = None, t) \<and> opDispatcher t = opDispatcher s \<and>
    (case first_bad E s ps of
       None \<Rightarrow> nm_inv E L t \<and> vecPorts t = vecPorts s \<and> length (vecSvrMessenger t) = length (vecSvrMessenger s) + length ps
     | Some p \<Rightarrow> serverThread t = TEnded \<and> (\<exists>n. nm_inv E (L + lost E n p) t))"
  using assms
proof (induction ps arbitrary: s)
  case (Cons p ps)
  show ?case
  proof (cases "ne_bind E (url s p) < 0")
    case True
    then obtain t where "serve_port E p s = (False, t)" "nm_inv E (L + lost E (nm_next s) p) t" "opDispatcher t = opDispatcher s"
      using serve_port_fail [OF Cons.prems] by blast
    then show ?thesis using True by (auto simp: first_bad_def)
  next
    case False
    then obtain t where t: "serve_port E p s = (True, t)" "nm_inv E L t" "recvAddr t = recvAddr s" "vecPorts t = vecPorts s"
        "opDispatcher t = opDispatcher s" "length (vecSvrMessenger t) = Suc (length (vecSvrMessenger s))"
      using serve_port_ok [OF Cons.prems, of p] by auto
    let ?t = "t\<lparr>serverThread := TBinding ps\<rparr>"
    have "url ?t = url s" using t(3) by (simp add: url_def fun_eq_iff)
    then have fb: "first_bad E ?t ps = first_bad E s (p # ps)" using False by (simp add: first_bad_def)
    have "nm_inv E L ?t" using t(2) by simp
    from Cons.IH [OF this] show ?thesis using t unfolding fb by (auto split: option.splits)
  qed
qed (simp add: first_bad_def)

section \<open>Deleting\<close>

lemma mset_filter_key:
  assumes "distinct (map fst l)" "(i, k) \<in> set l"
  shows "add_mset (i, k) (mset (filter (\<lambda>x. fst x \<noteq> i) l)) = mset l"
  using assms
proof (induction l)
  case (Cons x l)
  show ?case
  proof (cases "fst x = i")
    case True
    then have "i \<notin> fst ` set l" using Cons.prems(1) by auto
    then have "x = (i, k)" "filter (\<lambda>y. fst y \<noteq> i) l = l" using Cons.prems(2) by (auto simp: filter_id_conv rev_image_eqI)
    then show ?thesis by simp
  next
    case False
    then show ?thesis using Cons by (auto simp: add_mset_commute)
  qed
qed simp

lemma delete_all_ok:
  assumes "distinct (map fst (nm_live s))" "mset (nm_live s) = mset X + R"
  shows "\<exists>l. delete_all (map fst X) s = Inr (s\<lparr>nm_live := l\<rparr>) \<and> mset l = R \<and> distinct (map fst l) \<and> set l \<subseteq> set (nm_live s)"
  using assms
proof (induction X arbitrary: s)
  case Nil
  then show ?case by (intro exI [of _ "nm_live s"]) simp
next
  case (Cons x X)
  let ?l = "filter (\<lambda>y. fst y \<noteq> fst x) (nm_live s)"
  have x: "(fst x, snd x) \<in> set (nm_live s)" using arg_cong [OF Cons.prems(2), of set_mset] by auto
  then have "mset ?l = mset X + R" using mset_filter_key [OF Cons.prems(1) x] Cons.prems(2) by simp
  moreover have "distinct (map fst ?l)" using Cons.prems(1) by (simp add: distinct_map_filter)
  ultimately obtain l where "delete_all (map fst X) (s\<lparr>nm_live := ?l\<rparr>) = Inr (s\<lparr>nm_live := ?l\<rparr>\<lparr>nm_live := l\<rparr>)" "mset l = R"
      "distinct (map fst l)" "set l \<subseteq> set ?l"
    using Cons.IH [of "s\<lparr>nm_live := ?l\<rparr>"] by auto
  then show ?case using x by force
qed

lemma delete_some:
  assumes "distinct (map fst (nm_live s))" "mset (nm_live s) = mset X + R" "ids = map fst X"
  obtains l where "delete_all ids s = Inr (s\<lparr>nm_live := l\<rparr>)" "mset l = R" "distinct (map fst l)"
  using delete_all_ok [OF assms(1,2)] assms(3) by blast

text \<open>What the destructor deletes.\<close>

definition kept :: "NetworkModule \<Rightarrow> (nat \<times> nobj) list" where
  "kept s = (case ptrMsgModule s of None \<Rightarrow> [] | Some i \<Rightarrow> [(i, NMsgModule)]) @
     map (\<lambda>m. (mg_id m, NMessenger (mg_port m))) (vecSvrMessenger s) @ map (\<lambda>d. (d, NDispatcher)) (vecDispatcher s)"

abbreviation queue_objs :: "NetworkModule \<Rightarrow> (nat \<times> nobj) list" where
  "queue_objs s \<equiv> map (\<lambda>q. (q, NQueue)) (opDispatcher s)"

text \<open>Up to the join, finishing only shuts the messengers down and deletes the throttlers.\<close>

definition shut_down :: "(nat \<times> nobj) list \<Rightarrow> NetworkModule \<Rightarrow> NetworkModule" where
  "shut_down l s = s\<lparr>vecSvrMessenger := map (m_call MShutdown) (vecSvrMessenger s), vecMsgThrottler := [], nm_live := l,
     vecByteThrottler := [], clientMessenger := None\<rparr>"

lemma finish_to_join:
  assumes "nm_inv E L s"
  obtains l where "distinct (map fst l)" "mset l = mset (kept s) + (mset (queue_objs s) + L)"
    "FinishNetworkModule E s =
      (case join_server E (shut_down l s) of None \<Rightarrow> None | Some (Inl f) \<Rightarrow> Some (Inl f) | Some (Inr t) \<Rightarrow> Some (Inr (0, t)))"
proof -
  let ?s1 = "s\<lparr>vecSvrMessenger := map (m_call MShutdown) (vecSvrMessenger s)\<rparr>"
  let ?bs = "map (\<lambda>b. (b, NByteThrottle (messageSize E))) (vecByteThrottler s)"
    and ?cs = "map (\<lambda>c. (c, NMsgThrottle (messageCap E))) (vecMsgThrottler s)"
  let ?R = "mset (kept s) + (mset (queue_objs s) + L)"
  have d: "distinct (map fst (nm_live ?s1))" and m: "mset (nm_live ?s1) = mset ?cs + (mset ?bs + ?R)" and cl: "clientMessenger s = None"
    using assms by (simp_all add: nm_inv_def owned_def kept_def)
  obtain l1 where 1: "delete_all (vecMsgThrottler s) ?s1 = Inr (?s1\<lparr>nm_live := l1\<rparr>)" "mset l1 = mset ?bs + ?R" "distinct (map fst l1)"
    by (rule delete_some [OF d m, of "vecMsgThrottler s"]) (simp_all add: map_idI)
  let ?s3 = "?s1\<lparr>nm_live := l1, vecMsgThrottler := []\<rparr>"
  have d3: "distinct (map fst (nm_live ?s3))" and m3: "mset (nm_live ?s3) = mset ?bs + ?R" using 1(2,3) by simp_all
  obtain l2 where 2: "delete_all (vecByteThrottler s) ?s3 = Inr (?s3\<lparr>nm_live := l2\<rparr>)" "mset l2 = ?R" "distinct (map fst l2)"
    by (rule delete_some [OF d3 m3, of "vecByteThrottler s"]) (simp_all add: map_idI)
  show ?thesis
    by (rule that [OF 2(3,2)]) (use 1(1) 2(1) cl in \<open>simp add: FinishNetworkModule_def FinishMessenger_def shut_down_def Let_def\<close>)
qed

lemma finish_down:
  assumes inv: "nm_inv E L s" and th: "serverThread s = TEnded \<or> serverThread s = TWaiting \<and> vecSvrMessenger s \<noteq> []"
  shows "\<exists>t. net_down E s = Some (Inr t) \<and> mset (nm_live t) = mset (queue_objs s) + L"
proof -
  obtain l where l: "distinct (map fst l)" "mset l = mset (kept s) + (mset (queue_objs s) + L)"
    and F: "FinishNetworkModule E s =
      (case join_server E (shut_down l s) of None \<Rightarrow> None | Some (Inl f) \<Rightarrow> Some (Inl f) | Some (Inr t) \<Rightarrow> Some (Inr (0, t)))"
    by (rule finish_to_join [OF inv])
  let ?t = "(shut_down l s)\<lparr>serverThread := TJoined\<rparr>"
  have j: "join_server E (shut_down l s) = Some (Inr ?t)"
    using th by (cases "vecSvrMessenger s") (auto simp: shut_down_def join_server_def join_state_def first_shut_def m_call_def)
  have d: "distinct (map fst (nm_live ?t))" "mset (nm_live ?t) = mset (kept s) + (mset (queue_objs s) + L)"
    using l by (simp_all add: shut_down_def)
  obtain l3 where "delete_all (map fst (kept s)) ?t = Inr (?t\<lparr>nm_live := l3\<rparr>)" "mset l3 = mset (queue_objs s) + L"
    by (rule delete_some [OF d refl])
  moreover have "delete_NetworkModule ?t = delete_all (map fst (kept s)) ?t"
    by (simp add: delete_NetworkModule_def shut_down_def kept_def m_call_def o_def split: option.splits)
  ultimately show ?thesis using F j by (simp add: net_down_def)
qed

section \<open>Properties\<close>

lemma new_queues_inv:
  assumes "nm_inv E L s" "ptrMsgModule s = None"
  shows "nm_inv E L (new_queues n s) \<and> length (opDispatcher (new_queues n s)) = length (opDispatcher s) + n \<and>
    vecSvrMessenger (new_queues n s) = vecSvrMessenger s \<and> ptrMsgModule (new_queues n s) = None"
  using assms
proof (induction n arbitrary: s)
  case (Suc n)
  let ?t = "snd (new_obj NQueue s)"
  have "nm_inv E L (?t\<lparr>opDispatcher := opDispatcher ?t @ [nm_next s]\<rparr>)" by (rule own_queue [OF new_obj_inv [OF Suc.prems(1)]])
  from Suc.IH [OF this] Suc.prems(2) show ?case by (simp add: new_obj_def)
qed simp

text \<open>The module of a server with \<open>n\<close> queues at the moment the server thread starts.\<close>

definition net_up :: "net_env \<Rightarrow> nat \<Rightarrow> string \<Rightarrow> string list \<Rightarrow> int \<times> NetworkModule" where
  "net_up E n addr ports = InitNetworkModule E addr ports (new_queues n new_NetworkModule)"

lemma net_up_inv:
  assumes "net_up E n addr ports = (0, s)"
  shows "nm_inv E {#} s \<and> length (opDispatcher s) = n \<and> vecSvrMessenger s = [] \<and> recvAddr s = addr \<and> vecPorts s = ports \<and>
    serverThread s = TBinding ports"
proof -
  let ?q = "new_queues n new_NetworkModule"
  have "nm_inv E {#} new_NetworkModule" by (simp add: nm_inv_def new_NetworkModule_def owned_def)
  from new_queues_inv [OF this] have q: "nm_inv E {#} ?q" "length (opDispatcher ?q) = n" "vecSvrMessenger ?q = []" "ptrMsgModule ?q = None"
    by (simp_all add: new_NetworkModule_def)
  let ?t = "snd (new_obj NMsgModule ?q)"
  have "nm_inv E {#} (?t\<lparr>ptrMsgModule := Some (nm_next ?q)\<rparr>)"
    by (rule own_module [OF new_obj_inv [OF q(1)]]) (simp add: new_obj_def q(4))
  then show ?thesis
    using assms q by (auto simp: net_up_def InitNetworkModule_def InitMessenger_def new_obj_def Let_def split: if_splits)
qed

definition lost_objects :: "net_env \<Rightarrow> string option \<Rightarrow> nobj multiset" where
  "lost_objects E bad =
     (case bad of None \<Rightarrow> {#} | Some p \<Rightarrow> {#NMessenger p, NByteThrottle (messageSize E), NMsgThrottle (messageCap E)#})"

lemma lost_kinds: "image_mset snd (lost E n p) = lost_objects E (Some p)"
  by (simp add: lost_def lost_objects_def)

lemma kinds_queues: "image_mset snd (mset (map (\<lambda>q. (q, NQueue)) qs)) = replicate_mset (length qs) NQueue"
  by (induction qs) simp_all

text \<open>
  C19: What a run of the network module leaves behind. However many ports can be bound, finishing the module after its server thread has
  got to its waiting point or has given up returns, deletes nothing twice, and deletes every messenger, dispatcher, throttler and the message
  module, except: all operation queues, and, when a port cannot be bound, the messenger and the two throttlers of the first such
  port.
\<close>

theorem net_lifecycle_leaks:
  assumes up: "net_up E n addr ports = (0, s)" and run: "ThreadFuncBodyServer E ports s = Inr s1"
  shows "\<exists>s2. net_down E s1 = Some (Inr s2) \<and>
    image_mset snd (mset (nm_live s2)) = replicate_mset n NQueue + lost_objects E (first_bad E s ports)"
proof -
  have s: "nm_inv E {#} s" "length (opDispatcher s) = n" "vecPorts s = ports" using net_up_inv [OF up] by auto
  obtain t where t: "server_loop E ports s = (first_bad E s ports = None, t)" "opDispatcher t = opDispatcher s"
    and c: "case first_bad E s ports of
       None \<Rightarrow> nm_inv E {#} t \<and> vecPorts t = vecPorts s \<and> length (vecSvrMessenger t) = length (vecSvrMessenger s) + length ports
     | Some p \<Rightarrow> serverThread t = TEnded \<and> (\<exists>n. nm_inv E ({#} + lost E n p) t)"
    using server_loop_inv [OF s(1), of ports] by blast
  have q: "image_mset snd (mset (map (\<lambda>q. (q, NQueue)) (opDispatcher t))) = replicate_mset n NQueue"
    using kinds_queues [of "opDispatcher t"] t(2) s(2) by simp
  show ?thesis
  proof (cases "first_bad E s ports")
    case None
    then have i: "nm_inv E {#} t" "vecPorts t = ports" "length (vecSvrMessenger t) = length (vecSvrMessenger s) + length ports"
      using c s(3) by auto
    then have "nm_inv E {#} s1" "opDispatcher s1 = opDispatcher t"
      "serverThread s1 = TEnded \<or> serverThread s1 = TWaiting \<and> vecSvrMessenger s1 \<noteq> []"
      using run t(1) None by (auto simp: ThreadFuncBodyServer_def Let_def split: sum.splits if_splits)
    from finish_down [OF this(1,3)] this(2) obtain s2 where "net_down E s1 = Some (Inr s2)"
        "mset (nm_live s2) = mset (map (\<lambda>q. (q, NQueue)) (opDispatcher t))"
      by auto
    then show ?thesis using q None by (intro exI [of _ s2]) (simp add: lost_objects_def)
  next
    case (Some p)
    then have "server_loop E ports s = (False, t)" using t(1) by simp
    then have s1: "s1 = t" using run by (simp add: ThreadFuncBodyServer_def)
    obtain k where "nm_inv E (lost E k p) t" "serverThread t = TEnded" using c unfolding Some by auto
    then obtain s2 where "net_down E s1 = Some (Inr s2)" "mset (nm_live s2) = mset (map (\<lambda>q. (q, NQueue)) (opDispatcher t)) + lost E k p"
      using finish_down [of E "lost E k p" t] unfolding s1 by blast
    then show ?thesis using q Some lost_kinds [of E k p] by (intro exI [of _ s2]) (simp only: image_mset_union simp_thms)
  qed
qed

lemma server_no_fault: "\<not> bindMsgrCore E \<Longrightarrow> \<exists>t. ThreadFuncBodyServer E ps s = Inr t"
  by (cases "server_loop E ps s") (simp add: ThreadFuncBodyServer_def Let_def)

text \<open>Witness: two queues; the second of three ports cannot be bound.\<close>

definition demo_net_env :: net_env where
  "demo_net_env = \<lparr>ne_create = 0, ne_bind = (\<lambda>u. if u = ''tcp://h:2'' then -98 else 0), messageSize = 500, messageCap = 100, ne_throttle = True,
     bindMsgrCore = False, ne_cores = [0], ne_msgrNum = 1, ne_tasks = []\<rparr>"

theorem net_lifecycle_leaks_witness:
  "\<exists>s s1 s2. net_up demo_net_env 2 ''h'' [''1'', ''2'', ''3''] = (0, s) \<and>
     ThreadFuncBodyServer demo_net_env [''1'', ''2'', ''3''] s = Inr s1 \<and> net_down demo_net_env s1 = Some (Inr s2) \<and>
     image_mset snd (mset (nm_live s2)) = {#NQueue, NQueue, NMessenger ''2'', NByteThrottle 500, NMsgThrottle 100#}"
proof -
  let ?s = "snd (net_up demo_net_env 2 ''h'' [''1'', ''2'', ''3''])"
  have up: "net_up demo_net_env 2 ''h'' [''1'', ''2'', ''3''] = (0, ?s)"
    by (simp add: net_up_def InitNetworkModule_def InitMessenger_def demo_net_env_def Let_def)
  have bad: "first_bad demo_net_env ?s [''1'', ''2'', ''3''] = Some ''2''"
    using net_up_inv [OF up] by (simp add: first_bad_def url_def demo_net_env_def)
  obtain s1 where "ThreadFuncBodyServer demo_net_env [''1'', ''2'', ''3''] ?s = Inr s1"
    using server_no_fault [of demo_net_env] by (auto simp: demo_net_env_def)
  with net_lifecycle_leaks [OF up] up bad show ?thesis
    by (fastforce simp: lost_objects_def demo_net_env_def eval_nat_numeral)
qed

subsection \<open>Finishing early\<close>

lemma server_loop_ok:
  assumes "first_bad E s ps = None"
  shows "\<exists>t ms. server_loop E ps s = (True, t) \<and> vecSvrMessenger t = vecSvrMessenger s @ ms \<and> length ms = length ps \<and>
    list_all (\<lambda>m. MShutdown \<notin> set (mg_calls m)) ms \<and> vecPorts t = vecPorts s \<and> recvAddr t = recvAddr s"
  using assms
proof (induction ps arbitrary: s)
  case (Cons p ps)
  have ok: "0 \<le> ne_bind E (url s p)" using Cons.prems by (auto simp: first_bad_def split: if_splits)
  then obtain t m where t: "serve_port E p s = (True, t)" "vecSvrMessenger t = vecSvrMessenger s @ [m]" "MShutdown \<notin> set (mg_calls m)"
      "vecPorts t = vecPorts s" "recvAddr t = recvAddr s"
    by (auto simp: serve_port_def new_obj_def url_def Let_def)
  let ?t = "t\<lparr>serverThread := TBinding ps\<rparr>"
  have "url ?t = url s" using t(5) by (simp add: url_def fun_eq_iff)
  then have "first_bad E ?t ps = None" using Cons.prems ok by (simp add: first_bad_def)
  from Cons.IH [OF this] show ?case using t by auto
qed simp

text \<open>The module when the server thread has bound \<open>k\<close> ports.\<close>

definition server_at :: "net_env \<Rightarrow> nat \<Rightarrow> string list \<Rightarrow> NetworkModule \<Rightarrow> NetworkModule" where
  "server_at E k ports s = (snd (server_loop E (take k ports) s))\<lparr>serverThread := TBinding (drop k ports)\<rparr>"

lemma first_bad_parts: "first_bad E s ps = None \<Longrightarrow> first_bad E s (take k ps) = None \<and> first_bad E s (drop k ps) = None"
  by (auto simp: first_bad_def find_None_iff dest: in_set_takeD in_set_dropD)



subsection \<open>Throttlers of a messenger\<close>

fun is_policy :: "mcall \<Rightarrow> bool" where
  "is_policy (MPolicyThrottlers b m) = True"
| "is_policy c = False"

text \<open>
  With throttling on, the last call that sets the throttlers of a messenger passes its message throttler in the place of the byte
  throttler and no message throttler.
\<close>

definition policy_swapped :: "Messenger \<Rightarrow> nat \<Rightarrow> bool" where
  "policy_swapped m c \<longleftrightarrow> last (filter is_policy (mg_calls m)) = MPolicyThrottlers (Some c) None"

lemma server_loop_policy:
  assumes "ne_throttle E" "list_all2 policy_swapped (vecSvrMessenger s) (vecMsgThrottler s)"
  shows "list_all2 policy_swapped (vecSvrMessenger (snd (server_loop E ps s))) (vecMsgThrottler (snd (server_loop E ps s)))"
  using assms(2)
proof (induction ps arbitrary: s)
  case (Cons p ps)
  have "list_all2 policy_swapped (vecSvrMessenger (snd (serve_port E p s))) (vecMsgThrottler (snd (serve_port E p s)))"
    using Cons.prems assms(1)
    by (auto simp: serve_port_def new_obj_def Let_def intro!: list_all2_appendI) (simp add: policy_swapped_def)
  with Cons.IH [of "(snd (serve_port E p s))\<lparr>serverThread := TBinding ps\<rparr>"] show ?case by (simp add: split_beta Let_def)
qed simp

end
