(* ===== verification/Server.thy ===== *)
theory Server
  imports Op_Queue "HOL-Library.Multiset"
begin

text \<open>
  The receiving side as a whole: \<open>SaServerDispatcher::ms_dispatch\<close> (\<open>sa_server_dispatcher.cpp\<close>), which sorts incoming messages and
  passes client operations on, and all operation queues of the network module with their handlers on the counters and replies they share
  (\<open>opDispatcher\<close>, \<open>lwtCount\<close> and the others of \<open>network_module.h\<close>).

  A step of the server is a dispatched message, or a step of one queue of \<open>Op_Queue\<close> that receives nothing new, run on the shared
  counters. \<open>sv_acc\<close> and \<open>sv_served\<close> are the histories of all queues in the order in which it happened.
\<close>

section \<open>State\<close>

text \<open>A message: a ping, a client operation, a message of that type that is not a \<open>MOSDOp\<close>, anything else.\<close>

datatype message = MPing int | MOp MOSDOp | MOpBad int | MOther int

record server =
  sv_queues :: "op_queue list"
  sv_net :: Net
  dcount :: u64
  sv_active :: bool
  sv_sent :: "message list"
  sv_acc :: "entry list"
  sv_served :: "entry list"

text \<open>A queue as its threads see it, and the server after a step of the queue.\<close>

definition sv_view :: "nat \<Rightarrow> server \<Rightarrow> op_queue" where
  "sv_view i s = (sv_queues s ! i)\<lparr>oq_net := sv_net s\<rparr>"

definition sv_put :: "nat \<Rightarrow> op_queue \<Rightarrow> server \<Rightarrow> server" where
  "sv_put i q s =
     s\<lparr>sv_queues := (sv_queues s)[i := q], sv_net := oq_net q,
       sv_acc := sv_acc s @ drop (length (oq_acc (sv_queues s ! i))) (oq_acc q),
       sv_served := sv_served s @ drop (length (oq_served (sv_queues s ! i))) (oq_served q)\<rparr>"

section \<open>Dispatch\<close>

text \<open>The two time stamps of the entry are those \<open>EnqueueClientop\<close> takes. The result is always \<open>true\<close>.\<close>

definition ms_dispatch :: "(string \<Rightarrow> nat) \<Rightarrow> queue_env \<Rightarrow> u64 \<times> u64 \<Rightarrow> message \<Rightarrow> server \<Rightarrow> fault + bool \<times> server" where
  "ms_dispatch hash E tss m s0 =
     (let s = s0\<lparr>dcount := dcount s0 + 1\<rparr> in
      case m of
        MPing t \<Rightarrow> Inr (True, s\<lparr>sv_sent := sv_sent s @ [m]\<rparr>)
      | MOp op \<Rightarrow>
          (case queue_index hash (length (sv_queues s)) op of
             Inl f \<Rightarrow> Inl f
           | Inr i \<Rightarrow> Inr (True, sv_put i (EnqueueClientop E (op, fst tss, snd tss) (sv_view i s)) s))
      | MOpBad t \<Rightarrow> Inr (True, s)
      | MOther t \<Rightarrow> Inr (True, s))"

definition ms_handle_reset :: "server \<Rightarrow> bool \<times> server" where
  "ms_handle_reset s = (True, s)"

definition ms_handle_refused :: "server \<Rightarrow> bool \<times> server" where
  "ms_handle_refused s = (False, s)"

definition ms_get_authorizer :: "int \<Rightarrow> bool" where
  "ms_get_authorizer dest_type = False"

definition ms_handle_authentication :: int where
  "ms_handle_authentication = 1"

definition get_dcount :: "server \<Rightarrow> u64" where
  "get_dcount s = dcount s"

definition set_active :: "server \<Rightarrow> server" where
  "set_active s = s\<lparr>sv_active := True\<rparr>"

text \<open>A dispatching thread can enter the queue's critical section.\<close>

definition dispatch_ready :: "(string \<Rightarrow> nat) \<Rightarrow> message \<Rightarrow> server \<Rightarrow> bool" where
  "dispatch_ready hash m s =
     (case m of
        MOp op \<Rightarrow> (case queue_index hash (length (sv_queues s)) op of Inl _ \<Rightarrow> True | Inr i \<Rightarrow> lock_free (sv_queues s ! i))
      | _ \<Rightarrow> True)"

section \<open>The server\<close>

text \<open>Everything a queue has received.\<close>

definition arrived :: "op_queue \<Rightarrow> entry multiset" where
  "arrived q = mset (oq_acc q) + mset (cap_wait q) + mset (cap_woken q)"

inductive sv_step :: "(string \<Rightarrow> nat) \<Rightarrow> queue_env \<Rightarrow> server \<Rightarrow> server \<Rightarrow> bool" for hash E where
  dispatch: "dispatch_ready hash m s \<Longrightarrow> ms_dispatch hash E tss m s = Inr (b, s') \<Longrightarrow> sv_step hash E s s'"
| queue: "i < length (sv_queues s) \<Longrightarrow> oq_any E (sv_view i s) q \<Longrightarrow> arrived q = arrived (sv_view i s) \<Longrightarrow>
     sv_step hash E s (sv_put i q s)"

definition sv_start :: "nat \<Rightarrow> Net \<Rightarrow> server" where
  "sv_start n net = \<lparr>sv_queues = replicate n (new_op_queue net), sv_net = net, dcount = 0, sv_active = False, sv_sent = [], sv_acc = [], sv_served = []\<rparr>"

text \<open>The steps of a queue other than receiving keep what has arrived, so \<open>queue\<close> leaves out none of them.\<close>

lemma enqueue_arrived: "arrived (enqueue e q) = arrived q + {#e#}"
  by (cases e) (simp add: arrived_def enqueue_q)

lemma EnqueueClientop_arrived: "arrived (EnqueueClientop E e q) = arrived q + {#e#}"
  by (simp add: EnqueueClientop_def enqueue_arrived) (simp add: arrived_def)

lemma oq_step_arrived:
  "oq_step E q q' \<Longrightarrow> oq_inv E q \<Longrightarrow> (\<exists>e. q' = EnqueueClientop E e q) \<or> arrived q' = arrived q"
proof (induction rule: oq_step.induct)
  case (recv_woken s e es)
  then show ?case by (simp add: enqueue_arrived) (simp add: arrived_def)
next
  case (deal s)
  show ?case by (rule deal_one_cases [OF deal.prems deal.hyps(2)]) (simp_all add: arrived_def)
next
  case (recv s e)
  then show ?case by blast
qed (auto simp: arrived_def handler_body_def submit_def notify_condOpReq_def)

lemma oq_spurious_arrived: "oq_spurious q q' \<Longrightarrow> arrived q' = arrived q"
  by (induction rule: oq_spurious.induct) (auto simp: arrived_def)

section \<open>The invariant\<close>

definition routed :: "(string \<Rightarrow> nat) \<Rightarrow> nat \<Rightarrow> nat \<Rightarrow> entry \<Rightarrow> bool" where
  "routed hash n i e \<longleftrightarrow> hash (mo_oid (fst e)) mod n = i"

text \<open>A queue conserves its entries, all of them belong to it, and the histories restricted to it are its own.\<close>

definition queue_ok :: "(string \<Rightarrow> nat) \<Rightarrow> queue_env \<Rightarrow> nat \<Rightarrow> entry list \<Rightarrow> entry list \<Rightarrow> nat \<Rightarrow> op_queue \<Rightarrow> bool" where
  "queue_ok hash E n acc srv i q \<longleftrightarrow> oq_inv E q \<and> oq_acc q = oq_served q @ oq_pending q \<and> (\<forall>e \<in># arrived q. routed hash n i e) \<and>
     filter (routed hash n i) acc = oq_acc q \<and> filter (routed hash n i) srv = oq_served q"

definition sv_inv :: "(string \<Rightarrow> nat) \<Rightarrow> queue_env \<Rightarrow> server \<Rightarrow> bool" where
  "sv_inv hash E s \<longleftrightarrow>
     (\<forall>i < length (sv_queues s). queue_ok hash E (length (sv_queues s)) (sv_acc s) (sv_served s) i (sv_queues s ! i))"

lemma view_simps [simp]:
  "oq_inv E (sv_view i s) = oq_inv E (sv_queues s ! i)" "oq_acc (sv_view i s) = oq_acc (sv_queues s ! i)"
  "oq_served (sv_view i s) = oq_served (sv_queues s ! i)" "oq_pending (sv_view i s) = oq_pending (sv_queues s ! i)"
  "arrived (sv_view i s) = arrived (sv_queues s ! i)" "lock_free (sv_view i s) = lock_free (sv_queues s ! i)"
  by (simp_all add: sv_view_def oq_inv_def oq_pending_def arrived_def lock_free_def)

lemma view_dcount [simp]: "sv_view i (s\<lparr>dcount := c\<rparr>) = sv_view i s"
  by (simp add: sv_view_def)

text \<open>A step of one queue adds at most one entry to each history.\<close>

definition grows :: "entry list \<Rightarrow> entry list \<Rightarrow> entry multiset \<Rightarrow> bool" where
  "grows xs ys M \<longleftrightarrow> ys = xs \<or> (\<exists>e \<in># M. ys = xs @ [e])"

lemma oq_any_flow:
  assumes "oq_any E q q'" "oq_inv E q" "oq_acc q = oq_served q @ oq_pending q"
  shows "oq_inv E q' \<and> oq_acc q' = oq_served q' @ oq_pending q' \<and> grows (oq_acc q) (oq_acc q') (arrived q') \<and>
    grows (oq_served q) (oq_served q') (arrived q')"
proof -
  have inv: "oq_inv E q'" by (rule oq_any_inv [OF assms(1,2)])
  have "takes q q' \<or> serves q q' \<or> same_flow q q'"
    using assms(1,2) oq_step_flow oq_spurious_flow by (auto simp: oq_any_def)
  then show ?thesis
  proof (elim disjE)
    assume "takes q q'"
    then show ?thesis using inv assms(3) by (auto simp: takes_def grows_def arrived_def)
  next
    assume "serves q q'"
    then obtain e where e: "oq_acc q' = oq_acc q" "oq_pending q = e # oq_pending q'" "oq_served q' = oq_served q @ [e]"
      by (auto simp: serves_def)
    then have "e \<in># arrived q'" using assms(3) by (simp add: arrived_def)
    then show ?thesis using inv assms(3) e by (auto simp: grows_def)
  qed (use inv assms(3) in \<open>auto simp: same_flow_def grows_def\<close>)
qed

lemma grows_filter:
  assumes "grows xs ys M" "\<forall>e \<in># M. routed hash n i e" "filter (routed hash n j) h = (if j = i then xs else zs)"
  shows "filter (routed hash n j) (h @ drop (length xs) ys) = (if j = i then ys else zs)"
  using assms by (auto simp: grows_def routed_def)

lemma sv_put_inv:
  assumes inv: "sv_inv hash E s" and i: "i < length (sv_queues s)" and st: "oq_any E (sv_view i s) q"
    and ro: "\<forall>e \<in># arrived q. routed hash (length (sv_queues s)) i e"
  shows "sv_inv hash E (sv_put i q s)"
proof -
  let ?n = "length (sv_queues s)" and ?p = "sv_queues s ! i"
  have ok: "queue_ok hash E ?n (sv_acc s) (sv_served s) i ?p" using inv i by (simp add: sv_inv_def)
  have "oq_inv E (sv_view i s)" using ok by (simp add: queue_ok_def)
  moreover have "oq_acc (sv_view i s) = oq_served (sv_view i s) @ oq_pending (sv_view i s)"
    using ok unfolding queue_ok_def view_simps by blast
  ultimately have f: "oq_inv E q \<and> oq_acc q = oq_served q @ oq_pending q \<and> grows (oq_acc ?p) (oq_acc q) (arrived q) \<and>
      grows (oq_served ?p) (oq_served q) (arrived q)"
    using oq_any_flow [OF st] unfolding view_simps by blast
  have "queue_ok hash E ?n (sv_acc (sv_put i q s)) (sv_served (sv_put i q s)) j (sv_queues (sv_put i q s) ! j)" if j: "j < ?n" for j
  proof -
    have o: "queue_ok hash E ?n (sv_acc s) (sv_served s) j (sv_queues s ! j)" using inv j by (simp add: sv_inv_def)
    have a: "filter (routed hash ?n j) (sv_acc s) = (if j = i then oq_acc ?p else oq_acc (sv_queues s ! j))"
      and v: "filter (routed hash ?n j) (sv_served s) = (if j = i then oq_served ?p else oq_served (sv_queues s ! j))"
      using o by (auto simp: queue_ok_def)
    have g: "grows (oq_acc ?p) (oq_acc q) (arrived q)" "grows (oq_served ?p) (oq_served q) (arrived q)" using f by blast+
    have new: "sv_queues (sv_put i q s) ! j = (if j = i then q else sv_queues s ! j)"
      "filter (routed hash ?n j) (sv_acc (sv_put i q s)) = (if j = i then oq_acc q else oq_acc (sv_queues s ! j))"
      "filter (routed hash ?n j) (sv_served (sv_put i q s)) = (if j = i then oq_served q else oq_served (sv_queues s ! j))"
      using grows_filter [OF g(1) ro a] grows_filter [OF g(2) ro v] j by (simp_all add: sv_put_def nth_list_update)
    show ?thesis
    proof (cases "j = i")
      case True
      then show ?thesis using f ro new unfolding queue_ok_def by simp
    next
      case False
      then show ?thesis using o new unfolding queue_ok_def by simp
    qed
  qed
  then show ?thesis by (simp add: sv_inv_def sv_put_def)
qed

lemma sv_inv_dcount [simp]: "sv_inv hash E (s\<lparr>dcount := c\<rparr>) = sv_inv hash E s" "sv_inv hash E (s\<lparr>sv_sent := m\<rparr>) = sv_inv hash E s"
  by (simp_all add: sv_inv_def)

lemma dispatch_inv:
  assumes "dispatch_ready hash m s" "ms_dispatch hash E tss m s = Inr (b, s')" "sv_inv hash E s"
  shows "sv_inv hash E s'"
proof (cases m)
  case (MOp op)
  let ?s = "s\<lparr>dcount := dcount s + 1\<rparr>" and ?n = "length (sv_queues s)"
  let ?i = "hash (mo_oid op) mod ?n" and ?e = "(op, fst tss, snd tss)"
  have n: "?n \<noteq> 0" and s': "s' = sv_put ?i (EnqueueClientop E ?e (sv_view ?i s)) ?s"
    using assms(2) MOp by (auto simp: ms_dispatch_def queue_index_def Let_def split: if_splits)
  then have i: "?i < length (sv_queues ?s)" by simp
  have "lock_free (sv_view ?i ?s)" using assms(1) MOp n by (simp add: dispatch_ready_def queue_index_def)
  then have "oq_any E (sv_view ?i ?s) (EnqueueClientop E ?e (sv_view ?i s))"
    unfolding oq_any_def by (intro disjI1) (simp only: view_dcount recv)
  moreover have "\<forall>x \<in># arrived (EnqueueClientop E ?e (sv_view ?i s)). routed hash ?n ?i x"
    using assms(3) i by (auto simp: EnqueueClientop_arrived sv_inv_def queue_ok_def routed_def)
  ultimately show ?thesis unfolding s' using assms(3) i by (intro sv_put_inv) simp_all
qed (use assms in \<open>auto simp: ms_dispatch_def Let_def\<close>)

lemma sv_step_inv: "sv_step hash E s s' \<Longrightarrow> sv_inv hash E s \<Longrightarrow> sv_inv hash E s'"
proof (induction rule: sv_step.induct)
  case (dispatch m s tss b s')
  then show ?case by (rule dispatch_inv)
next
  case (queue i s q)
  then show ?case by (intro sv_put_inv) (auto simp: sv_inv_def queue_ok_def)
qed

lemma sv_start_inv: "sv_inv hash E (sv_start n net)"
  by (auto simp: sv_inv_def sv_start_def queue_ok_def oq_inv_init arrived_def)
    (auto simp: new_op_queue_def oq_pending_def entries3_def new_queue_def)

lemma sv_length: "sv_step hash E s s' \<Longrightarrow> length (sv_queues s') = length (sv_queues s)"
  by (induction rule: sv_step.induct)
    (auto simp: ms_dispatch_def sv_put_def Let_def split: message.splits sum.splits)

lemma sv_reach_inv:
  assumes "(sv_step hash E)\<^sup>*\<^sup>* (sv_start n net) s"
  shows "sv_inv hash E s \<and> length (sv_queues s) = n"
  using assms by (induction rule: rtranclp_induct) (auto simp: sv_start_inv sv_step_inv sv_length, simp add: sv_start_def)

section \<open>Properties\<close>

definition on_object :: "string \<Rightarrow> entry \<Rightarrow> bool" where
  "on_object oid e \<longleftrightarrow> mo_oid (fst e) = oid"

text \<open>
  Operations on one object are processed in the order in which they entered the server, although many queues and handlers
  work at once. In every run, the operations on an object that have been processed, followed by those that are waiting in the queue
  of the object, are exactly the operations on that object that were accepted, in that order: none is lost, doubled, or overtaken by a later
  one.
\<close>

theorem object_order:
  assumes "(sv_step hash E)\<^sup>*\<^sup>* (sv_start n net) s" "0 < n"
  shows "filter (on_object oid) (sv_acc s) =
    filter (on_object oid) (sv_served s) @ filter (on_object oid) (oq_pending (sv_queues s ! (hash oid mod n)))"
proof -
  let ?i = "hash oid mod n"
  have "sv_inv hash E s" and len: "length (sv_queues s) = n" using sv_reach_inv [OF assms(1)] by auto
  then have q: "queue_ok hash E n (sv_acc s) (sv_served s) ?i (sv_queues s ! ?i)" using assms(2) by (simp add: sv_inv_def)
  have "filter (on_object oid) (filter (routed hash n ?i) xs) = filter (on_object oid) xs" for xs
    by (induction xs) (auto simp: on_object_def routed_def)
  then have "filter (on_object oid) (sv_acc s) = filter (on_object oid) (oq_acc (sv_queues s ! ?i))"
    "filter (on_object oid) (sv_served s) = filter (on_object oid) (oq_served (sv_queues s ! ?i))"
    using q by (metis queue_ok_def)+
  then show ?thesis using q by (simp add: queue_ok_def)
qed

text \<open>Witness: two queues, a ping and then one operation.\<close>

definition demo_server :: server where
  "demo_server = (sv_put 0 demo_run (sv_start 2 idle_net))\<lparr>dcount := 2, sv_sent := [MPing 1]\<rparr>"

lemma demo_server_reach: "(sv_step (\<lambda>_. 4) demo_env)\<^sup>*\<^sup>* (sv_start 2 idle_net) demo_server"
proof -
  let ?s = "(sv_start 2 idle_net)\<lparr>dcount := 1, sv_sent := [MPing 1]\<rparr>"
  have "ms_dispatch (\<lambda>_. 4) demo_env (0, 0) (MPing 1) (sv_start 2 idle_net) = Inr (True, ?s)"
    by (simp add: ms_dispatch_def sv_start_def)
  then have 1: "sv_step (\<lambda>_. 4) demo_env (sv_start 2 idle_net) ?s" by (rule dispatch [rotated]) (simp add: dispatch_ready_def)
  have "(new_op_queue idle_net)\<lparr>oq_net := idle_net\<rparr> = new_op_queue idle_net" by (simp add: new_op_queue_def)
  then have "ms_dispatch (\<lambda>_. 4) demo_env (1, 2) (MOp one_op_msg) ?s = Inr (True, demo_server)"
    by (simp add: ms_dispatch_def queue_index_def demo_server_def demo_run_def sv_start_def sv_put_def sv_view_def del: view_dcount)
  then have "sv_step (\<lambda>_. 4) demo_env ?s demo_server"
    by (rule dispatch [rotated]) (simp add: dispatch_ready_def queue_index_def sv_start_def lock_free_def new_op_queue_def)
  with 1 show ?thesis by (meson converse_rtranclp_into_rtranclp r_into_rtranclp)
qed

theorem object_order_witness:
  "sv_acc demo_server = [(one_op_msg, 1, 2)] \<and>
   filter (on_object (mo_oid one_op_msg)) (sv_acc demo_server) =
     filter (on_object (mo_oid one_op_msg)) (sv_served demo_server) @ filter (on_object (mo_oid one_op_msg)) (oq_pending demo_run)"
  using object_order [OF demo_server_reach, of "mo_oid one_op_msg"]
  by (simp add: demo_server_def sv_put_def sv_start_def demo_run_def EnqueueClientop_def demo_env_def GetSize_def new_op_queue_def
      new_queue_def enqueue_q)

end
