(* ===== verification/Request_Cycle.thy ===== *)
theory Request_Cycle
  imports Osa
begin

text \<open>
  The life of one client message in the server adaptor, from \<open>ProcessOpReq\<close> over the admission counters and the cache to the reply.

  The cache is not part of the repository. What it does to a message is a sequence of calls of the entry points in \<open>osa.cpp\<close>, each for one
  operation of the message: the results of the operations (\<open>OSA_Encode...\<close>, \<open>OSA_ProcessBuf\<close>, \<open>OSA_SetOpResult\<close>), and one
  \<open>OSA_FinishCacheOps\<close> at the end. The cache may finish the operations of a message in any order, so the sequence is arbitrary;
  \<open>call_effect\<close> is what a call does to the operation it names.
\<close>

section \<open>Calls of the cache\<close>

datatype cache_call =
    CSetOpResult nat int
  | CProcessBuf SaStr nat
  | COmapGetkeys "SaBatchKeys option" nat
  | COmapGetvals "SaBatchKv option" nat
  | COmapGetvalsbykeys "SaBatchKv option" nat
  | CRead osd_op u32 u32 SaStr nat
  | CGetxattr "SaBatchKv option" nat
  | CGetxattrs "SaBatchKv option" nat
  | CGetOpstat u64 int nat
  | CListSnaps "ObjSnaps option" nat

fun call_index :: "cache_call \<Rightarrow> nat" where
  "call_index (CSetOpResult i ret) = i"
| "call_index (CProcessBuf s i) = i"
| "call_index (COmapGetkeys bk i) = i"
| "call_index (COmapGetvals kv i) = i"
| "call_index (COmapGetvalsbykeys kv i) = i"
| "call_index (CRead t off n s i) = i"
| "call_index (CGetxattr kv i) = i"
| "call_index (CGetxattrs kv i) = i"
| "call_index (CGetOpstat sz tm i) = i"
| "call_index (CListSnaps os i) = i"

fun osa_call :: "codec \<Rightarrow> (obj_list_snap_response_t \<Rightarrow> bytes) \<Rightarrow> cache_call \<Rightarrow> MOSDOp option \<Rightarrow> fault + MOSDOp option" where
  "osa_call c e (CSetOpResult i ret) p = OSA_SetOpResult i ret p"
| "osa_call c e (CProcessBuf s i) p = OSA_ProcessBuf c s i p"
| "osa_call c e (COmapGetkeys bk i) p = OSA_EncodeOmapGetkeys c bk i p"
| "osa_call c e (COmapGetvals kv i) p = OSA_EncodeOmapGetvals c kv i p"
| "osa_call c e (COmapGetvalsbykeys kv i) p = OSA_EncodeOmapGetvalsbykeys c kv i p"
| "osa_call c e (CRead t off n s i) p = OSA_EncodeRead c t off n s i p"
| "osa_call c e (CGetxattr kv i) p = OSA_EncodeXattrGetxattr kv i p"
| "osa_call c e (CGetxattrs kv i) p = OSA_EncodeXattrGetxattrs c kv i p"
| "osa_call c e (CGetOpstat sz tm i) p = OSA_EncodeGetOpstat c sz tm i p"
| "osa_call c e (CListSnaps os i) p = OSA_EncodeListSnaps e os i p"

fun osa_calls :: "codec \<Rightarrow> (obj_list_snap_response_t \<Rightarrow> bytes) \<Rightarrow> cache_call list \<Rightarrow> MOSDOp option \<Rightarrow> fault + MOSDOp option" where
  "osa_calls c e [] p = Inr p"
| "osa_calls c e (k # ks) p = (case osa_call c e k p of Inl f \<Rightarrow> Inl f | Inr p' \<Rightarrow> osa_calls c e ks p')"

section \<open>The effect of a call on its operation\<close>

text \<open>\<open>Inr None\<close>: the call is skipped, because the result it was given is a null pointer.\<close>

definition with_result :: "'a option \<Rightarrow> ('a \<Rightarrow> fault + (OSDOp \<Rightarrow> OSDOp)) \<Rightarrow> fault + (OSDOp \<Rightarrow> OSDOp) option" where
  "with_result x f = (case x of None \<Rightarrow> Inr None | Some v \<Rightarrow> map_sum id Some (f v))"

fun call_effect :: "codec \<Rightarrow> (obj_list_snap_response_t \<Rightarrow> bytes) \<Rightarrow> cache_call \<Rightarrow> fault + (OSDOp \<Rightarrow> OSDOp) option" where
  "call_effect c e (CSetOpResult i ret) = Inr (Some (\<lambda>o1. o1\<lparr>rval := ret\<rparr>))"
| "call_effect c e (CProcessBuf s i) = map_sum id (\<lambda>b. Some (append_out (enc_str c b))) (sa_view s)"
| "call_effect c e (COmapGetkeys bk i) = with_result bk (\<lambda>k.
     map_sum id (\<lambda>ks. append_out (enc_u32 c (bk_nums k) @ concat (map (enc_str c) ks) @ enc_bool c False))
       (for_collect (view_at (bk_keys k)) 0 (unat (bk_nums k))))"
| "call_effect c e (COmapGetvals kv i) = with_result kv (\<lambda>k.
     map_sum id (\<lambda>bl. append_out (enc_u32 c (kvNum k) @ concat bl @ enc_bool c False))
       (for_collect (getvals_entry c k) 0 (unat (kvNum k))))"
| "call_effect c e (COmapGetvalsbykeys kv i) = with_result kv (\<lambda>k.
     map_sum id (\<lambda>kvs. append_out (enc_smap c (kv_map kvs))) (for_collect (kv_at k) 0 (unat (kvNum k))))"
| "call_effect c e (CRead t off n s i) =
     map_sum id (\<lambda>b. Some (append_out (if t = CEPH_OSD_OP_SPARSE_READ
        then enc_extents c [(ucast off, ucast n)] @ enc_str c b else b))) (sa_view s)"
| "call_effect c e (CGetxattr kv i) = with_result kv (\<lambda>k.
     map_sum id (\<lambda>vs o1. o1\<lparr>outdata := concat vs\<rparr>) (for_collect (view_at (kv_values k)) 0 (unat (kvNum k))))"
| "call_effect c e (CGetxattrs kv i) = with_result kv (\<lambda>k.
     map_sum id (\<lambda>kvs. append_out (enc_smap c (kv_map kvs))) (for_collect (kv_at k) 0 (unat (kvNum k))))"
| "call_effect c e (CGetOpstat sz tm i) = Inr (Some (append_out (enc_u64 c sz @ enc_u64 c (word_of_int tm))))"
| "call_effect c e (CListSnaps os i) = with_result os (\<lambda>s. map_sum id (\<lambda>resp. append_out (e resp)) (list_snaps_response s))"

definition run_effect :: "codec \<Rightarrow> (obj_list_snap_response_t \<Rightarrow> bytes) \<Rightarrow> cache_call \<Rightarrow> OSDOp \<Rightarrow> OSDOp" where
  "run_effect c e k o1 = (case call_effect c e k of Inr (Some g) \<Rightarrow> g o1 | _ \<Rightarrow> o1)"

definition call_fine :: "codec \<Rightarrow> (obj_list_snap_response_t \<Rightarrow> bytes) \<Rightarrow> nat \<Rightarrow> cache_call \<Rightarrow> bool" where
  "call_fine c e n k = (case call_effect c e k of Inl _ \<Rightarrow> False | Inr None \<Rightarrow> True | Inr (Some _) \<Rightarrow> call_index k < n)"

definition after_calls :: "codec \<Rightarrow> (obj_list_snap_response_t \<Rightarrow> bytes) \<Rightarrow> cache_call list \<Rightarrow> OSDOp list \<Rightarrow> OSDOp list" where
  "after_calls c e ks os = map (\<lambda>i. fold (run_effect c e) (filter (\<lambda>k. call_index k = i) ks) (os ! i)) [0..<length os]"

lemmas osa_entry_defs = OSA_SetOpResult_def OSA_ProcessBuf_def OSA_EncodeOmapGetkeys_def OSA_EncodeOmapGetvals_def
  OSA_EncodeOmapGetvalsbykeys_def OSA_EncodeRead_def OSA_EncodeXattrGetxattr_def OSA_EncodeXattrGetxattrs_def
  OSA_EncodeGetOpstat_def OSA_EncodeListSnaps_def SetOpResult_def ProcessBuf_def EncodeOmapGetkeys_def
  EncodeOmapGetvals_def EncodeOmapGetvalsbykeys_def EncodeRead_def EncodeXattrGetXattr_def EncodeXattrGetXattrs_def
  EncodeGetOpstat_def EncodeListSnaps_def

text \<open>Every entry point is its effect, applied to the operation it names.\<close>

lemma osa_call_effect:
  "osa_call c e k (Some m) =
     (case call_effect c e k of
        Inl f \<Rightarrow> Inl f
      | Inr None \<Rightarrow> Inr (Some m)
      | Inr (Some g) \<Rightarrow> map_sum id Some (update_op (call_index k) g m))"
  by (cases k) (auto simp: osa_entry_defs with_result_def split: option.splits sum.splits)

lemma osa_call_fine:
  assumes "call_fine c e (length (mo_ops m)) k"
  shows "osa_call c e k (Some m) =
    Inr (Some (m\<lparr>mo_ops := (mo_ops m)[call_index k := run_effect c e k (mo_ops m ! call_index k)]\<rparr>))"
  using assms
  by (auto simp: osa_call_effect call_fine_def run_effect_def update_op_def split: sum.splits option.splits)

lemma osa_call_not_fine: "\<not> call_fine c e (length (mo_ops m)) k \<Longrightarrow> \<exists>f. osa_call c e k (Some m) = Inl f"
  by (auto simp: osa_call_effect call_fine_def update_op_def split: sum.splits option.splits)

lemma after_calls_Cons:
  "after_calls c e (k # ks) os = after_calls c e ks (os[call_index k := run_effect c e k (os ! call_index k)])"
  unfolding after_calls_def by (rule map_cong) (auto simp: nth_list_update)

text \<open>A sequence of calls runs through when each call alone would, and then every operation has the effects of its own calls, in order.\<close>

lemma osa_calls_fine:
  "list_all (call_fine c e (length (mo_ops m))) ks \<Longrightarrow>
   osa_calls c e ks (Some m) = Inr (Some (m\<lparr>mo_ops := after_calls c e ks (mo_ops m)\<rparr>))"
proof (induction ks arbitrary: m)
  case Nil
  then show ?case by (simp add: after_calls_def map_nth)
next
  case (Cons k ks)
  then show ?case by (simp add: osa_call_fine after_calls_Cons)
qed

lemma osa_calls_result:
  "osa_calls c e ks (Some m) = Inr x \<Longrightarrow> list_all (call_fine c e (length (mo_ops m))) ks"
proof (induction ks arbitrary: m)
  case (Cons k ks)
  have f: "call_fine c e (length (mo_ops m)) k"
    using Cons.prems osa_call_not_fine [of c e m k] by (auto split: sum.splits)
  show ?case using Cons.prems Cons.IH [of "m\<lparr>mo_ops := (mo_ops m)[call_index k := run_effect c e k (mo_ops m ! call_index k)]\<rparr>"] f
    by (simp add: osa_call_fine)
qed simp

section \<open>Answers\<close>

text \<open>The answer of the cache to one operation, the calls that deliver it, and what the client reads from the operation in the reply.\<close>

datatype answer =
    AStatus int
  | AData bytes int
  | AVals "(bytes \<times> bytes) list" int
  | AByKeys "(bytes \<times> bytes) list" int

fun answer_calls :: "nat \<Rightarrow> answer \<Rightarrow> cache_call list" where
  "answer_calls i (AStatus ret) = [CSetOpResult i ret]"
| "answer_calls i (AData b ret) = [CRead CEPH_OSD_OP_READ 0 (of_nat (length b)) (sa_of b) i, CSetOpResult i ret]"
| "answer_calls i (AVals m ret) = [COmapGetvals (Some (kv_of m)) i, CSetOpResult i ret]"
| "answer_calls i (AByKeys m ret) = [COmapGetvalsbykeys (Some (kv_of m)) i, CSetOpResult i ret]"

fun answer_ok :: "answer \<Rightarrow> bool" where
  "answer_ok (AStatus ret) = True"
| "answer_ok (AData b ret) = (length b < 2 ^ 32)"
| "answer_ok (AVals m ret) = (map_wf m \<and> small_map m \<and> list_all (\<lambda>(k, v). k \<noteq> [] \<and> v \<noteq> []) m)"
| "answer_ok (AByKeys m ret) = (map_wf m \<and> small_map m)"

fun read_back :: "codec \<Rightarrow> answer \<Rightarrow> OSDOp \<Rightarrow> bool" where
  "read_back c (AStatus ret) o1 = (rval o1 = ret \<and> outdata o1 = [])"
| "read_back c (AData b ret) o1 = (rval o1 = ret \<and> outdata o1 = b)"
| "read_back c (AVals m ret) o1 = (rval o1 = ret \<and> dec_smap c (outdata o1) = Some (m, enc_bool c False))"
| "read_back c (AByKeys m ret) o1 = (rval o1 = ret \<and> dec_smap c (outdata o1) = Some (m, []))"

definition delivers :: "cache_call list \<Rightarrow> answer list \<Rightarrow> bool" where
  "delivers ks ans \<longleftrightarrow> list_all (\<lambda>k. call_index k < length ans) ks \<and>
     list_all (\<lambda>i. filter (\<lambda>k. call_index k = i) ks = answer_calls i (ans ! i)) [0..<length ans]"

lemma map_put_last: "map_wf (m @ [(k, v)]) \<Longrightarrow> map_put k v m = m @ [(k, v)]"
  by (induction k v m rule: map_put.induct) (auto simp: map_wf_Cons)

lemma map_wf_prefix: "map_wf (m @ m') \<Longrightarrow> map_wf m"
  by (simp add: map_wf_def sorted_wrt_append)

lemma map_find_absent: "k \<notin> fst ` set m \<Longrightarrow> map_find m k = None"
  by (simp add: map_find_def map_of_eq_None_iff)

lemma map_insert_last:
  assumes "map_wf (m @ [(k, v)])"
  shows "map_insert_new k v m = m @ [(k, v)]"
proof -
  have "k \<notin> fst ` set m" using assms by (auto simp: map_wf_def sorted_wrt_append)
  then show ?thesis using map_put_last [OF assms] by (simp add: map_insert_new_def map_find_absent)
qed

lemma kv_map_ordered:
  assumes "map_wf m"
  shows "kv_map m = m"
proof -
  have "map_wf (out @ m) \<Longrightarrow> foldl (\<lambda>out (k, v). map_insert_new k v out) out m = out @ m" for out
  proof (induction m arbitrary: out)
    case (Cons kv m)
    obtain k v where kv: "kv = (k, v)" by (cases kv)
    have "map_insert_new k v out = out @ [(k, v)]"
      using Cons.prems kv map_wf_prefix [of "out @ [(k, v)]" m] by (intro map_insert_last) simp
    then show ?case using Cons.IH [of "out @ [(k, v)]"] Cons.prems kv by simp
  qed simp
  from this [of "[]"] assms show ?thesis by (simp add: kv_map_def)
qed

lemma kv_at_all:
  assumes m: "small_map m"
  shows "for_collect (kv_at (kv_of m)) 0 (unat (kvNum (kv_of m))) = Inr m"
proof -
  have "kv_at (kv_of m) j = Inr (m ! j)" if "j < length m" for j
  proof -
    have "m ! j \<in> set m" using that by simp
    then have "length (fst (m ! j)) < 2 ^ 32" "length (snd (m ! j)) < 2 ^ 32"
      using m by (auto simp: small_map_def list_all_iff case_prod_unfold)
    then show ?thesis using that by (simp add: kv_at_def view_at_def array_at_def kv_of_def)
  qed
  then have "for_collect (kv_at (kv_of m)) 0 (length m) = Inr (map (\<lambda>j. m ! j) [0..<length m])"
    using for_collect_all [of 0 "length m" "kv_at (kv_of m)" "\<lambda>j. m ! j"] by simp
  then show ?thesis using m by (simp add: kv_of_def small_map_def map_nth)
qed

lemma answers_fine:
  assumes "answer_ok a" and "i < n" and "k \<in> set (answer_calls i a)"
  shows "call_fine c e n k"
  using assms
  by (cases a) (auto simp: call_fine_def with_result_def getvals_entries kv_at_all)

lemma answer_read_back:
  assumes c: "codec_ok c" and a: "answer_ok a" and o: "outdata o1 = []"
  shows "read_back c a (fold (run_effect c e) (answer_calls i a) o1)"
proof (cases a)
  case (AVals m ret)
  have "map (\<lambda>(k, v). (if k = [] then [] else enc_str c k) @ (if v = [] then [] else enc_str c v)) m =
      map (\<lambda>(k, v). enc_chunk c k @ enc_chunk c v) m"
    using a AVals codec_okD(5) [OF c] by (auto simp: list_all_iff)
  then have "for_collect (getvals_entry c (kv_of m)) 0 (unat (kvNum (kv_of m))) =
      Inr (map (\<lambda>(k, v). enc_chunk c k @ enc_chunk c v) m)"
    using getvals_entries [of m c] a AVals by simp
  then have "call_effect c e (COmapGetvals (Some (kv_of m)) i) = Inr (Some (append_out (enc_smap c m @ enc_bool c False)))"
    by (simp add: with_result_def codec_okD(3) [OF c] enc_pairs_def kv_of_def)
  then show ?thesis
    using AVals o a codec_okD(4) [OF c, of m "enc_bool c False"] by (simp add: run_effect_def append_out_def)
next
  case (AByKeys m ret)
  then show ?thesis
    using o a codec_okD(4) [OF c, of m "[]"]
    by (simp add: run_effect_def with_result_def kv_at_all kv_map_ordered append_out_def)
qed (use a o in \<open>simp_all add: run_effect_def append_out_def\<close>)

lemma delivered:
  assumes ks: "delivers ks ans" and a: "list_all answer_ok ans" and n: "length ans = length os"
  shows "list_all (call_fine c e (length os)) ks"
    and "i < length os \<Longrightarrow> after_calls c e ks os ! i = fold (run_effect c e) (answer_calls i (ans ! i)) (os ! i)"
proof -
  have at: "filter (\<lambda>k. call_index k = i) ks = answer_calls i (ans ! i)" if "i < length os" for i
    using ks n that by (auto simp: delivers_def list_all_iff)
  show "i < length os \<Longrightarrow> after_calls c e ks os ! i = fold (run_effect c e) (answer_calls i (ans ! i)) (os ! i)"
    using at by (simp add: after_calls_def)
  have "call_fine c e (length os) k" if "k \<in> set ks" for k
  proof (rule answers_fine)
    show i: "call_index k < length os" using that ks n by (auto simp: delivers_def list_all_iff)
    have "k \<in> set (filter (\<lambda>k'. call_index k' = call_index k) ks)" using that by simp
    then show "k \<in> set (answer_calls (call_index k) (ans ! call_index k))" by (simp only: at [OF i])
    show "answer_ok (ans ! call_index k)" using a i n by (simp add: list_all_length)
  qed
  then show "list_all (call_fine c e (length os)) ks" by (simp add: list_all_iff)
qed

text \<open>Room in the counters for one more request, so that none of them wraps around.\<close>

definition room_for :: "SaOpReq \<Rightarrow> counters \<Rightarrow> bool" where
  "room_for r q \<longleftrightarrow> unat (lwtWriteCount q) + 1 < 2 ^ 64 \<and> unat (lwtReadCount q) + 1 < 2 ^ 64 \<and>
     unat (writeBW q) + unat (rq_optionLength r) < 2 ^ 64 \<and> unat (readBW q) + unat (rq_optionLength r) < 2 ^ 64"

lemma u32_through_u64: "ucast (ucast t :: u64) = (t :: u32)"
  by (simp add: bit_eq_iff bit_simps)

section \<open>Properties\<close>


text \<open>Witness: two reads, the second finished first and with an error.\<close>

definition two_reads :: MOSDOp where
  "two_reads = one_op_msg\<lparr>mo_ops := [read_op 4096, read_op 512]\<rparr>"

definition late_first :: "cache_call list" where
  "late_first = [CSetOpResult 1 (- 2), CRead CEPH_OSD_OP_READ 0 3 (sa_of ''abc'') 0, CSetOpResult 0 3]"

lemma two_reads_accepted:
  "\<exists>r. ProcessOpReq le_codec undefined (saOpThrottle default_qos) True [two_reads] [7] new_SaOpReq idle_net = Inr (0, [], [], r, idle_net) \<and>
     rq_optionType r = GCACHE_READ \<and> rq_optionLength r = 4"
proof -
  have nr: "rbd_sections ''obj'' = [''obj'']" by (simp add: rbd_sections_def c_str_def strtok.simps)
  show ?thesis
    by (simp add: ProcessOpReq_def two_reads_def one_op_msg_def nr Let_def ConvertClientopToOpreq_def read_op_def fill_request_def
        new_SaOpReq_def)
qed


text \<open>
  C17: The order in which the cache finishes the operations of a message does not matter. Two sequences of calls with the same calls for each
  operation, in the same order for that operation, either both run through, with the same message as result, or both fail. This holds for
  all ten entry points, for null results, and for calls with an index that the message does not have.
\<close>

theorem calls_interleave:
  assumes same: "\<And>i. filter (\<lambda>k. call_index k = i) ks = filter (\<lambda>k. call_index k = i) ks'"
  shows "osa_calls c e ks p = Inr x \<longleftrightarrow> osa_calls c e ks' p = Inr x"
proof (cases p)
  case None
  have "osa_calls c e l None = Inr None" for l
  proof (induction l)
    case (Cons k l)
    have "osa_call c e k None = Inr None" by (cases k) (simp_all add: osa_entry_defs)
    with Cons show ?case by simp
  qed simp
  with None show ?thesis by simp
next
  case (Some m)
  have "k \<in> set ks \<longleftrightarrow> k \<in> set ks'" for k
    using arg_cong [OF same [of "call_index k"], of "\<lambda>l. k \<in> set l"] by simp
  then have f: "list_all (call_fine c e (length (mo_ops m))) ks \<longleftrightarrow> list_all (call_fine c e (length (mo_ops m))) ks'"
    unfolding list_all_iff by blast
  have a: "after_calls c e ks (mo_ops m) = after_calls c e ks' (mo_ops m)" by (simp add: after_calls_def same)
  show ?thesis
  proof (cases "list_all (call_fine c e (length (mo_ops m))) ks")
    case True
    then show ?thesis using f Some by (simp add: osa_calls_fine a)
  next
    case False
    then show ?thesis using f Some osa_calls_result by blast
  qed
qed

theorem calls_interleave_witness:
  "osa_calls le_codec (\<lambda>_. []) late_first (Some two_reads) =
     Inr (Some (two_reads\<lparr>mo_ops := [(read_op 4096)\<lparr>outdata := ''abc'', rval := 3\<rparr>, (read_op 512)\<lparr>rval := - 2\<rparr>]\<rparr>))"
proof -
  let ?ks = "[CRead CEPH_OSD_OP_READ 0 3 (sa_of ''abc'') 0, CSetOpResult 0 3, CSetOpResult 1 (- 2)]"
  have "osa_calls le_codec (\<lambda>_. []) ?ks (Some two_reads) =
     Inr (Some (two_reads\<lparr>mo_ops := [(read_op 4096)\<lparr>outdata := ''abc'', rval := 3\<rparr>, (read_op 512)\<lparr>rval := - 2\<rparr>]\<rparr>))"
    by (simp add: osa_entry_defs update_op_def append_out_def two_reads_def read_op_def blank_op_def)
  moreover have "filter (\<lambda>k. call_index k = i) late_first = filter (\<lambda>k. call_index k = i) ?ks" for i
    by (simp add: late_first_def)
  ultimately show ?thesis using calls_interleave [of late_first ?ks] by blast
qed

end
