(* ===== verification/Server_Cycle.thy ===== *)
theory Server_Cycle
  imports Server Request_Cycle
begin

text \<open>
  The server adaptor as a whole: dispatch, all queues with their handlers (\<open>Server\<close>), the five admission counters of \<open>network_module.cpp\<close> with the
  waiting inside them, and the cache's answers (\<open>Request_Cycle\<close>), in one step relation.

  A handler takes the counters of its request one after the other (\<open>OpHandlerThread\<close>: \<open>GetlwtCas\<close>, then \<open>GetWritelwtCas\<close>/\<open>GetWriteBWCas\<close> or
  \<open>GetReadlwtCas\<close>/\<open>GetReadBWCas\<close>). A step is one successful compare-and-swap, one sample of the sleeping loop that ends it, or one of the
  queue's own steps of \<open>Op_Queue\<close>. \<open>cy_out\<close> are the requests the cache has and has not answered; it answers each of them
  once, after any sequence of calls that write results into the message. \<open>cy_done\<close> is the history of answered messages.
\<close>

section \<open>State\<close>

text \<open>The counters in the order in which a handler takes them; \<open>GTake\<close>: those it still has to take, \<open>GWait\<close>: it sleeps at one it has taken.\<close>

datatype gate = GOp | GWriteOp | GWriteBW | GReadOp | GReadBW

datatype gate_pc = GIdle | GTake "gate list" | GWait gate "gate list"

record cyc =
  cy_sv :: server
  cy_gate :: "gate_pc list"
  cy_out :: "SaOpReq list"
  cy_done :: "MOSDOp list"

definition gates_of :: "SaOpReq \<Rightarrow> gate list" where
  "gates_of r = GOp # (if rq_optionType r = GCACHE_WRITE then [GWriteOp, GWriteBW] else []) @
     (if rq_optionType r = GCACHE_READ then [GReadOp, GReadBW] else [])"

text \<open>One \<open>Get...Cas\<close> up to the test of the value it replaced: \<open>None\<close> says that the handler goes to sleep.\<close>

definition gate_take :: "queue_env \<Rightarrow> SaOpReq \<Rightarrow> gate \<Rightarrow> counters \<Rightarrow> counters \<times> nat option" where
  "gate_take E r g q =
     (case g of
        GOp \<Rightarrow> GetlwtCas (saOpThrottle (e_qos E)) 1 [] q
      | GWriteOp \<Rightarrow> GetWritelwtCas (writeOpThrottle (e_limits E)) 1 [] q
      | GWriteBW \<Rightarrow> GetWriteBWCas (writeBWThrottle (e_limits E)) (rq_optionLength r) [] q
      | GReadOp \<Rightarrow> GetReadlwtCas (readOpThrottle (e_limits E)) 1 [] q
      | GReadBW \<Rightarrow> GetReadBWCas (readBWThrottle (e_limits E)) (rq_optionLength r) [] q)"

text \<open>A sample of the sleeping loop that ends it.\<close>

definition gate_open :: "queue_env \<Rightarrow> gate \<Rightarrow> counters \<Rightarrow> bool" where
  "gate_open E g q =
     (case g of
        GOp \<Rightarrow> lwtCount q \<le> saOpThrottle (e_qos E)
      | GWriteOp \<Rightarrow> writeOpThrottle (e_limits E) = 0 \<or> lwtWriteCount q \<le> writeOpThrottle (e_limits E)
      | GWriteBW \<Rightarrow> writeBWThrottle (e_limits E) = 0 \<or> writeBW q \<le> writeBWThrottle (e_limits E)
      | GReadOp \<Rightarrow> readOpThrottle (e_limits E) = 0 \<or> lwtReadCount q \<le> readOpThrottle (e_limits E)
      | GReadBW \<Rightarrow> readBWThrottle (e_limits E) = 0 \<or> readBW q \<le> readBWThrottle (e_limits E))"

section \<open>Steps\<close>

text \<open>
  A step of a queue that neither receives a new message nor touches the counters and replies, other than by dealing with a message: those of
  \<open>admitted\<close> and \<open>finish\<close> in \<open>Op_Queue\<close> are replaced by the steps below.
\<close>

definition own_step :: "queue_env \<Rightarrow> op_queue \<Rightarrow> op_queue \<Rightarrow> bool" where
  "own_step E q q' \<longleftrightarrow> oq_any E q q' \<and> arrived q' = arrived q \<and> (oq_net q' = oq_net q \<or> oq_served q' \<noteq> oq_served q)"

definition cy_hpc :: "cyc \<Rightarrow> nat \<Rightarrow> hpc" where
  "cy_hpc s i = oq_hpc (sv_queues (cy_sv s) ! i)"

definition cy_counters :: "cyc \<Rightarrow> counters" where
  "cy_counters s = nt_counters (sv_net (cy_sv s))"

definition set_counters :: "counters \<Rightarrow> server \<Rightarrow> server" where
  "set_counters q v = v\<lparr>sv_net := (sv_net v)\<lparr>nt_counters := q\<rparr>\<rparr>"

text \<open>The server after a step of one queue.\<close>

definition after_own :: "nat \<Rightarrow> op_queue \<Rightarrow> cyc \<Rightarrow> cyc" where
  "after_own i q s = s\<lparr>cy_sv := sv_put i q (cy_sv s),
     cy_out := cy_out s @ drop (length (oq_submitted (sv_queues (cy_sv s) ! i))) (oq_submitted q)\<rparr>"

inductive cy_work :: "queue_env \<Rightarrow> (obj_list_snap_response_t \<Rightarrow> bytes) \<Rightarrow> cyc \<Rightarrow> cyc \<Rightarrow> bool" for E er where
  own: "i < length (sv_queues (cy_sv s)) \<Longrightarrow> own_step E (sv_view i (cy_sv s)) q \<Longrightarrow>
     cy_work E er s (after_own i q s)"
| enter: "i < length (sv_queues (cy_sv s)) \<Longrightarrow> cy_hpc s i = HAdmit r \<Longrightarrow> cy_gate s ! i = GIdle \<Longrightarrow>
     cy_work E er s (s\<lparr>cy_gate := (cy_gate s)[i := GTake (gates_of r)]\<rparr>)"
| take: "i < length (sv_queues (cy_sv s)) \<Longrightarrow> cy_hpc s i = HAdmit r \<Longrightarrow> cy_gate s ! i = GTake (g # gs) \<Longrightarrow>
     gate_take E r g (cy_counters s) = (q, w) \<Longrightarrow>
     cy_work E er s (s\<lparr>cy_sv := set_counters q (cy_sv s),
       cy_gate := (cy_gate s)[i := (if w = None then GWait g gs else GTake gs)]\<rparr>)"
| sample: "i < length (sv_queues (cy_sv s)) \<Longrightarrow> cy_gate s ! i = GWait g gs \<Longrightarrow> gate_open E g (cy_counters s) \<Longrightarrow>
     cy_work E er s (s\<lparr>cy_gate := (cy_gate s)[i := GTake gs]\<rparr>)"
| pass: "i < length (sv_queues (cy_sv s)) \<Longrightarrow> cy_hpc s i = HAdmit r \<Longrightarrow> cy_gate s ! i = GTake [] \<Longrightarrow>
     cy_work E er s (s\<lparr>cy_sv := sv_put i ((sv_view i (cy_sv s))\<lparr>oq_hpc := HCopy r\<rparr>) (cy_sv s),
       cy_gate := (cy_gate s)[i := GIdle]\<rparr>)"
| answer: "cy_out s = xs @ r # ys \<Longrightarrow> osa_calls (e_codec E) er ks (ptrMosdop r) = Inr (Some m) \<Longrightarrow>
     cy_work E er s (s\<lparr>cy_sv := (cy_sv s)\<lparr>sv_net := snd (OSA_FinishCacheOps (saOpThrottle (e_qos E)) (e_module E) (Some m)
         (ucast (rq_optionType r)) (rq_optionLength r) res (sv_net (cy_sv s)))\<rparr>,
       cy_out := xs @ ys, cy_done := cy_done s @ [the (ptrMosdop r)]\<rparr>)"

inductive cy_step :: "(string \<Rightarrow> nat) \<Rightarrow> queue_env \<Rightarrow> (obj_list_snap_response_t \<Rightarrow> bytes) \<Rightarrow> cyc \<Rightarrow> cyc \<Rightarrow> bool" for hash E er where
  receive: "dispatch_ready hash m (cy_sv s) \<Longrightarrow> ms_dispatch hash E tss m (cy_sv s) = Inr (b, v) \<Longrightarrow>
     cy_step hash E er s (s\<lparr>cy_sv := v\<rparr>)"
| work: "cy_work E er s s' \<Longrightarrow> cy_step hash E er s s'"

definition cy_start :: "nat \<Rightarrow> cyc" where
  "cy_start n = \<lparr>cy_sv = sv_start n idle_net, cy_gate = replicate n GIdle, cy_out = [], cy_done = []\<rparr>"

text \<open>The gates one after the other do to the counters what \<open>admit\<close> does.\<close>

lemma gates_are_admit:
  assumes "admit (e_qos E) (e_limits E) smp r q = (q', Some k)"
  shows "q' = fold (\<lambda>g q. fst (gate_take E r g q)) (gates_of r) q"
  unfolding admit_counters [OF assms]
  by (simp add: gates_of_def gate_take_def GetlwtCas_def GetWritelwtCas_def GetWriteBWCas_def GetReadlwtCas_def GetReadBWCas_def)

section \<open>What becomes of a message\<close>

datatype op_outcome = OFault fault | OAccepted SaOpReq | ORejected | OLost

definition outcome_of :: "queue_env \<Rightarrow> MOSDOp \<Rightarrow> op_outcome" where
  "outcome_of E op =
     (case ProcessOpReq (e_codec E) (e_junk E) (saOpThrottle (e_qos E)) (e_module E) [op] [0] new_SaOpReq idle_net of
        Inl f \<Rightarrow> OFault f
      | Inr (ret, _, _, r, _) \<Rightarrow> if ret = 0 then OAccepted r else if ret = 1 then ORejected else OLost)"

definition reject :: "queue_env \<Rightarrow> MOSDOp \<Rightarrow> Net \<Rightarrow> Net" where
  "reject E op n = FinishCacheOps (saOpThrottle (e_qos E)) (e_module E) (Some op) 0 0 (- EINVAL) n"

lemma Process_outcome:
  "case outcome_of E op of
     OFault f \<Rightarrow> ProcessOpReq (e_codec E) (e_junk E) (saOpThrottle (e_qos E)) (e_module E) (op # dq) (pts # pq) new_SaOpReq n = Inl f
   | OAccepted r \<Rightarrow> ProcessOpReq (e_codec E) (e_junk E) (saOpThrottle (e_qos E)) (e_module E) (op # dq) (pts # pq) new_SaOpReq n = Inr (0, dq, pq, r, n)
   | ORejected \<Rightarrow> (\<exists>r. ProcessOpReq (e_codec E) (e_junk E) (saOpThrottle (e_qos E)) (e_module E) (op # dq) (pts # pq) new_SaOpReq n = Inr (1, dq, pq, r, reject E op n))
   | OLost \<Rightarrow> (\<exists>r. ProcessOpReq (e_codec E) (e_junk E) (saOpThrottle (e_qos E)) (e_module E) (op # dq) (pts # pq) new_SaOpReq n = Inr (- 1, dq, pq, r, n))"
proof -
  have "rq_optionType (fill_request op new_SaOpReq) = 0" "rq_optionLength (fill_request op new_SaOpReq) = 0"
    by (simp_all add: fill_request_def new_SaOpReq_def)
  then show ?thesis
    by (auto simp: outcome_of_def reject_def ProcessOpReq_def Let_def split: sum.splits prod.splits option.splits if_splits)
qed

lemma outcome_request:
  assumes "outcome_of E op = OAccepted r"
  shows "ptrMosdop r = Some op" and "rq_optionType r = GCACHE_WRITE \<or> rq_optionType r = GCACHE_READ"
proof -
  have p: "ProcessOpReq (e_codec E) (e_junk E) (saOpThrottle (e_qos E)) (e_module E) [op] [0] new_SaOpReq idle_net = Inr (0, [], [], r, idle_net)"
    using Process_outcome [of E op "[]" 0 "[]" idle_net] assms by simp
  show "ptrMosdop r = Some op" by (rule accepted_message(1) [OF p])
  show "rq_optionType r = GCACHE_WRITE \<or> rq_optionType r = GCACHE_READ"
    by (rule ProcessOpReq_accepted [OF p]) (auto split: if_splits)
qed

section \<open>The steps of a queue, as the server sees them\<close>

text \<open>The request a handler carries, and whether it has been admitted.\<close>

fun working :: "hpc \<Rightarrow> (bool \<times> SaOpReq) option" where
  "working (HAdmit r) = Some (False, r)"
| "working (HCopy r) = Some (True, r)"
| "working h = None"

definition req_ok :: "queue_env \<Rightarrow> SaOpReq \<Rightarrow> bool" where
  "req_ok E r \<longleftrightarrow> (\<exists>op r0. ptrMosdop r = Some op \<and> outcome_of E op = OAccepted r0 \<and> rq_optionType r = rq_optionType r0 \<and>
     rq_optionLength r = rq_optionLength r0)"

lemma req_ok_type: "req_ok E r \<Longrightarrow> rq_optionType r = GCACHE_WRITE \<or> rq_optionType r = GCACHE_READ"
  unfolding req_ok_def using outcome_request(2) by metis

definition hpc_ok :: "queue_env \<Rightarrow> (bool \<times> SaOpReq) option \<Rightarrow> bool" where
  "hpc_ok E w \<longleftrightarrow> (case w of None \<Rightarrow> True | Some (_, r) \<Rightarrow> req_ok E r)"

definition own_quiet :: "op_queue \<Rightarrow> op_queue \<Rightarrow> bool" where
  "own_quiet q q' \<longleftrightarrow> oq_net q' = oq_net q \<and> oq_served q' = oq_served q \<and> oq_submitted q' = oq_submitted q \<and>
     working (oq_hpc q') = working (oq_hpc q)"

definition deals :: "queue_env \<Rightarrow> MOSDOp \<Rightarrow> u64 \<Rightarrow> u64 \<Rightarrow> op_queue \<Rightarrow> op_queue \<Rightarrow> bool" where
  "deals E op ts pts q q' \<longleftrightarrow> oq_hpc q = HDeal \<and> oq_served q' = oq_served q @ [(op, ts, pts)] \<and> oq_submitted q' = oq_submitted q \<and>
     (case outcome_of E op of
        OFault f \<Rightarrow> False
      | OAccepted r \<Rightarrow> oq_hpc q' = HAdmit r \<and> oq_net q' = oq_net q
      | ORejected \<Rightarrow> oq_hpc q' = HDeal \<and> oq_net q' = reject E op (oq_net q)
      | OLost \<Rightarrow> oq_hpc q' = HDeal \<and> oq_net q' = oq_net q)"

definition hands_over :: "SaOpReq \<Rightarrow> op_queue \<Rightarrow> op_queue \<Rightarrow> bool" where
  "hands_over r q q' \<longleftrightarrow> oq_hpc q = HCopy r \<and> oq_hpc q' = HDeal \<and> oq_net q' = oq_net q \<and> oq_served q' = oq_served q \<and>
     (\<exists>f. oq_submitted q' = oq_submitted q @ [r\<lparr>rq_copyupFlag := f\<rparr>])"

lemma deal_one_deals:
  assumes inv: "oq_inv E q" and ne: "dealQueue q \<noteq> []" and h: "oq_hpc q = HDeal"
  shows "own_quiet q (deal_one E q) \<or> (\<exists>op ts pts. deals E op ts pts q (deal_one E q))"
proof -
  obtain op dq where d: "dealQueue q = op # dq" using ne by (cases "dealQueue q") auto
  with inv obtain ts dts pts pq where t: "dealTs q = ts # dts" "periodTs q = pts # pq"
    by (cases "dealTs q"; cases "periodTs q") (auto simp: oq_inv_def)
  show ?thesis
    using Process_outcome [of E op dq pts pq "oq_net q"] d t h
    by (cases "outcome_of E op") (auto simp: deal_one_def deals_def own_quiet_def)
qed

lemma admit_changes:
  assumes "admit Q L smp r q = (q', Some n)" "rq_optionType r = GCACHE_WRITE \<or> rq_optionType r = GCACHE_READ"
  shows "q' \<noteq> q"
proof
  assume "q' = q"
  have "x + 1 \<noteq> x" for x :: u64 by simp
  with assms(2) admit_counters [OF assms(1)] \<open>q' = q\<close> show False
    by (auto dest: arg_cong [of _ _ lwtWriteCount] arg_cong [of _ _ lwtReadCount])
qed

lemma finish_replies [simp]:
  "nt_replies (FinishCacheOps th hm (Some m) t l res n) = nt_replies n @ [(m, res)]"
  by (simp add: FinishCacheOps_def Let_def)

lemma finish_changes: "FinishCacheOps th hm p t l res n = n \<Longrightarrow> p = None"
  by (cases p) (auto dest: arg_cong [of _ _ nt_replies])

lemma own_step_cases:
  assumes st: "own_step E q q'" and inv: "oq_inv E q" and h: "hpc_ok E (working (oq_hpc q))"
  obtains (own_quiet) "own_quiet q q'"
  | (deals) op ts pts where "deals E op ts pts q q'"
  | (hands_over) r where "hands_over r q q'"
proof -
  have net: "oq_net q' = oq_net q \<or> oq_served q' \<noteq> oq_served q" using st by (simp add: own_step_def)
  have "own_quiet q q' \<or> (\<exists>op ts pts. deals E op ts pts q q') \<or> (\<exists>r. hands_over r q q')"
  proof (cases "oq_spurious q q'")
    case True
    then show ?thesis by (auto simp: own_quiet_def elim: oq_spurious.cases)
  next
    case False
    then have "oq_step E q q'" using st by (simp add: own_step_def oq_any_def)
    then show ?thesis using inv h net
    proof (induction rule: oq_step.induct)
      case (recv s e)
      then show ?case by (cases e) (auto simp: EnqueueClientop_def own_quiet_def enqueue_q)
    next
      case (recv_woken s e es)
      then show ?case by (cases e) (auto simp: own_quiet_def enqueue_q)
    next
      case (deal s)
      then show ?case using deal_one_deals by blast
    next
      case (admitted s r smp q' n)
      have "rq_optionType r = GCACHE_WRITE \<or> rq_optionType r = GCACHE_READ"
        using admitted.prems(2) admitted.hyps(1) by (intro req_ok_type [of E]) (simp add: hpc_ok_def)
      from admit_changes [OF admitted.hyps(2) this] have "nt_counters (oq_net s) \<noteq> q'" by blast
      then have "(oq_net s)\<lparr>nt_counters := q'\<rparr> \<noteq> oq_net s" by (metis Net.select_convs(1) Net.surjective Net.update_convs(1))
      then show ?case using admitted.prems(3) by simp
    next
      case (do_ops s r)
      have "oq_submitted (submit r s) = oq_submitted s @ [r\<lparr>rq_copyupFlag := (if exitsCopyUp r = 1 then True else rq_copyupFlag r)\<rparr>]"
        by (simp add: submit_def)
      then have "hands_over r s (submit r s)"
        using do_ops unfolding hands_over_def by (intro conjI exI) (auto simp: submit_def)
      then show ?case by blast
    next
      case (finish r s res)
      then show ?case by (auto simp: own_quiet_def dest: finish_changes)
    qed (auto simp: own_quiet_def handler_body_def notify_condOpReq_def)
  qed
  then show thesis using that by blast
qed

section \<open>The invariant\<close>

text \<open>The handlers, what each of them has taken so far, and what it has in hand.\<close>

definition handlers :: "cyc \<Rightarrow> ((bool \<times> SaOpReq) option \<times> gate_pc) list" where
  "handlers s = zip (map (working \<circ> oq_hpc) (sv_queues (cy_sv s))) (cy_gate s)"

fun taken :: "bool \<Rightarrow> SaOpReq \<Rightarrow> gate_pc \<Rightarrow> gate list" where
  "taken True r p = gates_of r"
| "taken False r GIdle = []"
| "taken False r (GTake gs) = take (length (gates_of r) - length gs) (gates_of r)"
| "taken False r (GWait g gs) = take (length (gates_of r) - length gs) (gates_of r)"

fun gate_ok :: "(bool \<times> SaOpReq) option \<Rightarrow> gate_pc \<Rightarrow> bool" where
  "gate_ok w GIdle = True"
| "gate_ok w (GTake gs) = (\<exists>r ds. w = Some (False, r) \<and> gates_of r = ds @ gs)"
| "gate_ok w (GWait g gs) = (\<exists>r ds. w = Some (False, r) \<and> gates_of r = ds @ g # gs)"

definition amount :: "queue_env \<Rightarrow> SaOpReq \<Rightarrow> gate \<Rightarrow> nat" where
  "amount E r g =
     (case g of
        GOp \<Rightarrow> if saOpThrottle (e_qos E) = 0 then 0 else 1
      | GWriteOp \<Rightarrow> 1
      | GReadOp \<Rightarrow> 1
      | GWriteBW \<Rightarrow> unat (rq_optionLength r)
      | GReadBW \<Rightarrow> unat (rq_optionLength r))"

definition use :: "queue_env \<Rightarrow> gate \<Rightarrow> SaOpReq \<Rightarrow> nat" where
  "use E g r = (if g \<in> set (gates_of r) then amount E r g else 0)"

definition hold :: "queue_env \<Rightarrow> gate \<Rightarrow> (bool \<times> SaOpReq) option \<times> gate_pc \<Rightarrow> nat" where
  "hold E g x = (case fst x of None \<Rightarrow> 0 | Some (b, r) \<Rightarrow> if g \<in> set (taken b r (snd x)) then amount E r g else 0)"

definition in_hand :: "(bool \<times> SaOpReq) option \<times> gate_pc \<Rightarrow> MOSDOp multiset" where
  "in_hand x = (case fst x of None \<Rightarrow> {#} | Some (b, r) \<Rightarrow> {#the (ptrMosdop r)#})"

fun cnt :: "gate \<Rightarrow> counters \<Rightarrow> u64" where
  "cnt GOp q = lwtCount q"
| "cnt GWriteOp q = lwtWriteCount q"
| "cnt GWriteBW q = writeBW q"
| "cnt GReadOp q = lwtReadCount q"
| "cnt GReadBW q = readBW q"

text \<open>What handlers and requests in flight have taken of a counter, and the requests that were answered without having taken anything.\<close>

definition in_use :: "queue_env \<Rightarrow> gate \<Rightarrow> cyc \<Rightarrow> nat" where
  "in_use E g s = sum_list (map (hold E g) (handlers s)) + sum_list (map (use E g) (cy_out s))"

definition rejects :: "queue_env \<Rightarrow> cyc \<Rightarrow> nat" where
  "rejects E s = length (filter (\<lambda>e. outcome_of E (fst e) = ORejected) (sv_served (cy_sv s)))"

definition drift :: "queue_env \<Rightarrow> gate \<Rightarrow> cyc \<Rightarrow> nat" where
  "drift E g s = (if g = GOp \<and> saOpThrottle (e_qos E) \<noteq> 0 then rejects E s else 0)"

definition counters_ok :: "queue_env \<Rightarrow> cyc \<Rightarrow> bool" where
  "counters_ok E s \<longleftrightarrow> (\<forall>g. cnt g (cy_counters s) + of_nat (drift E g s) = of_nat (in_use E g s))"

definition accepted :: "queue_env \<Rightarrow> MOSDOp \<Rightarrow> bool" where
  "accepted E op \<longleftrightarrow> (\<exists>r. outcome_of E op = OAccepted r)"

definition messages_ok :: "queue_env \<Rightarrow> cyc \<Rightarrow> bool" where
  "messages_ok E s \<longleftrightarrow> mset (filter (accepted E) (map fst (sv_served (cy_sv s)))) =
     sum_list (map in_hand (handlers s)) + mset (map (the \<circ> ptrMosdop) (cy_out s)) + mset (cy_done s)"

text \<open>A message but for its operations, which carry the results in the reply.\<close>

definition ident :: "MOSDOp \<Rightarrow> MOSDOp" where
  "ident m = m\<lparr>mo_ops := []\<rparr>"

definition replies_ok :: "queue_env \<Rightarrow> cyc \<Rightarrow> bool" where
  "replies_ok E s \<longleftrightarrow> mset (map (ident \<circ> fst) (nt_replies (sv_net (cy_sv s)))) =
     mset (map ident (cy_done s)) + mset (map (ident \<circ> fst) (filter (\<lambda>e. outcome_of E (fst e) = ORejected) (sv_served (cy_sv s))))"

definition cy_ok :: "(string \<Rightarrow> nat) \<Rightarrow> queue_env \<Rightarrow> nat \<Rightarrow> cyc \<Rightarrow> bool" where
  "cy_ok hash E n s \<longleftrightarrow> sv_inv hash E (cy_sv s) \<and> length (sv_queues (cy_sv s)) = n \<and> length (cy_gate s) = n \<and>
     list_all (\<lambda>x. hpc_ok E (fst x) \<and> gate_ok (fst x) (snd x)) (handlers s) \<and> list_all (req_ok E) (cy_out s)"

subsection \<open>Updates\<close>

lemma sum_list_update_add:
  "i < length xs \<Longrightarrow> sum_list (map f (xs[i := y])) + f (xs ! i) = sum_list (map f xs) + (f y :: 'a :: comm_monoid_add)"
proof (induction xs arbitrary: i)
  case (Cons x xs)
  then show ?case by (cases i) (auto simp: algebra_simps)
qed simp

lemma handlers_simps [simp]:
  "handlers (s\<lparr>cy_out := x\<rparr>) = handlers s" "handlers (s\<lparr>cy_done := y\<rparr>) = handlers s"
  "handlers (s\<lparr>cy_sv := v\<lparr>sv_net := n\<rparr>\<rparr>) = handlers (s\<lparr>cy_sv := v\<rparr>)" "handlers (s\<lparr>cy_sv := cy_sv s\<rparr>) = handlers s"
  by (simp_all add: handlers_def)

lemma handlers_put:
  "i < length (cy_gate s) \<Longrightarrow> handlers (s\<lparr>cy_sv := sv_put i q (cy_sv s)\<rparr>) = (handlers s)[i := (working (oq_hpc q), cy_gate s ! i)]"
  by (simp add: handlers_def sv_put_def map_update update_zip)

lemma handlers_gate:
  "i < length (sv_queues (cy_sv s)) \<Longrightarrow> handlers (s\<lparr>cy_gate := (cy_gate s)[i := p]\<rparr>) = (handlers s)[i := (working (cy_hpc s i), p)]"
  by (simp add: handlers_def update_zip cy_hpc_def)
    (metis comp_apply length_map list_update_id nth_map)

lemma handlers_nth: "i < length (sv_queues (cy_sv s)) \<Longrightarrow> length (cy_gate s) = length (sv_queues (cy_sv s)) \<Longrightarrow>
    handlers s ! i = (working (cy_hpc s i), cy_gate s ! i)"
  by (simp add: handlers_def cy_hpc_def)

lemma handlers_same: "i < length (sv_queues (cy_sv s)) \<Longrightarrow> length (cy_gate s) = length (sv_queues (cy_sv s)) \<Longrightarrow>
    working h = working (cy_hpc s i) \<Longrightarrow> (handlers s)[i := (working h, cy_gate s ! i)] = handlers s"
  by (metis handlers_nth list_update_id)

lemma use_flag [simp]: "use E g (r\<lparr>rq_copyupFlag := f\<rparr>) = use E g r"
  by (cases g) (simp_all add: use_def gates_of_def amount_def)

lemma distinct_gates: "distinct (gates_of r)"
  by (simp add: gates_of_def)

lemma idle_gate: "gate_ok None p \<longleftrightarrow> p = GIdle" "gate_ok (Some (True, r)) p \<longleftrightarrow> p = GIdle"
  by (cases p; simp)+

lemma update_hold:
  assumes "i < length (handlers s)"
  shows "sum_list (map (hold E g) ((handlers s)[i := x])) + hold E g (handlers s ! i) = sum_list (map (hold E g) (handlers s)) + hold E g x"
    and "sum_list (map in_hand ((handlers s)[i := x])) + in_hand (handlers s ! i) = sum_list (map in_hand (handlers s)) + in_hand x"
  using sum_list_update_add [OF assms] by blast+

lemma handlers_len [simp]: "length (cy_gate s) = length (sv_queues (cy_sv s)) \<Longrightarrow> length (handlers s) = length (sv_queues (cy_sv s))"
  by (simp add: handlers_def)

lemma cy_okD:
  assumes "cy_ok hash E n s" "i < n"
  shows "hpc_ok E (working (cy_hpc s i))" "gate_ok (working (cy_hpc s i)) (cy_gate s ! i)" "oq_inv E (sv_view i (cy_sv s))"
    "length (handlers s) = n" "handlers s ! i = (working (cy_hpc s i), cy_gate s ! i)"
proof -
  show l: "length (handlers s) = n" and h: "handlers s ! i = (working (cy_hpc s i), cy_gate s ! i)"
    using assms by (simp_all add: cy_ok_def handlers_nth)
  have "list_all (\<lambda>x. hpc_ok E (fst x) \<and> gate_ok (fst x) (snd x)) (handlers s)" using assms by (simp add: cy_ok_def)
  then show "hpc_ok E (working (cy_hpc s i))" "gate_ok (working (cy_hpc s i)) (cy_gate s ! i)"
    using l h assms(2) by (auto simp: list_all_length dest: spec [of _ i])
  show "oq_inv E (sv_view i (cy_sv s))" using assms by (simp add: cy_ok_def sv_inv_def queue_ok_def)
qed

text \<open>A change of one handler and of what is in flight.\<close>

lemma in_use_change:
  assumes "cy_ok hash E n s" "i < n" "handlers s' = (handlers s)[i := x]"
  shows "in_use E g s' + (hold E g (working (cy_hpc s i), cy_gate s ! i) + sum_list (map (use E g) (cy_out s))) =
    in_use E g s + (hold E g x + sum_list (map (use E g) (cy_out s')))"
  using update_hold(1) [of i s E g x] cy_okD(4,5) [OF assms(1,2)] assms(2,3) by (simp add: in_use_def)

lemma sv_acc_put: "sv_acc (sv_put i q v) = sv_acc v @ drop (length (oq_acc (sv_queues v ! i))) (oq_acc q)"
  by (simp add: sv_put_def)

subsection \<open>Well-formedness\<close>

lemma sv_inv_net [simp]: "sv_inv hash E (v\<lparr>sv_net := n\<rparr>) = sv_inv hash E v"
  by (simp add: sv_inv_def)

lemma sv_put_hpc_inv:
  assumes "sv_inv hash E v" "i < length (sv_queues v)" "dealing (oq_hpc (sv_queues v ! i))" "dealing h" "h \<noteq> HWait"
  shows "sv_inv hash E (sv_put i ((sv_view i v)\<lparr>oq_hpc := h\<rparr>) v)"
proof -
  have "queue_ok hash E (length (sv_queues v)) (sv_acc v) (sv_served v) i (sv_queues v ! i)" using assms by (simp add: sv_inv_def)
  then have "queue_ok hash E (length (sv_queues v)) (sv_acc v) (sv_served v) i ((sv_view i v)\<lparr>oq_hpc := h\<rparr>)"
    using assms(3-5) by (auto simp: queue_ok_def oq_inv_def oq_pending_def arrived_def sv_view_def)
  then show ?thesis
    using assms(1,2) by (auto simp: sv_inv_def sv_put_def sv_view_def nth_list_update)
qed

lemma own_put_inv:
  assumes "cy_ok hash E n s" "i < n" "own_step E (sv_view i (cy_sv s)) q"
  shows "sv_inv hash E (sv_put i q (cy_sv s))"
proof (rule sv_put_inv)
  show "oq_any E (sv_view i (cy_sv s)) q" using assms(3) by (simp add: own_step_def)
  show "\<forall>e \<in># arrived q. routed hash (length (sv_queues (cy_sv s))) i e"
    using assms by (auto simp: own_step_def cy_ok_def sv_inv_def queue_ok_def)
qed (use assms in \<open>auto simp: cy_ok_def\<close>)

lemma view_fields [simp]:
  "oq_hpc (sv_view i (cy_sv s)) = cy_hpc s i" "oq_net (sv_view i v) = sv_net v" "oq_submitted (sv_view i v) = oq_submitted (sv_queues v ! i)"
  by (simp_all add: sv_view_def cy_hpc_def)

lemma req_ok_flag [simp]: "req_ok E (r\<lparr>rq_copyupFlag := f\<rparr>) = req_ok E r"
  by (simp add: req_ok_def)

lemma outcome_req_ok: "outcome_of E op = OAccepted r \<Longrightarrow> req_ok E r"
  using outcome_request(1) by (auto simp: req_ok_def)

lemma dispatch_hands:
  assumes "ms_dispatch hash E tss m (cy_sv s) = Inr (b, v)" "length (cy_gate s) = length (sv_queues (cy_sv s))"
  shows "handlers (s\<lparr>cy_sv := v\<rparr>) = handlers s \<and> sv_net v = sv_net (cy_sv s) \<and> sv_served v = sv_served (cy_sv s) \<and>
    length (sv_queues v) = length (sv_queues (cy_sv s)) \<and> (\<exists>es. sv_acc v = sv_acc (cy_sv s) @ es)"
proof (cases m)
  case (MOp op)
  let ?n = "length (sv_queues (cy_sv s))" and ?v = "(cy_sv s)\<lparr>dcount := dcount (cy_sv s) + 1\<rparr>" and ?e = "(op, fst tss, snd tss)"
  let ?i = "hash (mo_oid op) mod ?n" let ?q = "EnqueueClientop E ?e (sv_view ?i (cy_sv s))"
  have n: "?n \<noteq> 0" and v: "v = sv_put ?i ?q ?v"
    using assms(1) MOp by (auto simp: ms_dispatch_def queue_index_def Let_def split: if_splits)
  have i: "?i < ?n" using n by simp
  have q: "working (oq_hpc ?q) = working (cy_hpc s ?i)" "oq_served ?q = oq_served (sv_queues (cy_sv s) ! ?i)" "oq_net ?q = sv_net (cy_sv s)"
    by (cases tss; auto simp: EnqueueClientop_def enqueue_q)+
  have "handlers (s\<lparr>cy_sv := v\<rparr>) = (handlers s)[?i := (working (oq_hpc ?q), cy_gate s ! ?i)]"
    unfolding v using handlers_put [of ?i s ?q] i assms(2) by (simp add: handlers_def sv_put_def)
  also have "\<dots> = handlers s" using q(1) by (intro handlers_same [OF i assms(2)])
  finally show ?thesis using v q(2,3) by (simp add: sv_put_def)
qed (use assms in \<open>auto simp: ms_dispatch_def Let_def handlers_def\<close>)

lemma own_effect:
  assumes ok: "cy_ok hash E n s" and i: "i < n" and st: "own_step E (sv_view i (cy_sv s)) q"
  obtains (own_quiet) "handlers (after_own i q s) = handlers s" "sv_net (cy_sv (after_own i q s)) = sv_net (cy_sv s)"
      "sv_served (cy_sv (after_own i q s)) = sv_served (cy_sv s)" "cy_out (after_own i q s) = cy_out s"
  | (deals) e where "handlers s ! i = (None, GIdle)" "sv_served (cy_sv (after_own i q s)) = sv_served (cy_sv s) @ [e]"
      "cy_out (after_own i q s) = cy_out s"
      "case outcome_of E (fst e) of
         OFault f \<Rightarrow> False
       | OAccepted r \<Rightarrow> handlers (after_own i q s) = (handlers s)[i := (Some (False, r), GIdle)] \<and> sv_net (cy_sv (after_own i q s)) = sv_net (cy_sv s)
       | ORejected \<Rightarrow> handlers (after_own i q s) = handlers s \<and> sv_net (cy_sv (after_own i q s)) = reject E (fst e) (sv_net (cy_sv s))
       | OLost \<Rightarrow> handlers (after_own i q s) = handlers s \<and> sv_net (cy_sv (after_own i q s)) = sv_net (cy_sv s)"
  | (over) r f where "handlers s ! i = (Some (True, r), GIdle)" "handlers (after_own i q s) = (handlers s)[i := (None, GIdle)]"
      "sv_net (cy_sv (after_own i q s)) = sv_net (cy_sv s)" "sv_served (cy_sv (after_own i q s)) = sv_served (cy_sv s)"
      "cy_out (after_own i q s) = cy_out s @ [r\<lparr>rq_copyupFlag := f\<rparr>]"
proof -
  have l: "length (sv_queues (cy_sv s)) = n" "length (cy_gate s) = n" using ok by (auto simp: cy_ok_def)
  note D = cy_okD [OF ok i]
  have h: "handlers (after_own i q s) = (handlers s)[i := (working (oq_hpc q), cy_gate s ! i)]"
    using handlers_put [of i s q] i l by (simp add: after_own_def)
  have hp: "hpc_ok E (working (oq_hpc (sv_view i (cy_sv s))))" using D(1) by simp
  show thesis
  proof (rule own_step_cases [OF st D(3) hp])
    assume q: "Server_Cycle.own_quiet (sv_view i (cy_sv s)) q"
    show thesis
    proof (rule own_quiet)
      show "handlers (after_own i q s) = handlers s"
        unfolding h using q i l by (intro handlers_same) (simp_all add: own_quiet_def)
    qed (use q in \<open>simp_all add: own_quiet_def after_own_def sv_put_def\<close>)
  next
    fix op ts pts assume q: "Server_Cycle.deals E op ts pts (sv_view i (cy_sv s)) q"
    then have w: "working (cy_hpc s i) = None" by (simp add: deals_def)
    then have p: "cy_gate s ! i = GIdle" using D(2) by (simp add: idle_gate)
    show thesis
    proof (rule deals [of "(op, ts, pts)"])
      show "handlers s ! i = (None, GIdle)" using D(5) w p by simp
      have "(handlers s)[i := (None, GIdle)] = handlers s" using D(5) w p list_update_id [of "handlers s" i] by simp
      then show "case outcome_of E (fst (op, ts, pts)) of
         OFault f \<Rightarrow> False
       | OAccepted r \<Rightarrow> handlers (after_own i q s) = (handlers s)[i := (Some (False, r), GIdle)] \<and> sv_net (cy_sv (after_own i q s)) = sv_net (cy_sv s)
       | ORejected \<Rightarrow> handlers (after_own i q s) = handlers s \<and> sv_net (cy_sv (after_own i q s)) = reject E (fst (op, ts, pts)) (sv_net (cy_sv s))
       | OLost \<Rightarrow> handlers (after_own i q s) = handlers s \<and> sv_net (cy_sv (after_own i q s)) = sv_net (cy_sv s)"
        using q h p unfolding deals_def by (cases "outcome_of E op") (simp_all add: after_own_def sv_put_def)
    qed (use q in \<open>simp_all add: deals_def after_own_def sv_put_def\<close>)
  next
    fix r assume q: "hands_over r (sv_view i (cy_sv s)) q"
    then obtain f where f: "oq_submitted q = oq_submitted (sv_queues (cy_sv s) ! i) @ [r\<lparr>rq_copyupFlag := f\<rparr>]"
      by (auto simp: hands_over_def)
    have w: "working (cy_hpc s i) = Some (True, r)" using q by (simp add: hands_over_def)
    then have p: "cy_gate s ! i = GIdle" using D(2) by (simp add: idle_gate)
    show thesis
    proof (rule over [of r f])
      show "handlers s ! i = (Some (True, r), GIdle)" using D(5) w p by simp
    qed (use q h p f in \<open>simp_all add: hands_over_def after_own_def sv_put_def\<close>)
  qed
qed

lemma own_ok:
  assumes ok: "cy_ok hash E n s" and i: "i < n" and st: "own_step E (sv_view i (cy_sv s)) q"
  shows "cy_ok hash E n (after_own i q s)"
proof -
  let ?P = "\<lambda>x. hpc_ok E (fst x) \<and> gate_ok (fst x) (snd x)"
  have inv: "sv_inv hash E (cy_sv (after_own i q s))" "length (sv_queues (cy_sv (after_own i q s))) = n" "length (cy_gate (after_own i q s)) = n"
    using own_put_inv [OF ok i st] ok by (simp_all add: after_own_def cy_ok_def sv_put_def)
  have all: "list_all ?P (handlers s)" "list_all (req_ok E) (cy_out s)" using ok by (simp_all add: cy_ok_def)
  from ok i st have "list_all ?P (handlers (after_own i q s)) \<and> list_all (req_ok E) (cy_out (after_own i q s))"
  proof (cases rule: own_effect)
    case own_quiet
    then show ?thesis using all by simp
  next
    case (deals e)
    then show ?thesis using all
      by (cases "outcome_of E (fst e)") (auto intro!: list_all_upd simp: hpc_ok_def outcome_req_ok)
  next
    case (over r f)
    have "?P (handlers s ! i)" using all(1) i cy_okD(4) [OF ok i] by (simp add: list_all_length)
    then have "req_ok E r" using over(1) by (simp add: hpc_ok_def)
    then show ?thesis using over all by (auto intro!: list_all_upd simp: hpc_ok_def)
  qed
  with inv show ?thesis by (simp add: cy_ok_def)
qed

text \<open>The steps of a handler through the gates: what it has in hand is the same.\<close>

definition gate_frame :: "cyc \<Rightarrow> cyc \<Rightarrow> bool" where
  "gate_frame s s' \<longleftrightarrow> cy_out s' = cy_out s \<and> cy_done s' = cy_done s \<and> sv_served (cy_sv s') = sv_served (cy_sv s) \<and>
     nt_replies (sv_net (cy_sv s')) = nt_replies (sv_net (cy_sv s)) \<and> sv_acc (cy_sv s') = sv_acc (cy_sv s) \<and>
     length (cy_gate s') = length (cy_gate s) \<and> length (sv_queues (cy_sv s')) = length (sv_queues (cy_sv s))"

inductive through :: "queue_env \<Rightarrow> nat \<Rightarrow> nat \<Rightarrow> cyc \<Rightarrow> cyc \<Rightarrow> bool" for E n i s s' where
  same: "i < n \<Longrightarrow> handlers s ! i = (Some (b, r), p) \<Longrightarrow> handlers s' = (handlers s)[i := (Some (b', r), p')] \<Longrightarrow>
     gate_ok (Some (b', r)) p' \<Longrightarrow> taken b' r p' = taken b r p \<Longrightarrow> cy_counters s' = cy_counters s \<Longrightarrow> gate_frame s s' \<Longrightarrow> through E n i s s'"
| more: "i < n \<Longrightarrow> handlers s ! i = (Some (b, r), p) \<Longrightarrow> handlers s' = (handlers s)[i := (Some (b', r), p')] \<Longrightarrow>
     gate_ok (Some (b', r)) p' \<Longrightarrow> taken b' r p' = taken b r p @ [g] \<Longrightarrow> g \<notin> set (taken b r p) \<Longrightarrow>
     gate_take E r g (cy_counters s) = (cy_counters s', w) \<Longrightarrow> gate_frame s s' \<Longrightarrow> through E n i s s'"

lemma work_cases:
  assumes w: "cy_work E er s s'" and ok: "cy_ok hash E n s"
  obtains (own) i q where "i < n" "own_step E (sv_view i (cy_sv s)) q" "s' = after_own i q s"
  | (through) i where "through E n i s s'" "sv_inv hash E (cy_sv s')"
  | (answer) xs r ys ks m res where "cy_out s = xs @ r # ys" "osa_calls (e_codec E) er ks (ptrMosdop r) = Inr (Some m)"
      "s' = s\<lparr>cy_sv := (cy_sv s)\<lparr>sv_net := FinishCacheOps (saOpThrottle (e_qos E)) (e_module E) (Some m) (rq_optionType r)
         (rq_optionLength r) res (sv_net (cy_sv s))\<rparr>, cy_out := xs @ ys, cy_done := cy_done s @ [the (ptrMosdop r)]\<rparr>"
proof -
  have l: "length (sv_queues (cy_sv s)) = n" "length (cy_gate s) = n" "sv_inv hash E (cy_sv s)" using ok by (auto simp: cy_ok_def)
  from w show thesis
  proof cases
    case (own i q)
    then show thesis using that(1) l by simp
  next
    case (enter i r)
    show thesis
    proof (rule that(2) [of i])
      have "handlers s' = (handlers s)[i := (Some (False, r), GTake (gates_of r))]"
        using handlers_gate [of i s "GTake (gates_of r)"] enter by simp
      moreover have "handlers s ! i = (Some (False, r), GIdle)" using cy_okD(5) [OF ok, of i] enter l by simp
      moreover have "gate_ok (Some (False, r)) (GTake (gates_of r))" by simp
      ultimately show "through E n i s s'"
        using enter l by (intro same [where b = False and b' = False and r = r and p = GIdle and p' = "GTake (gates_of r)"]) (simp_all add: gate_frame_def cy_counters_def)
    qed (use enter l in simp)
  next
    case (take i r g gs q w)
    have ga: "gate_ok (Some (False, r)) (GTake (g # gs))" using cy_okD(2) [OF ok, of i] take l by simp
    then obtain ds where ds: "gates_of r = ds @ g # gs" by auto
    have dist: "g \<notin> set ds" using distinct_gates [of r] ds by simp
    let ?p = "if w = None then GWait g gs else GTake gs"
    have tk: "taken False r (GTake (g # gs)) = ds" "taken False r ?p = ds @ [g]" using ds by auto
    have hh: "handlers s' = (handlers s)[i := (Some (False, r), ?p)]"
      using handlers_gate [of i s ?p] take l by (simp add: handlers_def set_counters_def)
    show thesis
    proof (rule that(2) [of i])
      have "gate_ok (Some (False, r)) ?p" using ds by auto
      moreover have "gate_take E r g (cy_counters s) = (cy_counters s', w)" using take by (simp add: cy_counters_def set_counters_def)
      moreover have "handlers s ! i = (Some (False, r), GTake (g # gs))" using cy_okD(5) [OF ok, of i] take l by simp
      moreover have "gate_frame s s'" using take by (simp add: gate_frame_def set_counters_def)
      moreover have "i < n" using take l by simp
      moreover have "taken False r ?p = taken False r (GTake (g # gs)) @ [g]" "g \<notin> set (taken False r (GTake (g # gs)))"
        using tk dist by (simp_all del: taken.simps)
      ultimately show "through E n i s s'" using hh by (intro more)
    qed (use take l in \<open>simp add: set_counters_def\<close>)
  next
    case (sample i g gs)
    have ga: "gate_ok (working (cy_hpc s i)) (GWait g gs)" using cy_okD(2) [OF ok, of i] sample l by simp
    then obtain r ds where ds: "working (cy_hpc s i) = Some (False, r)" "gates_of r = ds @ g # gs" by auto
    show thesis
    proof (rule that(2) [of i])
      have "handlers s' = (handlers s)[i := (Some (False, r), GTake gs)]"
        using handlers_gate [of i s "GTake gs"] sample ds by simp
      moreover have "handlers s ! i = (Some (False, r), GWait g gs)" using cy_okD(5) [OF ok, of i] sample l ds by simp
      ultimately show "through E n i s s'"
        using sample l ds by (intro same [where b = False and b' = False and r = r and p = "GWait g gs" and p' = "GTake gs"]) (simp_all add: gate_frame_def cy_counters_def)
    qed (use sample l in simp)
  next
    case (pass i r)
    let ?q = "(sv_view i (cy_sv s))\<lparr>oq_hpc := HCopy r\<rparr>"
    let ?t = "s\<lparr>cy_sv := sv_put i ?q (cy_sv s)\<rparr>"
    have h1: "handlers ?t = (handlers s)[i := (Some (True, r), GTake [])]"
      using handlers_put [of i s ?q] pass l by simp
    have "cy_hpc ?t i = HCopy r" using pass l by (simp add: cy_hpc_def sv_put_def)
    then have "handlers s' = (handlers ?t)[i := (Some (True, r), GIdle)]"
      using handlers_gate [of i ?t GIdle] pass by (simp add: sv_put_def)
    then have h2: "handlers s' = (handlers s)[i := (Some (True, r), GIdle)]" using h1 by simp
    show thesis
    proof (rule that(2) [of i])
      have "handlers s ! i = (Some (False, r), GTake [])" using cy_okD(5) [OF ok, of i] pass l by simp
      with h2 show "through E n i s s'"
        using pass l by (intro same [where b = False and b' = True and r = r and p = "GTake []" and p' = GIdle]) (simp_all add: gate_frame_def cy_counters_def sv_put_def sv_view_def)
      show "sv_inv hash E (cy_sv s')" using pass l by (simp add: sv_put_hpc_inv cy_hpc_def)
    qed
  next
    case (answer xs r ys ks m res)
    then show thesis using that(3) by (simp add: OSA_FinishCacheOps_def u32_through_u64)
  qed
qed

lemma through_ok:
  assumes t: "through E n i s s'" and v: "sv_inv hash E (cy_sv s')" and ok: "cy_ok hash E n s"
  shows "cy_ok hash E n s'"
proof -
  let ?P = "\<lambda>x. hpc_ok E (fst x) \<and> gate_ok (fst x) (snd x)"
  obtain b b' r p p' where h: "handlers s ! i = (Some (b, r), p)" "handlers s' = (handlers s)[i := (Some (b', r), p')]"
      "gate_ok (Some (b', r)) p'" "i < n" "gate_frame s s'"
    using t by cases
  have all: "list_all ?P (handlers s)" using ok by (simp add: cy_ok_def)
  then have "?P (handlers s ! i)" using h(4) cy_okD(4) [OF ok h(4)] by (simp add: list_all_length)
  then have "hpc_ok E (Some (b', r))" using h(1) by (simp add: hpc_ok_def)
  then have "list_all ?P (handlers s')" unfolding h(2) using h(3) by (intro list_all_upd all) simp
  moreover have "cy_out s' = cy_out s" "length (cy_gate s') = length (cy_gate s)" "length (sv_queues (cy_sv s')) = length (sv_queues (cy_sv s))"
    using h(5) by (simp_all add: gate_frame_def)
  ultimately show ?thesis using ok v by (simp add: cy_ok_def)
qed

lemma work_ok:
  assumes "cy_work E er s s'" and ok: "cy_ok hash E n s"
  shows "cy_ok hash E n s'"
  using assms
proof (cases rule: work_cases)
  case (own i q)
  then show ?thesis using own_ok [OF ok] by simp
next
  case (through i)
  then show ?thesis using through_ok ok by blast
next
  case (answer xs r ys ks m res)
  then show ?thesis using ok by (simp add: cy_ok_def)
qed

lemma receive_ok:
  assumes "dispatch_ready hash m (cy_sv s)" "ms_dispatch hash E tss m (cy_sv s) = Inr (b, v)" "cy_ok hash E n s"
  shows "cy_ok hash E n (s\<lparr>cy_sv := v\<rparr>)"
  using dispatch_inv [OF assms(1,2)] dispatch_hands [OF assms(2)] assms(3) by (simp add: cy_ok_def)

subsection \<open>Messages and replies\<close>

lemma own_messages:
  assumes ok: "cy_ok hash E n s" and i: "i < n" and st: "own_step E (sv_view i (cy_sv s)) q"
    and m: "messages_ok E s"
  shows "messages_ok E (after_own i q s)"
proof -
  have l: "i < length (handlers s)" using cy_okD(4) [OF ok i] i by simp
  have d: "cy_done (after_own i q s) = cy_done s" by (simp add: after_own_def)
  from ok i st show ?thesis
  proof (cases rule: own_effect)
    case own_quiet
    then show ?thesis using m d by (simp add: messages_ok_def)
  next
    case (deals e)
    show ?thesis
    proof (cases "outcome_of E (fst e)")
      case (OAccepted r)
      then have "sum_list (map in_hand (handlers (after_own i q s))) = sum_list (map in_hand (handlers s)) + {#fst e#}"
        using deals update_hold(2) [OF l, of "(Some (False, r), GIdle)"] outcome_request(1) [OF OAccepted] by (simp add: in_hand_def)
      then show ?thesis using m d deals OAccepted by (simp add: messages_ok_def accepted_def)
    qed (use m d deals in \<open>simp_all add: messages_ok_def accepted_def\<close>)
  next
    case (over r f)
    have "sum_list (map in_hand (handlers s)) = sum_list (map in_hand (handlers (after_own i q s))) + {#the (ptrMosdop r)#}"
      using over update_hold(2) [OF l, of "(None, GIdle)"] by (simp add: in_hand_def)
    then show ?thesis using m d over by (simp add: messages_ok_def)
  qed
qed

lemma through_same:
  assumes t: "through E n i s s'" and ok: "cy_ok hash E n s"
  shows "sum_list (map in_hand (handlers s')) = sum_list (map in_hand (handlers s))" "gate_frame s s'"
proof -
  obtain b b' r p p' where h: "handlers s ! i = (Some (b, r), p)" "handlers s' = (handlers s)[i := (Some (b', r), p')]" "i < n" "gate_frame s s'"
    using t by cases
  show "gate_frame s s'" by (rule h(4))
  have "i < length (handlers s)" using cy_okD(4) [OF ok h(3)] h(3) by simp
  from update_hold(2) [OF this, of "(Some (b', r), p')"] h show "sum_list (map in_hand (handlers s')) = sum_list (map in_hand (handlers s))"
    by (simp add: in_hand_def)
qed

lemma answered_message:
  assumes "osa_calls c er ks (ptrMosdop r) = Inr (Some m)" "req_ok E r"
  shows "ident m = ident (the (ptrMosdop r))"
proof -
  obtain op where op: "ptrMosdop r = Some op" using assms(2) by (auto simp: req_ok_def)
  then have "osa_calls c er ks (Some op) = Inr (Some m)" using assms(1) by simp
  with osa_calls_fine [OF osa_calls_result [OF this]] have "m = op\<lparr>mo_ops := after_calls c er ks (mo_ops op)\<rparr>" by simp
  then show ?thesis using op by (simp add: ident_def)
qed

lemma own_replies:
  assumes ok: "cy_ok hash E n s" and i: "i < n" and st: "own_step E (sv_view i (cy_sv s)) q" and m: "replies_ok E s"
  shows "replies_ok E (after_own i q s)"
proof -
  have d: "cy_done (after_own i q s) = cy_done s" by (simp add: after_own_def)
  from ok i st show ?thesis
  proof (cases rule: own_effect)
    case (deals e)
    then show ?thesis using m d by (cases "outcome_of E (fst e)") (simp_all add: replies_ok_def reject_def)
  qed (use m d in \<open>simp_all add: replies_ok_def\<close>)
qed

lemma work_messages:
  assumes w: "cy_work E er s s'" and ok: "cy_ok hash E n s" and m: "messages_ok E s \<and> replies_ok E s"
  shows "messages_ok E s' \<and> replies_ok E s'"
  using w ok
proof (cases rule: work_cases)
  case (own i q)
  then show ?thesis using own_messages [OF ok] own_replies [OF ok] m by simp
next
  case (through i)
  show ?thesis
    using through_same [OF through(1) ok] m unfolding gate_frame_def messages_ok_def replies_ok_def by simp
next
  case (answer xs r ys ks m res)
  have "req_ok E r" using ok answer(1) by (simp add: cy_ok_def)
  with answer(2) have "ident m = ident (the (ptrMosdop r))" by (rule answered_message)
  then show ?thesis using assms(3) answer by (simp add: messages_ok_def replies_ok_def)
qed

subsection \<open>Counters\<close>

lemma counters_okD:
  assumes "counters_ok E s" "drift E g s = 0"
  shows "cnt g (cy_counters s) = of_nat (in_use E g s)"
proof -
  have "cnt g (cy_counters s) + of_nat (drift E g s) = of_nat (in_use E g s)" using assms(1) by (simp add: counters_ok_def)
  then show ?thesis by (simp add: assms(2))
qed

lemma gate_take_cnt:
  "gate_take E r g q = (q', w) \<Longrightarrow> cnt g' q' = cnt g' q + (if g' = g then of_nat (amount E r g) else 0)"
  by (cases g; cases g')
    (auto simp: gate_take_def amount_def GetlwtCas_def GetWritelwtCas_def GetWriteBWCas_def GetReadlwtCas_def GetReadBWCas_def split: if_splits)

lemma reject_cnt:
  "e_module E \<Longrightarrow> cnt g (nt_counters (reject E op n)) = cnt g (nt_counters n) - (if g = GOp \<and> saOpThrottle (e_qos E) \<noteq> 0 then 1 else 0)"
  by (cases g) (simp_all add: reject_def FinishCacheOps_def PutlwtCas_def Let_def)

text \<open>The guards of the \<open>Put...\<close> functions let everything through that has been taken.\<close>

definition can_put :: "SaOpReq \<Rightarrow> counters \<Rightarrow> bool" where
  "can_put r q \<longleftrightarrow> (rq_optionType r = GCACHE_WRITE \<longrightarrow> lwtWriteCount q \<noteq> 0 \<and> rq_optionLength r \<le> writeBW q) \<and>
     (rq_optionType r = GCACHE_READ \<longrightarrow> lwtReadCount q \<noteq> 0 \<and> rq_optionLength r \<le> readBW q)"

lemma finish_cnt:
  assumes "e_module E" "can_put r (nt_counters n)"
  shows "cnt g (nt_counters (FinishCacheOps (saOpThrottle (e_qos E)) (e_module E) (Some m) (rq_optionType r) (rq_optionLength r) res n)) =
    cnt g (nt_counters n) - of_nat (use E g r)"
  using assms
  by (cases g) (auto simp: FinishCacheOps_def PutlwtCas_def PutWritelwtCas_def PutWriteBWCas_def PutReadlwtCas_def PutReadBWCas_def
      can_put_def use_def amount_def gates_of_def Let_def)

lemma in_use_can_put:
  assumes c: "counters_ok E s" and r: "r \<in> set (cy_out s)" and b: "\<And>g. in_use E g s < 2 ^ 64"
  shows "can_put r (cy_counters s)"
proof -
  have u: "unat (cnt g (cy_counters s)) = in_use E g s" if "g \<noteq> GOp" for g
  proof -
    have "cnt g (cy_counters s) = of_nat (in_use E g s)" using that by (intro counters_okD [OF c]) (simp add: drift_def)
    then show ?thesis using b [of g] by (simp only: unat_of_nat_u64)
  qed
  have le: "use E g r \<le> in_use E g s" for g
    using r by (simp add: in_use_def member_le_sum_list trans_le_add2)
  show ?thesis
    using le [of GWriteOp] le [of GWriteBW] le [of GReadOp] le [of GReadBW] u [of GWriteOp] u [of GWriteBW] u [of GReadOp] u [of GReadBW]
    by (auto simp: can_put_def use_def amount_def gates_of_def word_le_nat_alt)
qed

lemma counters_ok_step:
  assumes "counters_ok E s"
    and "\<And>g. cnt g (cy_counters s') + of_nat (drift E g s') + of_nat (in_use E g s) =
      cnt g (cy_counters s) + of_nat (drift E g s) + of_nat (in_use E g s')"
  shows "counters_ok E s'"
proof -
  have "cnt g (cy_counters s) + of_nat (drift E g s) = of_nat (in_use E g s)" for g using assms(1) by (simp add: counters_ok_def)
  with assms(2) show ?thesis by (simp add: counters_ok_def add.commute)
qed

lemma own_counters:
  assumes ok: "cy_ok hash E n s" and i: "i < n" and st: "own_step E (sv_view i (cy_sv s)) q" and m: "e_module E" and c: "counters_ok E s"
  shows "counters_ok E (after_own i q s)"
proof -
  have l: "i < length (handlers s)" using cy_okD(4) [OF ok i] i by simp
  from ok i st show ?thesis
  proof (cases rule: own_effect)
    case own_quiet
    then have "in_use E g (after_own i q s) = in_use E g s" "drift E g (after_own i q s) = drift E g s" for g
      by (simp_all add: in_use_def drift_def rejects_def)
    with own_quiet show ?thesis by (intro counters_ok_step [OF c]) (simp add: cy_counters_def)
  next
    case (deals e)
    have u: "in_use E g (after_own i q s) = in_use E g s" for g
      using deals update_hold(1) [OF l, of E g "(Some (False, r), GIdle)" for r]
      by (cases "outcome_of E (fst e)") (simp_all add: in_use_def hold_def)
    show ?thesis
    proof (cases "outcome_of E (fst e) = ORejected")
      case True
      then have "drift E g (after_own i q s) = drift E g s + (if g = GOp \<and> saOpThrottle (e_qos E) \<noteq> 0 then 1 else 0)" for g
        using deals by (simp add: drift_def rejects_def)
      moreover have "cnt g (cy_counters (after_own i q s)) = cnt g (cy_counters s) - (if g = GOp \<and> saOpThrottle (e_qos E) \<noteq> 0 then 1 else 0)" for g
        using deals True reject_cnt [OF m] by (simp add: cy_counters_def)
      ultimately show ?thesis by (intro counters_ok_step [OF c]) (simp add: u)
    next
      case False
      then have "drift E g (after_own i q s) = drift E g s" for g using deals by (simp add: drift_def rejects_def)
      moreover have "cy_counters (after_own i q s) = cy_counters s"
        using deals False by (cases "outcome_of E (fst e)") (simp_all add: cy_counters_def)
      ultimately show ?thesis by (intro counters_ok_step [OF c]) (simp add: u)
    qed
  next
    case (over r f)
    have "hold E g (Some (True, r), GIdle) = use E g (r\<lparr>rq_copyupFlag := f\<rparr>)" for g
      unfolding use_flag by (simp add: hold_def use_def)
    then have "in_use E g (after_own i q s) = in_use E g s" for g
      using over update_hold(1) [OF l, of E g "(None, GIdle)"] by (simp add: in_use_def hold_def [of E g "(None, GIdle)"])
    moreover have "drift E g (after_own i q s) = drift E g s" for g using over by (simp add: drift_def rejects_def)
    ultimately show ?thesis using over by (intro counters_ok_step [OF c]) (simp add: cy_counters_def)
  qed
qed

lemma through_counters:
  assumes t: "through E n i s s'" and ok: "cy_ok hash E n s" and c: "counters_ok E s"
  shows "counters_ok E s'"
proof -
  have i: "i < n" using t by cases
  have l: "i < length (handlers s)" using cy_okD(4) [OF ok i] i by simp
  have f: "gate_frame s s'" using t by cases
  then have d: "drift E g s' = drift E g s" for g by (simp add: gate_frame_def drift_def rejects_def)
  from t show ?thesis
  proof cases
    case (same b r p b' p')
    have "in_use E g s' = in_use E g s" for g
      using same update_hold(1) [OF l, of E g "(Some (b', r), p')"] f by (simp add: in_use_def gate_frame_def hold_def)
    then show ?thesis using same by (intro counters_ok_step [OF c]) (simp add: d)
  next
    case (more b r p b' p' g w)
    have "hold E g' (Some (b', r), p') = hold E g' (handlers s ! i) + (if g' = g then amount E r g else 0)" for g'
      using more by (simp add: hold_def)
    then have "in_use E g' s' = in_use E g' s + (if g' = g then amount E r g else 0)" for g'
      using more update_hold(1) [OF l, of E g' "(Some (b', r), p')"] f by (simp add: in_use_def gate_frame_def)
    then show ?thesis
      using gate_take_cnt [OF more(7)] by (intro counters_ok_step [OF c]) (simp add: d)
  qed
qed

lemma work_counters:
  assumes w: "cy_work E er s s'" and ok: "cy_ok hash E n s" and m: "e_module E" and c: "counters_ok E s"
    and b: "\<And>g. in_use E g s < 2 ^ 64"
  shows "counters_ok E s'"
  using w ok
proof (cases rule: work_cases)
  case (own i q)
  then show ?thesis using own_counters [OF ok _ _ m c] by simp
next
  case (through i)
  then show ?thesis using through_counters ok c by blast
next
  case (answer xs r ys ks mm res)
  have "can_put r (cy_counters s)" using in_use_can_put [OF c _ b] answer(1) by simp
  then have p: "cnt g (cy_counters s') = cnt g (cy_counters s) - of_nat (use E g r)" for g
    using finish_cnt [OF m, of r "sv_net (cy_sv s)"] answer(3) by (simp add: cy_counters_def)
  have t: "in_use E g s = in_use E g s' + use E g r" for g using answer by (simp add: in_use_def handlers_def)
  have d: "drift E g s' = drift E g s" for g using answer by (simp add: drift_def rejects_def)
  show ?thesis by (rule counters_ok_step [OF c]) (simp add: p t d)
qed

subsection \<open>Reachable states\<close>

text \<open>The weight of a message in the counters.\<close>

definition weight :: "queue_env \<Rightarrow> MOSDOp \<Rightarrow> nat" where
  "weight E op = (case outcome_of E op of OAccepted r \<Rightarrow> max 1 (unat (rq_optionLength r)) | _ \<Rightarrow> 1)"

definition run_fits :: "queue_env \<Rightarrow> cyc \<Rightarrow> bool" where
  "run_fits E s \<longleftrightarrow> sum_list (map (weight E \<circ> fst) (sv_acc (cy_sv s))) < 2 ^ 64"

lemma amount_weight: "req_ok E r \<Longrightarrow> amount E r g \<le> weight E (the (ptrMosdop r))"
  by (cases g) (auto simp: req_ok_def amount_def weight_def)

lemma hold_weight: "hpc_ok E (fst x) \<Longrightarrow> hold E g x \<le> sum_mset (image_mset (weight E) (in_hand x))"
  using amount_weight by (auto simp: hold_def in_hand_def hpc_ok_def split: option.splits)

lemma weight_of_sum: "sum_mset (image_mset f (sum_list Ms)) = sum_list (map (\<lambda>M. sum_mset (image_mset f M)) Ms)"
  by (induction Ms) simp_all

lemma weight_subset: "A \<subseteq># B \<Longrightarrow> sum_mset (image_mset f A) \<le> (sum_mset (image_mset f B) :: nat)"
  by (auto simp: subset_mset.le_iff_add)

lemma in_use_weight:
  assumes "cy_ok hash E n s" "messages_ok E s"
  shows "in_use E g s \<le> sum_list (map (weight E \<circ> fst) (sv_served (cy_sv s)))"
proof -
  let ?w = "\<lambda>M. sum_mset (image_mset (weight E) M)"
  have h: "hpc_ok E (fst x)" if "x \<in> set (handlers s)" for x using assms(1) that by (auto simp: cy_ok_def list_all_iff)
  have o: "req_ok E r" if "r \<in> set (cy_out s)" for r using assms(1) that by (auto simp: cy_ok_def list_all_iff)
  have "sum_list (map (hold E g) (handlers s)) \<le> sum_list (map (\<lambda>x. ?w (in_hand x)) (handlers s))"
    using h hold_weight by (intro sum_list_mono) blast
  also have "\<dots> = ?w (sum_list (map in_hand (handlers s)))" by (simp add: weight_of_sum comp_def)
  finally have 1: "sum_list (map (hold E g) (handlers s)) \<le> ?w (sum_list (map in_hand (handlers s)))" .
  have "use E g r \<le> weight E (the (ptrMosdop r))" if "r \<in> set (cy_out s)" for r
    using amount_weight [OF o [OF that]] by (simp add: use_def)
  then have "sum_list (map (use E g) (cy_out s)) \<le> sum_list (map (\<lambda>r. weight E (the (ptrMosdop r))) (cy_out s))"
    by (rule sum_list_mono)
  then have 2: "sum_list (map (use E g) (cy_out s)) \<le> ?w (mset (map (the \<circ> ptrMosdop) (cy_out s)))"
    by (simp only: mset_map [symmetric] sum_mset_sum_list map_map comp_def)
  have "in_use E g s \<le> ?w (sum_list (map in_hand (handlers s)) + mset (map (the \<circ> ptrMosdop) (cy_out s)) + mset (cy_done s))"
    using 1 2 by (simp add: in_use_def)
  also have "\<dots> = ?w (mset (filter (accepted E) (map fst (sv_served (cy_sv s)))))" using assms(2) by (simp add: messages_ok_def)
  also have "\<dots> \<le> ?w (mset (map fst (sv_served (cy_sv s))))"
    by (intro weight_subset) (simp add: mset_filter)
  finally show ?thesis by (simp only: mset_map [symmetric] sum_mset_sum_list map_map)
qed

text \<open>What was accepted has been dealt with or is waiting in its queue.\<close>

lemma sum_list_single:
  assumes "i < length xs" "\<And>j. j < length xs \<Longrightarrow> j \<noteq> i \<Longrightarrow> f (xs ! j) = (0 :: nat)"
  shows "sum_list (map f xs) = f (xs ! i)"
proof -
  have "sum_list (map f xs) = (\<Sum>j \<in> {0..<length xs}. f (xs ! j))" by (simp add: sum_list_sum_nth)
  also have "\<dots> = f (xs ! i) + (\<Sum>j \<in> {0..<length xs} - {i}. f (xs ! j))" using assms(1) by (intro sum.remove) simp_all
  also have "(\<Sum>j \<in> {0..<length xs} - {i}. f (xs ! j)) = 0" using assms(2) by simp
  finally show ?thesis by simp
qed

lemma count_concat: "count (mset (concat xss)) e = sum_list (map (\<lambda>xs. count (mset xs) e) xss)"
  by (induction xss) simp_all

lemma routed_parts:
  assumes n: "0 < length qs" and parts: "\<And>j. j < length qs \<Longrightarrow> filter (routed hash (length qs) j) xs = f (qs ! j)"
  shows "mset xs = mset (concat (map f qs))"
proof (rule multiset_eqI)
  fix e :: entry
  let ?n = "length qs" let ?i = "hash (mo_oid (fst e)) mod ?n"
  have i: "?i < ?n" using n by simp
  have "count (mset (f (qs ! j))) e = 0" if "j < ?n" "j \<noteq> ?i" for j
    using that by (auto simp: parts [symmetric] routed_def count_eq_zero_iff)
  then have "sum_list (map (\<lambda>q. count (mset (f q)) e) qs) = count (mset (f (qs ! ?i))) e" by (rule sum_list_single [OF i])
  also have "\<dots> = count (mset xs) e" by (simp add: parts [OF i, symmetric] mset_filter routed_def)
  finally show "count (mset xs) e = count (mset (concat (map f qs))) e" unfolding count_concat map_map comp_def by simp
qed

lemma mset_concat_append: "mset (concat (map (\<lambda>x. f x @ g x) xs)) = mset (concat (map f xs)) + mset (concat (map g xs))"
  by (induction xs) (simp_all add: ac_simps)

lemma histories_split:
  assumes inv: "sv_inv hash E v" and n: "0 < length (sv_queues v)"
  shows "mset (sv_acc v) = mset (concat (map oq_acc (sv_queues v)))"
    and "mset (sv_acc v) = mset (sv_served v) + mset (concat (map oq_pending (sv_queues v)))"
proof -
  have ok: "queue_ok hash E (length (sv_queues v)) (sv_acc v) (sv_served v) j (sv_queues v ! j)" if "j < length (sv_queues v)" for j
    using inv that by (simp add: sv_inv_def)
  show a: "mset (sv_acc v) = mset (concat (map oq_acc (sv_queues v)))"
    by (rule routed_parts [OF n, where hash = hash]) (use ok in \<open>unfold queue_ok_def, blast\<close>)
  have b: "mset (sv_served v) = mset (concat (map oq_served (sv_queues v)))"
    by (rule routed_parts [OF n, where hash = hash]) (use ok in \<open>unfold queue_ok_def, blast\<close>)
  have "oq_acc q = oq_served q @ oq_pending q" if q: "q \<in> set (sv_queues v)" for q
  proof -
    obtain j where "j < length (sv_queues v)" "sv_queues v ! j = q" using q by (auto simp: in_set_conv_nth)
    with ok show ?thesis unfolding queue_ok_def by blast
  qed
  then have e: "map oq_acc (sv_queues v) = map (\<lambda>q. oq_served q @ oq_pending q) (sv_queues v)" by simp
  then show "mset (sv_acc v) = mset (sv_served v) + mset (concat (map oq_pending (sv_queues v)))"
    using mset_concat_append [of oq_served oq_pending "sv_queues v"] by (simp only: a b e)
qed

definition served_ok :: "queue_env \<Rightarrow> cyc \<Rightarrow> bool" where
  "served_ok E s \<longleftrightarrow> list_all (\<lambda>e. \<forall>f. outcome_of E (fst e) \<noteq> OFault f) (sv_served (cy_sv s))"

lemma work_served:
  assumes "cy_work E er s s'" and ok: "cy_ok hash E n s" and m: "served_ok E s"
  shows "served_ok E s' \<and> (\<exists>es. sv_acc (cy_sv s') = sv_acc (cy_sv s) @ es)"
  using assms(1) ok
proof (cases rule: work_cases)
  case (own i q)
  have "served_ok E s'" using ok own(1,2)
  proof (cases rule: own_effect)
    case (deals e)
    then show ?thesis using own(3) m by (cases "outcome_of E (fst e)") (simp_all add: served_ok_def)
  qed (use own(3) m in \<open>simp_all add: served_ok_def\<close>)
  then show ?thesis using own(3) by (simp add: after_own_def sv_put_def)
next
  case (through i)
  then show ?thesis using through_same(2) [OF through(1) ok] m by (simp add: gate_frame_def served_ok_def)
next
  case (answer xs r ys ks mm res)
  then show ?thesis using m by (simp add: served_ok_def)
qed

definition cy_inv :: "(string \<Rightarrow> nat) \<Rightarrow> queue_env \<Rightarrow> nat \<Rightarrow> cyc \<Rightarrow> bool" where
  "cy_inv hash E n s \<longleftrightarrow> cy_ok hash E n s \<and> messages_ok E s \<and> replies_ok E s \<and> served_ok E s \<and> (run_fits E s \<longrightarrow> counters_ok E s)"

lemma run_fits_mono: "sv_acc (cy_sv s') = sv_acc (cy_sv s) @ es \<Longrightarrow> run_fits E s' \<Longrightarrow> run_fits E s"
  by (simp add: run_fits_def)

lemma in_use_fits:
  assumes "cy_ok hash E n s" "messages_ok E s" "run_fits E s" "0 < n"
  shows "in_use E g s < 2 ^ 64"
proof -
  have "mset (sv_served (cy_sv s)) \<subseteq># mset (sv_acc (cy_sv s))"
    using histories_split(2) [of hash E "cy_sv s"] assms(1,4) by (auto simp: cy_ok_def)
  from weight_subset [OF this, of "weight E \<circ> fst"]
  have "sum_list (map (weight E \<circ> fst) (sv_served (cy_sv s))) \<le> sum_list (map (weight E \<circ> fst) (sv_acc (cy_sv s)))"
    by (simp only: mset_map [symmetric] sum_mset_sum_list)
  then show ?thesis using in_use_weight [OF assms(1,2), of g] assms(3) by (simp add: run_fits_def)
qed

lemma cy_inv_start: "cy_inv hash E n (cy_start n)"
proof -
  have h: "handlers (cy_start n) = replicate n (None, GIdle)"
    by (simp add: handlers_def cy_start_def sv_start_def new_op_queue_def zip_replicate)
  have u: "in_use E g (cy_start n) = 0" for g
    by (simp add: in_use_def h hold_def sum_list_replicate) (simp add: cy_start_def)
  have "sum_list (map in_hand (handlers (cy_start n))) = {#}" by (simp add: h in_hand_def sum_list_replicate) (induction n, simp_all)
  moreover have "cnt g (cy_counters (cy_start n)) = 0" for g
    by (cases g) (simp_all add: cy_counters_def cy_start_def sv_start_def idle_net_def)
  ultimately show ?thesis
    using sv_start_inv [of hash E n idle_net] u
    by (simp add: cy_inv_def cy_ok_def h list_all_iff hpc_ok_def messages_ok_def replies_ok_def served_ok_def counters_ok_def drift_def rejects_def)
      (simp add: cy_start_def sv_start_def idle_net_def)
qed

lemma cy_inv_step:
  assumes "cy_step hash E er s s'" "cy_inv hash E n s" "0 < n" "e_module E"
  shows "cy_inv hash E n s'"
  using assms(1)
proof cases
  case (receive m tss b v)
  have ok: "cy_ok hash E n s" using assms(2) by (simp add: cy_inv_def)
  have d: "handlers s' = handlers s" "sv_net (cy_sv s') = sv_net (cy_sv s)" "sv_served (cy_sv s') = sv_served (cy_sv s)"
      "cy_out s' = cy_out s" "cy_done s' = cy_done s" and a: "\<exists>es. sv_acc (cy_sv s') = sv_acc (cy_sv s) @ es"
    using dispatch_hands [OF receive(3)] ok receive(1) by (auto simp: cy_ok_def)
  have f: "run_fits E s' \<Longrightarrow> run_fits E s" using a run_fits_mono by blast
  have "cy_ok hash E n s'" using receive_ok [OF receive(2,3) ok] receive(1) by simp
  moreover have "in_use E g s' = in_use E g s" "drift E g s' = drift E g s" for g by (simp_all add: in_use_def drift_def rejects_def d)
  then have "counters_ok E s \<Longrightarrow> counters_ok E s'" using counters_ok_step [of E s s'] by (simp add: cy_counters_def d)
  moreover have "messages_ok E s' = messages_ok E s" "replies_ok E s' = replies_ok E s" "served_ok E s' = served_ok E s"
    by (simp_all add: messages_ok_def replies_ok_def served_ok_def d)
  ultimately show ?thesis using assms(2) f by (simp add: cy_inv_def)
next
  case work
  have ok: "cy_ok hash E n s" and m: "messages_ok E s" "replies_ok E s" "served_ok E s" and c: "run_fits E s \<Longrightarrow> counters_ok E s"
    using assms(2) by (auto simp: cy_inv_def)
  obtain es where "sv_acc (cy_sv s') = sv_acc (cy_sv s) @ es" "served_ok E s'" using work_served [OF work ok m(3)] by blast
  then have f: "run_fits E s' \<Longrightarrow> run_fits E s" using run_fits_mono by blast
  then have "run_fits E s' \<Longrightarrow> counters_ok E s'"
    using work_counters [OF work ok assms(4) c] in_use_fits [OF ok m(1) _ assms(3)] by blast
  then show ?thesis using work_ok [OF work ok] work_messages [OF work ok] m \<open>served_ok E s'\<close> by (simp add: cy_inv_def)
qed

lemma cy_reach_inv:
  assumes "(cy_step hash E er)\<^sup>*\<^sup>* (cy_start n) s" "0 < n" "e_module E"
  shows "cy_inv hash E n s"
  using assms(1) by (induction rule: rtranclp_induct) (auto intro: cy_inv_start cy_inv_step assms(2,3))

subsection \<open>The order of a queue\<close>

text \<open>What a queue has handed to the cache and what its handler carries, in the order in which it was dealt with.\<close>

definition carried :: "hpc \<Rightarrow> MOSDOp list" where
  "carried h = (case working h of None \<Rightarrow> [] | Some (b, r) \<Rightarrow> [the (ptrMosdop r)])"

definition order_ok :: "queue_env \<Rightarrow> op_queue \<Rightarrow> bool" where
  "order_ok E q \<longleftrightarrow> map (the \<circ> ptrMosdop) (oq_submitted q) @ carried (oq_hpc q) = filter (accepted E) (map fst (oq_served q))"

lemma own_order:
  assumes "own_step E q q'" "oq_inv E q" "hpc_ok E (working (oq_hpc q))" "order_ok E q"
  shows "order_ok E q'"
  using assms(1-3)
proof (cases rule: own_step_cases)
  case own_quiet
  then show ?thesis using assms(4) by (simp add: order_ok_def own_quiet_def carried_def)
next
  case (deals op ts pts)
  then show ?thesis
    using assms(4) outcome_request(1)
    by (cases "outcome_of E op") (auto simp: order_ok_def deals_def carried_def accepted_def)
next
  case (hands_over r)
  then show ?thesis using assms(4) by (auto simp: order_ok_def hands_over_def carried_def)
qed

lemma view_order [simp]: "order_ok E (sv_view i v) = order_ok E (sv_queues v ! i)"
  by (simp add: order_ok_def sv_view_def)

lemma receive_order:
  assumes "ms_dispatch hash E tss m v = Inr (b, v')" "list_all (order_ok E) (sv_queues v)"
  shows "list_all (order_ok E) (sv_queues v')"
proof (cases m)
  case (MOp op)
  let ?i = "hash (mo_oid op) mod length (sv_queues v)" let ?q = "EnqueueClientop E (op, fst tss, snd tss) (sv_view ?i v)"
  have n: "length (sv_queues v) \<noteq> 0" and v: "sv_queues v' = (sv_queues v)[?i := ?q]"
    using assms(1) MOp by (auto simp: ms_dispatch_def queue_index_def Let_def sv_put_def split: if_splits)
  have "?i < length (sv_queues v)" using n by simp
  then have "order_ok E (sv_queues v ! ?i)" using assms(2) by (simp add: list_all_length)
  moreover have "order_ok E ?q = order_ok E (sv_view ?i v)"
    by (cases tss) (auto simp: order_ok_def EnqueueClientop_def enqueue_q carried_def sv_view_def)
  ultimately show ?thesis unfolding v using assms(2) by (intro list_all_upd) simp_all
qed (use assms in \<open>auto simp: ms_dispatch_def Let_def\<close>)

lemma work_order:
  assumes "cy_work E er s s'" and ok: "cy_ok hash E n s" and o: "list_all (order_ok E) (sv_queues (cy_sv s))"
  shows "list_all (order_ok E) (sv_queues (cy_sv s'))"
  using assms(1)
proof cases
  case (own i q)
  have i: "i < n" using own ok by (simp add: cy_ok_def)
  have "order_ok E (sv_view i (cy_sv s))" using o own by (simp add: list_all_length)
  then have "order_ok E q" using own_order [OF own(3) cy_okD(3) [OF ok i]] cy_okD(1) [OF ok i] by simp
  then show ?thesis using own o by (auto simp: after_own_def sv_put_def intro!: list_all_upd)
next
  case (pass i r)
  have "order_ok E (sv_queues (cy_sv s) ! i)" using o pass by (simp add: list_all_length)
  then have "order_ok E ((sv_view i (cy_sv s))\<lparr>oq_hpc := HCopy r\<rparr>)"
    using pass(3) by (simp add: order_ok_def sv_view_def carried_def cy_hpc_def)
  then show ?thesis using pass o by (auto simp: sv_put_def intro!: list_all_upd)
qed (use o in \<open>simp_all add: set_counters_def\<close>)

lemma cy_reach_order:
  assumes "(cy_step hash E er)\<^sup>*\<^sup>* (cy_start n) s" "0 < n" "e_module E"
  shows "list_all (order_ok E) (sv_queues (cy_sv s))"
  using assms(1)
proof (induction rule: rtranclp_induct)
  case base
  then show ?case by (simp add: list_all_iff cy_start_def sv_start_def new_op_queue_def order_ok_def carried_def)
next
  case (step y z)
  have "cy_ok hash E n y" using cy_reach_inv [OF step.hyps(1) assms(2,3)] by (simp add: cy_inv_def)
  with step show ?case using receive_order work_order by (auto elim!: cy_step.cases)
qed

subsection \<open>All messages\<close>

text \<open>Messages that a handler or the cache has at the moment, and those that were dropped.\<close>

definition in_service :: "cyc \<Rightarrow> MOSDOp multiset" where
  "in_service s = sum_list (map in_hand (handlers s)) + mset (map (the \<circ> ptrMosdop) (cy_out s))"

definition dropped :: "queue_env \<Rightarrow> cyc \<Rightarrow> MOSDOp list" where
  "dropped E s = filter (\<lambda>op. outcome_of E op = OLost) (map fst (sv_served (cy_sv s)))"

lemma outcome_parts:
  assumes "list_all (\<lambda>op. \<forall>f. outcome_of E op \<noteq> OFault f) ops"
  shows "mset ops = mset (filter (accepted E) ops) + mset (filter (\<lambda>op. outcome_of E op = ORejected) ops) + mset (filter (\<lambda>op. outcome_of E op = OLost) ops)"
  using assms
proof (induction ops)
  case (Cons op ops)
  then show ?case by (cases "outcome_of E op") (simp_all add: accepted_def)
qed simp

lemma all_messages:
  assumes inv: "cy_inv hash E n s" and n: "0 < n"
  shows "image_mset (ident \<circ> fst) (mset (sv_acc (cy_sv s))) =
    image_mset (ident \<circ> fst) (mset (nt_replies (sv_net (cy_sv s)))) + image_mset ident (in_service s) +
    image_mset (ident \<circ> fst) (mset (concat (map oq_pending (sv_queues (cy_sv s))))) + image_mset ident (mset (dropped E s))"
proof -
  let ?ops = "map fst (sv_served (cy_sv s))"
  have split: "mset (sv_acc (cy_sv s)) = mset (sv_served (cy_sv s)) + mset (concat (map oq_pending (sv_queues (cy_sv s))))"
    using inv n by (intro histories_split) (auto simp: cy_inv_def cy_ok_def)
  have m: "mset (filter (accepted E) ?ops) = in_service s + mset (cy_done s)"
    using inv by (simp add: cy_inv_def messages_ok_def in_service_def)
  have r: "image_mset (ident \<circ> fst) (mset (nt_replies (sv_net (cy_sv s)))) =
      image_mset ident (mset (cy_done s)) + image_mset ident (mset (filter (\<lambda>op. outcome_of E op = ORejected) ?ops))"
    using inv by (simp add: cy_inv_def replies_ok_def filter_map comp_def multiset.map_comp)
  have "list_all (\<lambda>op. \<forall>f. outcome_of E op \<noteq> OFault f) ?ops" using inv by (simp add: cy_inv_def served_ok_def list_all_iff)
  from outcome_parts [OF this] have "image_mset ident (mset ?ops) =
      image_mset ident (in_service s) + image_mset (ident \<circ> fst) (mset (nt_replies (sv_net (cy_sv s)))) + image_mset ident (mset (dropped E s))"
    unfolding r dropped_def using m by (metis (no_types, lifting) add.assoc add.commute image_mset_union)
  then show ?thesis unfolding split by (simp add: multiset.map_comp ac_simps)
qed

end
