(* ===== verification/Server_Live.thy ===== *)
theory Server_Live
  imports Server_Cycle
begin

text \<open>
  Properties of the whole server of \<open>Server_Cycle\<close>: every message is answered once, the counters are exact, the cache gets the operations on an object in order,
  a server with suitable limits can always finish its work, and malformed names can bring it to a standstill.

  For draining, \<open>crank\<close> is the work that is left: while it is positive there is a step that decreases it.
\<close>

section \<open>Draining\<close>

definition calm :: "op_queue \<Rightarrow> bool" where
  "calm q \<longleftrightarrow> \<not> finishThread q \<and> oq_hpc q \<noteq> HDone \<and> (\<forall>f. oq_hpc q \<noteq> HCrashed f)"

definition all_arrived :: "cyc \<Rightarrow> entry multiset" where
  "all_arrived s = sum_list (map arrived (sv_queues (cy_sv s)))"

text \<open>Limits that the handlers alone cannot exceed.\<close>

definition roomy :: "queue_env \<Rightarrow> nat \<Rightarrow> bool" where
  "roomy E n \<longleftrightarrow> (saOpThrottle (e_qos E) = 0 \<or> n \<le> unat (saOpThrottle (e_qos E))) \<and>
     (writeOpThrottle (e_limits E) = 0 \<or> n \<le> unat (writeOpThrottle (e_limits E))) \<and> writeBWThrottle (e_limits E) = 0 \<and>
     (readOpThrottle (e_limits E) = 0 \<or> n \<le> unat (readOpThrottle (e_limits E))) \<and> readBWThrottle (e_limits E) = 0"

definition live :: "(string \<Rightarrow> nat) \<Rightarrow> queue_env \<Rightarrow> nat \<Rightarrow> cyc \<Rightarrow> bool" where
  "live hash E n s \<longleftrightarrow> cy_inv hash E n s \<and> list_all calm (sv_queues (cy_sv s)) \<and> (\<forall>e \<in># all_arrived s. accepted E (fst e)) \<and>
     sum_mset (image_mset (weight E \<circ> fst) (all_arrived s)) < 2 ^ 64"

text \<open>The work that is left, an upper bound on the number of steps.\<close>

fun hrank :: "hpc \<Rightarrow> gate_pc \<Rightarrow> nat" where
  "hrank HRelock p = 3"
| "hrank HWoken p = 3"
| "hrank HTest p = 2"
| "hrank HBody p = 1"
| "hrank HWait p = 0"
| "hrank HDeal p = 4"
| "hrank (HAdmit r) GIdle = 20"
| "hrank (HAdmit r) (GTake gs) = 8 + 2 * length gs"
| "hrank (HAdmit r) (GWait g gs) = 9 + 2 * length gs"
| "hrank (HCopy r) p = 7"
| "hrank HDone p = 0"
| "hrank (HCrashed f) p = 0"

definition qsize :: "op_queue \<Rightarrow> nat" where
  "qsize q = 60 * length (cap_wait q) + 55 * length (cap_woken q) + 40 * length (reqQueue (oq_q q)) + 30 * length (dealQueue q) +
     (if copyupFlag q then 1 else 0)"

definition qrank :: "op_queue \<times> gate_pc \<Rightarrow> nat" where
  "qrank x = qsize (fst x) + hrank (oq_hpc (fst x)) (snd x)"

definition crank :: "cyc \<Rightarrow> nat" where
  "crank s = sum_list (map qrank (zip (sv_queues (cy_sv s)) (cy_gate s))) + length (cy_out s)"

text \<open>A queue with work left whose handler is not at a gate makes progress.\<close>

lemma own_progress:
  assumes inv: "oq_inv E q" and calm: "calm q" and acc: "\<And>e. e \<in> set (oq_pending q) \<Longrightarrow> accepted E (fst e)"
    and h: "\<And>r. oq_hpc q \<noteq> HAdmit r" and w: "0 < qrank (q, GIdle)"
  shows "\<exists>q'. own_step E q q' \<and> calm q' \<and> qrank (q', GIdle) + length (oq_submitted q') < qrank (q, GIdle) + length (oq_submitted q)"
proof -
  have own: "own_step E q q'" if "oq_step E q q'" "arrived q' = arrived q" "oq_net q' = oq_net q" for q'
    using that by (simp add: own_step_def oq_any_def)
  show ?thesis
  proof (cases "oq_hpc q")
    case HRelock
    then have "own_step E q (q\<lparr>oq_hpc := HTest\<rparr>)" by (intro own lock) (simp_all add: arrived_def)
    then show ?thesis using HRelock calm by (intro exI conjI) (auto simp: calm_def qrank_def qsize_def)
  next
    case HWoken
    then have "own_step E q (q\<lparr>oq_hpc := HTest\<rparr>)" by (intro own lock) (simp_all add: arrived_def)
    then show ?thesis using HWoken calm by (intro exI conjI) (auto simp: calm_def qrank_def qsize_def)
  next
    case HTest
    then have "own_step E q (q\<lparr>oq_hpc := (if finishThread q then HDone else HBody)\<rparr>)" by (intro own test) (simp_all add: arrived_def)
    then show ?thesis using HTest calm by (intro exI conjI) (auto simp: calm_def qrank_def qsize_def)
  next
    case HBody
    have "dealQueue q = []" using inv HBody by (simp add: oq_inv_def)
    moreover have "own_step E q (handler_body q)"
      using HBody by (intro own body) (simp_all add: arrived_def handler_body_def)
    ultimately show ?thesis using HBody calm
      by (intro exI [of _ "handler_body q"] conjI; cases "reqQueue (oq_q q)")
        (simp_all add: calm_def qrank_def qsize_def handler_body_def Empty_def)
  next
    case HWait
    have e: "reqQueue (oq_q q) = []" "dealQueue q = []" "cap_wait q = []" using inv HWait by (auto simp: oq_inv_def)
    show ?thesis
    proof (cases "cap_woken q")
      case Nil
      then have c: "copyupFlag q" using w e HWait by (simp add: qrank_def qsize_def split: if_splits)
      then have "own_step E q (q\<lparr>copyupFlag := False\<rparr>)" by (intro own copy_end) (simp_all add: arrived_def)
      then show ?thesis using HWait calm c by (intro exI conjI) (auto simp: calm_def qrank_def qsize_def)
    next
      case (Cons a es)
      let ?q = "enqueue a (q\<lparr>cap_woken := es\<rparr>)"
      have "own_step E q ?q"
        using HWait Cons by (intro own recv_woken) (simp_all add: lock_free_def enqueue_arrived enqueue_q, simp add: arrived_def)
      moreover have "calm ?q" using calm HWait by (cases a) (simp add: calm_def enqueue_q)
      moreover have "qrank (?q, GIdle) + length (oq_submitted ?q) < qrank (q, GIdle) + length (oq_submitted q)"
        using HWait Cons e by (cases a) (simp add: qrank_def qsize_def enqueue_q EnQueue_def)
      ultimately show ?thesis by blast
    qed
  next
    case HDeal
    show ?thesis
    proof (cases "dealQueue q")
      case Nil
      then have "own_step E q (q\<lparr>oq_hpc := HRelock\<rparr>)" using HDeal by (intro own deal_end) (simp_all add: arrived_def)
      then show ?thesis using HDeal calm by (intro exI conjI) (auto simp: calm_def qrank_def qsize_def)
    next
      case (Cons op dq)
      then obtain ts dts pts pq where t: "dealTs q = ts # dts" "periodTs q = pts # pq"
        using inv by (cases "dealTs q"; cases "periodTs q") (auto simp: oq_inv_def)
      have "(op, ts, pts) \<in> set (oq_pending q)" using Cons t by (simp add: oq_pending_def entries3_def)
      then obtain r where r: "outcome_of E op = OAccepted r" using acc by (force simp: accepted_def)
      let ?q = "q\<lparr>dealQueue := dq, dealTs := dts, periodTs := pq, oq_served := oq_served q @ [(op, ts, pts)], oq_hpc := HAdmit r\<rparr>"
      have d: "deal_one E q = ?q"
        using Process_outcome [of E op dq pts pq "oq_net q"] Cons t r by (simp add: deal_one_def)
      have "own_step E q ?q" using HDeal Cons deal [of q E] unfolding d by (intro own) (simp_all add: arrived_def)
      then show ?thesis using HDeal calm Cons by (intro exI conjI) (auto simp: calm_def qrank_def qsize_def)
    qed
  next
    case (HCopy r)
    show ?thesis
    proof (cases "copyupFlag q")
      case True
      then have "own_step E q (q\<lparr>copyupFlag := False\<rparr>)" by (intro own copy_end) (simp_all add: arrived_def)
      then show ?thesis using HCopy calm True by (intro exI conjI) (auto simp: calm_def qrank_def qsize_def)
    next
      case False
      then have "own_step E q (submit r q)" using HCopy by (intro own do_ops) (simp_all add: arrived_def submit_def)
      then show ?thesis using HCopy calm False
        by (intro exI [of _ "submit r q"] conjI; cases "exitsCopyUp r = 1") (simp_all add: calm_def qrank_def qsize_def submit_def)
    qed
  qed (use calm h in \<open>auto simp: calm_def\<close>)
qed

subsection \<open>The whole server\<close>

lemma all_arrived_update:
  assumes "i < length (sv_queues v)" "arrived q = arrived (sv_queues v ! i)"
  shows "sum_list (map arrived ((sv_queues v)[i := q])) = sum_list (map arrived (sv_queues v))"
  using sum_list_update_add [OF assms(1), of arrived q] assms(2) by simp

lemma arrived_subset:
  assumes "cy_inv hash E n s" "0 < n"
  shows "mset (sv_acc (cy_sv s)) \<subseteq># all_arrived s"
proof -
  have "mset (concat (map oq_acc qs)) \<subseteq># sum_list (map arrived qs)" for qs
  proof (induction qs)
    case (Cons q qs)
    have "mset (oq_acc q) \<subseteq># arrived q" by (simp add: arrived_def)
    with Cons show ?case by (simp add: mset_subset_eq_mono_add)
  qed simp
  then show ?thesis using histories_split(1) [of hash E "cy_sv s"] assms by (auto simp: cy_inv_def cy_ok_def all_arrived_def)
qed

lemma live_fits:
  assumes l: "live hash E n s" and n: "0 < n"
  shows "run_fits E s" "rejects E s = 0" "dropped E s = []" "\<And>i e. i < n \<Longrightarrow> e \<in> set (oq_pending (sv_queues (cy_sv s) ! i)) \<Longrightarrow> accepted E (fst e)"
proof -
  have inv: "cy_inv hash E n s" using l by (simp add: live_def)
  note sub = arrived_subset [OF inv n]
  show "run_fits E s"
    using weight_subset [OF sub, of "weight E \<circ> fst"] l
    by (simp only: live_def run_fits_def mset_map [symmetric] sum_mset_sum_list) linarith
  have parts: "mset (sv_acc (cy_sv s)) = mset (sv_served (cy_sv s)) + mset (concat (map oq_pending (sv_queues (cy_sv s))))"
    using inv n by (intro histories_split) (auto simp: cy_inv_def cy_ok_def)
  have acc: "accepted E (fst e)" if "e \<in># mset (sv_acc (cy_sv s))" for e
    using l mset_subset_eqD [OF sub that] by (simp add: live_def)
  have served: "accepted E (fst e)" if "e \<in> set (sv_served (cy_sv s))" for e using acc [of e] that unfolding parts by simp
  have "outcome_of E (fst e) \<noteq> ORejected" "outcome_of E (fst e) \<noteq> OLost" if "e \<in> set (sv_served (cy_sv s))" for e
    using served [OF that] by (auto simp: accepted_def)
  then show "rejects E s = 0" "dropped E s = []" by (simp_all add: rejects_def dropped_def filter_empty_conv)
  fix i e assume "i < n" "e \<in> set (oq_pending (sv_queues (cy_sv s) ! i))"
  moreover have "length (sv_queues (cy_sv s)) = n" using inv by (simp add: cy_inv_def cy_ok_def)
  ultimately have "e \<in> set (concat (map oq_pending (sv_queues (cy_sv s))))" by force
  then show "accepted E (fst e)" using acc [of e] unfolding parts by simp
qed

lemma gates_open:
  assumes l: "live hash E n s" and n: "0 < n" and ro: "roomy E n" and out: "cy_out s = []" and g: "g \<noteq> GWriteBW" "g \<noteq> GReadBW"
  shows "unat (cnt g (cy_counters s)) \<le> n"
proof -
  have inv: "cy_inv hash E n s" using l by (simp add: live_def)
  have ok: "cy_ok hash E n s" and c: "counters_ok E s" using inv live_fits(1) [OF l n] by (auto simp: cy_inv_def)
  have "hold E g x \<le> 1" for x using g by (cases g) (auto simp: hold_def amount_def split: option.splits)
  then have "sum_list (map (hold E g) (handlers s)) \<le> sum_list (map (\<lambda>_. 1) (handlers s))" by (intro sum_list_mono)
  also have "\<dots> = n" using cy_okD(4) [OF ok n] by (simp add: sum_list_triv)
  finally have u: "in_use E g s \<le> n" using out by (simp add: in_use_def)
  have "cnt g (cy_counters s) = of_nat (in_use E g s)"
    using live_fits(2) [OF l n] by (intro counters_okD [OF c]) (simp add: drift_def)
  moreover have "in_use E g s < 2 ^ 64"
    using inv live_fits(1) [OF l n] n by (intro in_use_fits) (auto simp: cy_inv_def)
  ultimately show ?thesis using u by (simp only: unat_of_nat_u64)
qed

lemma gate_opens:
  assumes "live hash E n s" "0 < n" "roomy E n" "cy_out s = []"
  shows "gate_open E g (cy_counters s)"
proof (cases g)
  case GOp
  show ?thesis
  proof (cases "saOpThrottle (e_qos E) = 0")
    case True
    have "counters_ok E s" using assms live_fits(1) [OF assms(1,2)] by (auto simp: live_def cy_inv_def)
    moreover have "in_use E GOp s = 0"
      using assms(4) True by (auto simp: in_use_def hold_def amount_def sum_list_eq_0_iff split: option.splits)
    ultimately have "cnt GOp (cy_counters s) = 0" using counters_okD [of E s GOp] True by (simp add: drift_def del: cnt.simps)
    then show ?thesis using GOp by (simp add: gate_open_def)
  next
    case False
    then show ?thesis using gates_open [OF assms, of GOp] assms(3) GOp by (auto simp: gate_open_def roomy_def word_le_nat_alt)
  qed
qed (use gates_open [OF assms, of GWriteOp] gates_open [OF assms, of GReadOp] assms(3) in \<open>auto simp: gate_open_def roomy_def word_le_nat_alt\<close>)

text \<open>A step that changes one queue and its gate.\<close>

lemma crank_change:
  assumes "i < n" "length (sv_queues (cy_sv s)) = n" "length (cy_gate s) = n"
    and "sv_queues (cy_sv s') = (sv_queues (cy_sv s))[i := q]" "cy_gate s' = (cy_gate s)[i := p]"
    and "qrank (q, p) + length (cy_out s') < qrank (sv_queues (cy_sv s) ! i, cy_gate s ! i) + length (cy_out s)"
  shows "crank s' < crank s"
proof -
  have "zip ((sv_queues (cy_sv s))[i := q]) ((cy_gate s)[i := p]) = (zip (sv_queues (cy_sv s)) (cy_gate s))[i := (q, p)]"
    by (simp add: update_zip)
  then show ?thesis
    using sum_list_update_add [of i "zip (sv_queues (cy_sv s)) (cy_gate s)" qrank "(q, p)"] assms by (simp add: crank_def)
qed

definition advances :: "(string \<Rightarrow> nat) \<Rightarrow> queue_env \<Rightarrow> (obj_list_snap_response_t \<Rightarrow> bytes) \<Rightarrow> nat \<Rightarrow> cyc \<Rightarrow> bool" where
  "advances hash E er n s \<longleftrightarrow> (\<exists>s'. cy_work E er s s' \<and> live hash E n s' \<and> crank s' < crank s \<and> all_arrived s' = all_arrived s)"

lemma advancesI:
  assumes l: "live hash E n s" and n: "0 < n" and m: "e_module E" and w: "cy_work E er s s'"
    and a: "all_arrived s' = all_arrived s" and c: "list_all calm (sv_queues (cy_sv s'))"
    and r: "crank s' < crank s"
  shows "advances hash E er n s"
proof -
  have "live hash E n s'" using l a c cy_inv_step [OF work [OF w, of hash] _ n m] by (simp add: live_def)
  with w r a show ?thesis unfolding advances_def by blast
qed

lemma answer_advances:
  assumes l: "live hash E n s" and n: "0 < n" and m: "e_module E" and o: "cy_out s = r # rs"
  shows "advances hash E er n s"
proof -
  have "req_ok E r" using l o by (simp add: live_def cy_inv_def cy_ok_def)
  then obtain op where "ptrMosdop r = Some op" by (auto simp: req_ok_def)
  then have w: "cy_work E er s (s\<lparr>cy_sv := (cy_sv s)\<lparr>sv_net := snd (OSA_FinishCacheOps (saOpThrottle (e_qos E)) (e_module E) (Some op)
         (ucast (rq_optionType r)) (rq_optionLength r) 0 (sv_net (cy_sv s)))\<rparr>, cy_out := [] @ rs, cy_done := cy_done s @ [the (ptrMosdop r)]\<rparr>)"
    using o by (intro answer [where ks = "[]"]) simp_all
  then show ?thesis
    using l o by (intro advancesI [OF l n m w]) (simp_all add: all_arrived_def live_def crank_def)
qed

lemma own_advances:
  assumes l: "live hash E n s" and n: "0 < n" and m: "e_module E" and i: "i < n" and h: "\<And>r. cy_hpc s i \<noteq> HAdmit r"
    and w: "0 < qrank (sv_queues (cy_sv s) ! i, cy_gate s ! i)"
  shows "advances hash E er n s"
proof -
  let ?q0 = "sv_view i (cy_sv s)"
  have ok: "cy_ok hash E n s" using l by (simp add: live_def cy_inv_def)
  then have len: "length (sv_queues (cy_sv s)) = n" "length (cy_gate s) = n" by (auto simp: cy_ok_def)
  have "working (cy_hpc s i) = None \<or> (\<exists>r. working (cy_hpc s i) = Some (True, r))" using h by (cases "cy_hpc s i") auto
  then have p: "cy_gate s ! i = GIdle" using cy_okD(2) [OF ok i] by (auto simp: idle_gate)
  have rk: "qrank (?q0, GIdle) = qrank (sv_queues (cy_sv s) ! i, GIdle)" by (simp add: qrank_def qsize_def sv_view_def)
  have c: "calm ?q0" using l i len by (simp add: live_def list_all_length calm_def sv_view_def)
  have a: "accepted E (fst e)" if "e \<in> set (oq_pending ?q0)" for e using live_fits(4) [OF l n i] that by simp
  have h0: "oq_hpc ?q0 \<noteq> HAdmit r" for r using h by simp
  have w0: "0 < qrank (?q0, GIdle)" using w p rk by simp
  obtain q where q: "own_step E ?q0 q" "calm q" "qrank (q, GIdle) + length (oq_submitted q) < qrank (?q0, GIdle) + length (oq_submitted ?q0)"
    using own_progress [OF cy_okD(3) [OF ok i] c a h0 w0] by blast
  have sub: "length (oq_submitted q) \<ge> length (oq_submitted (sv_queues (cy_sv s) ! i))"
  proof (rule own_step_cases [OF q(1) cy_okD(3) [OF ok i]])
    show "hpc_ok E (working (oq_hpc ?q0))" using cy_okD(1) [OF ok i] by simp
  qed (auto simp: own_quiet_def deals_def hands_over_def)
  have wk: "cy_work E er s (after_own i q s)" using i len q(1) by (intro own) simp_all
  have arr: "arrived q = arrived (sv_queues (cy_sv s) ! i)" using q(1) by (simp add: own_step_def)
  show ?thesis
  proof (rule advancesI [OF l n m wk])
    show "all_arrived (after_own i q s) = all_arrived s"
      using i len arr by (simp add: all_arrived_def after_own_def sv_put_def all_arrived_update)
    show "list_all calm (sv_queues (cy_sv (after_own i q s)))"
      using l q(2) by (auto simp: after_own_def sv_put_def live_def intro!: list_all_upd)
    show "crank (after_own i q s) < crank s"
    proof (rule crank_change [OF i len, where q = q and p = GIdle])
      show "qrank (q, GIdle) + length (cy_out (after_own i q s)) < qrank (sv_queues (cy_sv s) ! i, cy_gate s ! i) + length (cy_out s)"
        using q(3) sub rk p by (simp add: after_own_def)
      show "cy_gate (after_own i q s) = (cy_gate s)[i := GIdle]" using list_update_id [of "cy_gate s" i] p by (simp add: after_own_def)
    qed (simp add: after_own_def sv_put_def)
  qed
qed

lemma gate_advances:
  assumes l: "live hash E n s" and n: "0 < n" and m: "e_module E" and i: "i < n" and h: "cy_hpc s i = HAdmit r"
    and o: "cy_out s = []" and ro: "roomy E n"
  shows "advances hash E er n s"
proof -
  have ok: "cy_ok hash E n s" using l by (simp add: live_def cy_inv_def)
  then have len: "length (sv_queues (cy_sv s)) = n" "length (cy_gate s) = n" by (auto simp: cy_ok_def)
  have calm: "list_all calm (sv_queues (cy_sv s))" using l by (simp add: live_def)
  have hq: "oq_hpc (sv_queues (cy_sv s) ! i) = HAdmit r" using h by (simp add: cy_hpc_def)
  have gate: "advances hash E er n s"
    if w: "cy_work E er s s'" and v: "sv_queues (cy_sv s') = sv_queues (cy_sv s)" "cy_gate s' = (cy_gate s)[i := p]" "cy_out s' = cy_out s"
      and d: "hrank (HAdmit r) p < hrank (HAdmit r) (cy_gate s ! i)" for s' p
  proof (rule advancesI [OF l n m w])
    show "crank s' < crank s"
      by (rule crank_change [OF i len, where q = "sv_queues (cy_sv s) ! i" and p = p]) (use v d hq in \<open>simp_all add: qrank_def\<close>)
  qed (use calm v in \<open>simp_all add: all_arrived_def\<close>)
  show ?thesis
  proof (cases "cy_gate s ! i")
    case GIdle
    have "length (gates_of r) \<le> 5" by (simp add: gates_of_def)
    then have "hrank (HAdmit r) (GTake (gates_of r)) < hrank (HAdmit r) (cy_gate s ! i)" unfolding GIdle hrank.simps by linarith
    moreover have "cy_work E er s (s\<lparr>cy_gate := (cy_gate s)[i := GTake (gates_of r)]\<rparr>)" using GIdle i len h by (intro enter) simp_all
    ultimately show ?thesis by (intro gate [where s' = "s\<lparr>cy_gate := (cy_gate s)[i := GTake (gates_of r)]\<rparr>" and p = "GTake (gates_of r)"]) simp_all
  next
    case (GWait g gs)
    have "cy_work E er s (s\<lparr>cy_gate := (cy_gate s)[i := GTake gs]\<rparr>)"
      using GWait i len gate_opens [OF l n ro o] by (intro sample) simp_all
    then show ?thesis using GWait by (intro gate [where s' = "s\<lparr>cy_gate := (cy_gate s)[i := GTake gs]\<rparr>" and p = "GTake gs"]) simp_all
  next
    case (GTake gs)
    show ?thesis
    proof (cases gs)
      case (Cons g gs')
      obtain q w where q: "gate_take E r g (cy_counters s) = (q, w)" by fastforce
      let ?p = "if w = None then GWait g gs' else GTake gs'"
      have "cy_work E er s (s\<lparr>cy_sv := set_counters q (cy_sv s), cy_gate := (cy_gate s)[i := ?p]\<rparr>)"
        using GTake Cons i len h q by (intro take) simp_all
      then show ?thesis using GTake Cons
        by (intro gate [where s' = "s\<lparr>cy_sv := set_counters q (cy_sv s), cy_gate := (cy_gate s)[i := ?p]\<rparr>" and p = ?p])
          (simp_all add: set_counters_def)
    next
      case Nil
      let ?q = "(sv_view i (cy_sv s))\<lparr>oq_hpc := HCopy r\<rparr>"
      let ?s = "s\<lparr>cy_sv := sv_put i ?q (cy_sv s), cy_gate := (cy_gate s)[i := GIdle]\<rparr>"
      have w: "cy_work E er s ?s" using GTake Nil i len h by (intro pass) simp_all
      have "calm (sv_queues (cy_sv s) ! i)" using calm i len by (simp add: list_all_length)
      then have "calm ?q" by (simp add: calm_def sv_view_def)
      show ?thesis
      proof (rule advancesI [OF l n m w])
        show "crank ?s < crank s"
          by (rule crank_change [OF i len, where q = ?q and p = GIdle])
            (use GTake Nil hq in \<open>simp_all add: qrank_def qsize_def sv_put_def sv_view_def\<close>)
        show "list_all calm (sv_queues (cy_sv ?s))" using calm \<open>calm ?q\<close> by (auto simp: sv_put_def intro!: list_all_upd)
        show "all_arrived ?s = all_arrived s"
          using i len by (simp add: all_arrived_def sv_put_def all_arrived_update arrived_def sv_view_def)
      qed
    qed
  qed
qed

lemma live_advances:
  assumes l: "live hash E n s" and n: "0 < n" and m: "e_module E" and ro: "roomy E n" and w: "0 < crank s"
  shows "advances hash E er n s"
proof (cases "cy_out s")
  case (Cons r rs)
  then show ?thesis using answer_advances [OF l n m] by simp
next
  case Nil
  have len: "length (sv_queues (cy_sv s)) = n" "length (cy_gate s) = n" using l by (auto simp: live_def cy_inv_def cy_ok_def)
  have "\<exists>x \<in> set (zip (sv_queues (cy_sv s)) (cy_gate s)). 0 < qrank x"
  proof (rule ccontr)
    assume "\<not> ?thesis"
    then have "crank s = 0" using Nil by (auto simp: crank_def sum_list_eq_0_iff)
    with w show False by simp
  qed
  then obtain i where i: "i < n" "0 < qrank (sv_queues (cy_sv s) ! i, cy_gate s ! i)"
    using len by (auto simp: set_zip)
  show ?thesis
  proof (cases "\<exists>r. cy_hpc s i = HAdmit r")
    case True
    then show ?thesis using gate_advances [OF l n m i(1) _ Nil ro] by blast
  next
    case False
    then show ?thesis using own_advances [OF l n m i(1) _ i(2)] by blast
  qed
qed

lemma live_drains:
  assumes "live hash E n s" "0 < n" "e_module E" "roomy E n"
  shows "\<exists>s'. (cy_work E er)\<^sup>*\<^sup>* s s' \<and> live hash E n s' \<and> crank s' = 0 \<and> all_arrived s' = all_arrived s"
  using assms(1)
proof (induction "crank s" arbitrary: s rule: less_induct)
  case less
  show ?case
  proof (cases "crank s = 0")
    case True
    with less.prems show ?thesis by blast
  next
    case False
    then obtain t where t: "cy_work E er s t" "live hash E n t" "crank t < crank s" "all_arrived t = all_arrived s"
      using live_advances [OF less.prems assms(2-4), of er] unfolding advances_def by auto
    from less.hyps [OF t(3,2)] obtain s' where "(cy_work E er)\<^sup>*\<^sup>* t s'" "live hash E n s'" "crank s' = 0" "all_arrived s' = all_arrived t" by blast
    with t(1,4) show ?thesis by (metis converse_rtranclp_into_rtranclp)
  qed
qed

text \<open>Nothing is left: every handler waits for work, all queues are empty and nothing is in flight.\<close>

definition drained :: "cyc \<Rightarrow> bool" where
  "drained s \<longleftrightarrow> cy_out s = [] \<and> list_all (\<lambda>q. oq_hpc q = HWait \<and> oq_pending q = [] \<and> cap_wait q = [] \<and> cap_woken q = []) (sv_queues (cy_sv s))"

lemma rank_drained:
  assumes "crank s = 0" "live hash E n s"
  shows "drained s"
proof -
  have len: "length (cy_gate s) = length (sv_queues (cy_sv s))" using assms(2) by (simp add: live_def cy_inv_def cy_ok_def)
  have calm: "list_all calm (sv_queues (cy_sv s))" using assms(2) by (simp add: live_def)
  have "oq_hpc q = HWait \<and> oq_pending q = [] \<and> cap_wait q = [] \<and> cap_woken q = []" if q: "q \<in> set (sv_queues (cy_sv s))" for q
  proof -
    obtain i where i: "i < length (sv_queues (cy_sv s))" "q = sv_queues (cy_sv s) ! i" using q by (auto simp: in_set_conv_nth)
    then have "(q, cy_gate s ! i) \<in> set (zip (sv_queues (cy_sv s)) (cy_gate s))" using len by (force simp: set_zip)
    then have "qrank (q, cy_gate s ! i) = 0" using assms(1) by (auto simp: crank_def sum_list_eq_0_iff)
    then have z: "hrank (oq_hpc q) (cy_gate s ! i) = 0" "qsize q = 0" by (simp_all add: qrank_def)
    have "calm q" using calm q by (simp add: list_all_iff)
    then have "oq_hpc q = HWait" using z(1) by (cases "oq_hpc q"; cases "cy_gate s ! i") (simp_all add: calm_def)
    then show ?thesis using z(2) by (simp add: qsize_def oq_pending_def entries3_def)
  qed
  then show ?thesis using assms(1) by (simp add: drained_def crank_def list_all_iff)
qed

lemma drained_state:
  assumes d: "drained s" and l: "live hash E n s" and n: "0 < n"
  shows "in_service s = {#}" "mset (sv_acc (cy_sv s)) = all_arrived s" "concat (map oq_pending (sv_queues (cy_sv s))) = []" "\<And>g. in_use E g s = 0"
proof -
  have q: "oq_hpc q = HWait" "oq_pending q = []" "arrived q = mset (oq_acc q)" if "q \<in> set (sv_queues (cy_sv s))" for q
    using d that by (auto simp: drained_def list_all_iff arrived_def)
  have h: "fst x = None" if "x \<in> set (handlers s)" for x
  proof -
    obtain w p where x: "x = (w, p)" by (cases x)
    then have "w \<in> set (map (working \<circ> oq_hpc) (sv_queues (cy_sv s)))" using that unfolding handlers_def by (blast dest: set_zip_leftD)
    then show ?thesis using x q(1) by auto
  qed
  have hand: "map in_hand (handlers s) = map (\<lambda>_. {#}) (handlers s)" using h by (simp add: in_hand_def)
  have "sum_list (map (\<lambda>_. {#}) xs) = {#}" for xs :: "'a list" by (induction xs) simp_all
  then show "in_service s = {#}" using d by (simp add: in_service_def hand drained_def)
  show "in_use E g s = 0" for g using d h by (auto simp: in_use_def hold_def drained_def sum_list_eq_0_iff)
  show "concat (map oq_pending (sv_queues (cy_sv s))) = []" using q(2) by simp
  have "sum_list (map arrived qs) = mset (concat (map oq_acc qs))" if "\<And>q. q \<in> set qs \<Longrightarrow> arrived q = mset (oq_acc q)" for qs
    using that by (induction qs) simp_all
  then have "all_arrived s = mset (concat (map oq_acc (sv_queues (cy_sv s))))" using q(3) by (simp add: all_arrived_def)
  then show "mset (sv_acc (cy_sv s)) = all_arrived s"
    using histories_split(1) [of hash E "cy_sv s"] l n by (auto simp: live_def cy_inv_def cy_ok_def)
qed

definition no_counts :: counters where
  "no_counts = \<lparr>lwtCount = 0, lwtWriteCount = 0, lwtReadCount = 0, writeBW = 0, readBW = 0\<rparr>"

lemma no_counts_iff: "q = no_counts \<longleftrightarrow> (\<forall>g. cnt g q = 0)"
proof
  assume "\<forall>g. cnt g q = 0"
  from spec [OF this, of GOp] spec [OF this, of GWriteOp] spec [OF this, of GWriteBW] spec [OF this, of GReadOp] spec [OF this, of GReadBW]
  show "q = no_counts" by (cases q) (simp add: no_counts_def)
next
  assume "q = no_counts"
  moreover have "cnt g no_counts = 0" for g by (cases g) (simp_all add: no_counts_def)
  ultimately show "\<forall>g. cnt g q = 0" by simp
qed

text \<open>What holds of a drained server: everything that arrived is answered, and the counters are back at 0.\<close>

lemma drained_answers:
  assumes d: "drained s" and l: "live hash E n s" and n: "0 < n"
  shows "image_mset (ident \<circ> fst) (mset (nt_replies (sv_net (cy_sv s)))) = image_mset (ident \<circ> fst) (all_arrived s) \<and> cy_counters s = no_counts"
proof
  have inv: "cy_inv hash E n s" using l by (simp add: live_def)
  note D = drained_state [OF d l n] and F = live_fits [OF l n]
  show "image_mset (ident \<circ> fst) (mset (nt_replies (sv_net (cy_sv s)))) = image_mset (ident \<circ> fst) (all_arrived s)"
    using all_messages [OF inv n] D(1,2,3) F(3) by simp
  have "counters_ok E s" using inv F(1) by (simp add: cy_inv_def)
  then have "cnt g (cy_counters s) = 0" for g using counters_okD [of E s g] D(4) F(2) by (simp add: drift_def)
  then show "cy_counters s = no_counts" by (simp add: no_counts_iff)
qed

section \<open>Standstill\<close>

text \<open>A handler that has not got past the count of operations in flight.\<close>

fun at_first :: "(bool \<times> SaOpReq) option \<times> gate_pc \<Rightarrow> bool" where
  "at_first (None, p) = True"
| "at_first (Some (b, r), p) = (\<not> b \<and> (p = GIdle \<or> p = GTake (gates_of r) \<or> (\<exists>gs. p = GWait GOp gs)))"

definition standstill :: "queue_env \<Rightarrow> nat \<Rightarrow> cyc \<Rightarrow> bool" where
  "standstill E n s \<longleftrightarrow> cy_out s = [] \<and> list_all at_first (handlers s) \<and> n < rejects E s"

definition fits_limit :: "queue_env \<Rightarrow> cyc \<Rightarrow> bool" where
  "fits_limit E s \<longleftrightarrow> unat (saOpThrottle (e_qos E)) + sum_list (map (weight E \<circ> fst) (sv_acc (cy_sv s))) < 2 ^ 64"

lemma below_zero:
  assumes "x + of_nat d = (of_nat u :: u64)" "u < d" "unat t + d < 2 ^ 64"
  shows "t < x"
proof (rule ccontr)
  assume "\<not> t < x"
  then have le: "unat x \<le> unat t" by (simp add: not_less word_le_nat_alt)
  have "x + of_nat (d - u) + of_nat u = of_nat u" using assms(1,2) by (simp add: of_nat_diff)
  then have z: "x + of_nat (d - u) = 0" by simp
  have k: "unat (of_nat (d - u) :: u64) = d - u" using assms(3) by (intro unat_of_nat_u64) simp
  then have "unat (x + of_nat (d - u)) = unat x + (d - u)"
    using le assms(3) by (simp add: unat_word_ariths)
  then show False using z assms(2) by simp
qed

lemma rejects_weight:
  assumes "cy_ok hash E n s" "0 < n"
  shows "rejects E s \<le> sum_list (map (weight E \<circ> fst) (sv_acc (cy_sv s)))"
proof -
  have "mset (sv_served (cy_sv s)) \<subseteq># mset (sv_acc (cy_sv s))"
    using histories_split(2) [of hash E "cy_sv s"] assms by (auto simp: cy_ok_def)
  then have "length (sv_served (cy_sv s)) \<le> length (sv_acc (cy_sv s))" by (metis size_mset size_mset_mono)
  moreover have "length xs \<le> sum_list (map (weight E \<circ> fst) xs)" for xs :: "entry list"
  proof (induction xs)
    case (Cons e xs)
    have "1 \<le> weight E (fst e)" by (simp add: weight_def split: op_outcome.split)
    with Cons show ?case by simp
  qed simp
  ultimately show ?thesis unfolding rejects_def by (meson length_filter_le le_trans)
qed

lemma standstill_count:
  assumes inv: "cy_inv hash E n s" and n: "0 < n" and st: "standstill E n s" and f: "fits_limit E s" and t: "saOpThrottle (e_qos E) \<noteq> 0"
  shows "saOpThrottle (e_qos E) < lwtCount (cy_counters s)"
proof -
  have ok: "cy_ok hash E n s" and c: "counters_ok E s" using inv f by (auto simp: cy_inv_def fits_limit_def run_fits_def)
  have "hold E GOp x \<le> 1" for x by (auto simp: hold_def amount_def split: option.splits)
  then have "sum_list (map (hold E GOp) (handlers s)) \<le> sum_list (map (\<lambda>_. 1) (handlers s))" by (intro sum_list_mono)
  also have "\<dots> = n" using cy_okD(4) [OF ok n] by (simp add: sum_list_triv)
  finally have u: "in_use E GOp s < rejects E s" using st by (simp add: in_use_def standstill_def)
  have "cnt GOp (cy_counters s) + of_nat (drift E GOp s) = of_nat (in_use E GOp s)" using c by (simp only: counters_ok_def)
  moreover have "drift E GOp s = rejects E s" using t by (simp add: drift_def)
  ultimately show ?thesis
    using u f rejects_weight [OF ok n] by (intro below_zero [of _ "rejects E s" "in_use E GOp s"]) (simp_all add: fits_limit_def)
qed

lemma standstill_work:
  assumes w: "cy_work E er s s'" and inv: "cy_inv hash E n s" and n: "0 < n" and st: "standstill E n s" and f: "fits_limit E s"
    and t: "saOpThrottle (e_qos E) \<noteq> 0"
  shows "standstill E n s' \<and> cy_done s' = cy_done s"
proof -
  have ok: "cy_ok hash E n s" using inv by (simp add: cy_inv_def)
  have len: "length (sv_queues (cy_sv s)) = n" "length (cy_gate s) = n" using ok by (auto simp: cy_ok_def)
  have out: "cy_out s = []" and first: "list_all at_first (handlers s)" and rj: "n < rejects E s" using st by (auto simp: standstill_def)
  have at: "at_first (working (cy_hpc s i), cy_gate s ! i)" if "i < n" for i
    using first cy_okD(4,5) [OF ok that] that by (simp add: list_all_length) metis
  note full = standstill_count [OF inv n st f t]
  from w show ?thesis
  proof cases
    case (own i q)
    then have i: "i < n" using len by simp
    from ok i own(3) have "standstill E n (after_own i q s)"
    proof (cases rule: own_effect)
      case own_quiet
      then show ?thesis using st by (simp add: standstill_def rejects_def)
    next
      case (deals e)
      then show ?thesis using out first rj
        by (cases "outcome_of E (fst e)") (auto simp: standstill_def rejects_def intro!: list_all_upd)
    next
      case (over r g)
      then show ?thesis using at [OF i] cy_okD(5) [OF ok i] by simp
    qed
    then show ?thesis using own by (simp add: after_own_def)
  next
    case (enter i r)
    then have "handlers s' = (handlers s)[i := (Some (False, r), GTake (gates_of r))]" using handlers_gate [of i s "GTake (gates_of r)"] by simp
    then show ?thesis using enter out first rj by (auto simp: standstill_def rejects_def intro!: list_all_upd)
  next
    case (take i r g gs q w)
    have "GTake (g # gs) = GTake (gates_of r)" using at [of i] take len by simp
    then have g: "g = GOp" "gates_of r = g # gs" by (simp_all add: gates_of_def)
    then have "w = None" using take(5) full t by (auto simp: gate_take_def GetlwtCas_def throttle_wait.simps)
    then have "handlers s' = (handlers s)[i := (Some (False, r), GWait GOp gs)]"
      using handlers_gate [of i s "GWait GOp gs"] take g by (simp add: handlers_def set_counters_def)
    then show ?thesis using take out first rj by (auto simp: standstill_def rejects_def set_counters_def intro!: list_all_upd)
  next
    case (sample i g gs)
    then have "g = GOp" using at [of i] len cy_okD(2) [OF ok, of i] by auto
    then show ?thesis using sample(4) full by (simp add: gate_open_def)
  next
    case (pass i r)
    then show ?thesis using at [of i] len by (simp add: gates_of_def)
  next
    case (answer xs r ys ks m res)
    then show ?thesis using out by simp
  qed
qed

lemma fits_limit_mono: "sv_acc (cy_sv s') = sv_acc (cy_sv s) @ es \<Longrightarrow> fits_limit E s' \<Longrightarrow> fits_limit E s"
  by (simp add: fits_limit_def)

lemma standstill_step:
  assumes w: "cy_step hash E er s s'" and inv: "cy_inv hash E n s" and n: "0 < n" and st: "standstill E n s" and f: "fits_limit E s"
    and t: "saOpThrottle (e_qos E) \<noteq> 0"
  shows "standstill E n s' \<and> cy_done s' = cy_done s"
  using w
proof cases
  case (receive m tss b v)
  then show ?thesis
    using dispatch_hands [OF receive(3)] inv st by (simp add: cy_inv_def cy_ok_def standstill_def rejects_def)
next
  case work
  then show ?thesis using standstill_work [OF _ inv n st f t] by blast
qed

lemma step_acc: "cy_step hash E er s s' \<Longrightarrow> cy_inv hash E n s \<Longrightarrow> \<exists>es. sv_acc (cy_sv s') = sv_acc (cy_sv s) @ es"
proof (induction rule: cy_step.induct)
  case (receive m s tss b v)
  then show ?case using dispatch_hands [OF receive.hyps(2)] by (simp add: cy_inv_def cy_ok_def)
next
  case (work s s')
  then show ?case using work_served [of E er s s' hash n] by (auto simp: cy_inv_def)
qed

lemma standstill_reach:
  assumes "(cy_step hash E er)\<^sup>*\<^sup>* s s'" "cy_inv hash E n s" "0 < n" "e_module E" "standstill E n s" "saOpThrottle (e_qos E) \<noteq> 0" "fits_limit E s'"
  shows "standstill E n s' \<and> cy_done s' = cy_done s \<and> cy_inv hash E n s'"
  using assms(1,7)
proof (induction rule: rtranclp_induct)
  case base
  then show ?case using assms by simp
next
  case (step y z)
  have iy: "cy_inv hash E n y" using step.hyps(1) assms(2)
    by (induction rule: rtranclp_induct) (auto intro: cy_inv_step assms(3,4))
  obtain es where "sv_acc (cy_sv z) = sv_acc (cy_sv y) @ es" using step_acc [OF step.hyps(2) iy] by blast
  then have f: "fits_limit E y" using step.prems fits_limit_mono by blast
  with step.IH have "standstill E n y" "cy_done y = cy_done s" by blast+
  then show ?case using standstill_step [OF step.hyps(2) iy assms(3) _ f assms(6)] cy_inv_step [OF step.hyps(2) iy assms(3,4)] by simp
qed

section \<open>Runs with one queue\<close>

text \<open>The server with one queue, no handler at a gate and nothing answered by the cache.\<close>

definition one :: "op_queue \<Rightarrow> u64 \<Rightarrow> cyc" where
  "one q d = \<lparr>cy_sv = \<lparr>sv_queues = [q], sv_net = oq_net q, dcount = d, sv_active = False, sv_sent = [], sv_acc = oq_acc q, sv_served = oq_served q\<rparr>,
     cy_gate = [GIdle], cy_out = oq_submitted q, cy_done = []\<rparr>"

lemma one_start: "cy_start 1 = one (new_op_queue idle_net) 0"
  by (simp add: cy_start_def sv_start_def one_def new_op_queue_def)

lemma one_view [simp]: "sv_view 0 (cy_sv (one q d)) = q"
  by (simp add: one_def sv_view_def)

lemma one_own:
  assumes "oq_step E q q'" "arrived q' = arrived q" "oq_net q' = oq_net q \<or> oq_served q' \<noteq> oq_served q"
    and "oq_acc q' = oq_acc q" "oq_submitted q' = oq_submitted q" "oq_served q' = oq_served q @ es"
  shows "cy_step hash E er (one q d) (one q' d)"
proof -
  have "cy_work E er (one q d) (after_own 0 q' (one q d))"
    using assms(1-3) by (intro own) (simp_all add: own_step_def oq_any_def, simp add: one_def)
  moreover have "after_own 0 q' (one q d) = one q' d" using assms(4-6) by (simp add: after_own_def one_def sv_put_def)
  ultimately show ?thesis by (simp add: work)
qed

lemma one_receive:
  assumes "lock_free q" "GetSize (oq_q q) \<le> queueMaxCapacity E"
  shows "cy_step hash E er (one q d) (one (enqueue (op, ts, pts) q) (d + 1))"
proof -
  have v: "sv_view 0 (cy_sv (one q d)) = q" by simp
  have "dispatch_ready hash (MOp op) (cy_sv (one q d))" using assms(1) by (simp add: dispatch_ready_def queue_index_def one_def)
  moreover have "ms_dispatch hash E (ts, pts) (MOp op) (cy_sv (one q d)) = Inr (True, cy_sv (one (enqueue (op, ts, pts) q) (d + 1)))"
    using assms(2) v by (simp add: ms_dispatch_def queue_index_def EnqueueClientop_def one_def sv_put_def sv_view_def enqueue_q)
  ultimately have "cy_step hash E er (one q d) ((one q d)\<lparr>cy_sv := cy_sv (one (enqueue (op, ts, pts) q) (d + 1))\<rparr>)" by (rule receive)
  moreover have "(one q d)\<lparr>cy_sv := cy_sv (one (enqueue (op, ts, pts) q) (d + 1))\<rparr> = one (enqueue (op, ts, pts) q) (d + 1)"
    by (simp add: one_def enqueue_q)
  ultimately show ?thesis by simp
qed

definition cy_env :: queue_env where
  "cy_env = \<lparr>e_codec = le_codec, e_junk = rbdObjId blank_req, e_qos = default_qos, e_limits = no_limits, e_module = True, queueMaxCapacity = 10\<rparr>"

definition queued :: "MOSDOp list \<Rightarrow> op_queue" where
  "queued ops = (new_op_queue idle_net)\<lparr>oq_q := \<lparr>reqQueue = ops, tsQueue = map (\<lambda>_. 1) ops, period = map (\<lambda>_. 2) ops\<rparr>,
     oq_acc := map (\<lambda>op. (op, 1, 2)) ops\<rparr>"

lemma queued_reach: "length ops \<le> 10 \<Longrightarrow> (cy_step hash cy_env er)\<^sup>*\<^sup>* (cy_start 1) (one (queued ops) (of_nat (length ops)))"
proof (induction ops rule: rev_induct)
  case Nil
  have "queued [] = new_op_queue idle_net" by (simp add: queued_def new_op_queue_def new_queue_def)
  then show ?case unfolding one_start by simp
next
  case (snoc op ops)
  have "cy_step hash cy_env er (one (queued ops) (of_nat (length ops))) (one (enqueue (op, 1, 2) (queued ops)) (of_nat (length ops) + 1))"
    using snoc.prems by (intro one_receive) (simp_all add: queued_def lock_free_def new_op_queue_def GetSize_def cy_env_def)
  moreover have "enqueue (op, 1, 2) (queued ops) = queued (ops @ [op])"
    by (simp add: enqueue_def queued_def EnQueue_def notify_condOpReq_def new_op_queue_def)
  ultimately show ?case using snoc by (simp add: add.commute)
qed

lemma demo_accepts: "accepted cy_env one_op_msg"
proof -
  have "rbd_sections ''obj'' = [''obj'']" by (simp add: rbd_sections_def c_str_def strtok.simps)
  then show ?thesis
    by (simp add: accepted_def outcome_of_def cy_env_def ProcessOpReq_def one_op_msg_def Let_def ConvertClientopToOpreq_def blank_op_def)
qed

lemma demo_live: "live hash cy_env 1 (one (queued [one_op_msg]) 1)"
proof -
  have r: "(cy_step hash cy_env (\<lambda>_. []))\<^sup>*\<^sup>* (cy_start 1) (one (queued [one_op_msg]) 1)" using queued_reach [of "[one_op_msg]"] by simp
  have a: "all_arrived (one (queued [one_op_msg]) 1) = {#(one_op_msg, 1, 2)#}"
    by (simp add: all_arrived_def one_def arrived_def queued_def new_op_queue_def)
  obtain r where o: "outcome_of cy_env one_op_msg = OAccepted r" using demo_accepts by (auto simp: accepted_def)
  have "unat (rq_optionLength r) < 2 ^ LENGTH(64)" by (rule unsigned_less)
  then have "weight cy_env one_op_msg < 2 ^ 64" using o by (simp add: weight_def)
  moreover have "calm (queued [one_op_msg])" by (simp add: calm_def queued_def new_op_queue_def)
  ultimately show ?thesis
    using cy_reach_inv [OF r] demo_accepts a by (simp add: live_def) (simp add: one_def cy_env_def)
qed

text \<open>Two messages with malformed names, dealt with by the handler.\<close>

definition bad_msg :: MOSDOp where
  "bad_msg = one_op_msg\<lparr>mo_oid := ''rbd_data.5''\<rparr>"

lemma bad_rejected: "outcome_of cy_env bad_msg = ORejected"
proof -
  have "rbd_sections ''rbd_data.5'' = [''rbd_data'', ''5'']" by code_simp
  then show ?thesis by (simp add: outcome_of_def cy_env_def ProcessOpReq_def bad_msg_def Let_def)
qed

definition dealing_bad :: "nat \<Rightarrow> nat \<Rightarrow> op_queue" where
  "dealing_bad k m = (queued (replicate (k + m) bad_msg))\<lparr>oq_q := \<lparr>reqQueue = [], tsQueue = [], period = []\<rparr>, oq_hpc := HDeal,
     dealQueue := replicate m bad_msg, dealTs := replicate m 1, periodTs := replicate m 2, oq_served := replicate k (bad_msg, 1, 2),
     oq_net := (reject cy_env bad_msg ^^ k) idle_net\<rparr>"

lemma bad_step: "cy_step hash cy_env er (one (dealing_bad k (Suc m)) d) (one (dealing_bad (Suc k) m) d)"
proof (rule one_own)
  let ?q = "dealing_bad k (Suc m)" and ?q' = "dealing_bad (Suc k) m"
  have f: "dealQueue ?q = bad_msg # replicate m bad_msg" "dealTs ?q = 1 # replicate m 1" "periodTs ?q = 2 # replicate m 2"
    by (simp_all add: dealing_bad_def)
  obtain r where r: "ProcessOpReq (e_codec cy_env) (e_junk cy_env) (saOpThrottle (e_qos cy_env)) (e_module cy_env) (dealQueue ?q) (periodTs ?q)
      new_SaOpReq (oq_net ?q) = Inr (1, replicate m bad_msg, replicate m 2, r, reject cy_env bad_msg (oq_net ?q))"
    using Process_outcome [of cy_env bad_msg "replicate m bad_msg" 2 "replicate m 2" "oq_net ?q"] bad_rejected f by auto
  have "deal_one cy_env ?q = ?q\<lparr>dealQueue := replicate m bad_msg, dealTs := replicate m 1, periodTs := replicate m 2,
      oq_net := reject cy_env bad_msg (oq_net ?q), oq_served := oq_served ?q @ [(bad_msg, 1, 2)], oq_hpc := HDeal\<rparr>"
    unfolding deal_one_def r by (simp add: f)
  also have "\<dots> = ?q'" by (simp add: dealing_bad_def replicate_append_same)
  finally have "deal_one cy_env ?q = ?q'" .
  moreover have "oq_step cy_env ?q (deal_one cy_env ?q)" by (rule deal) (simp_all add: dealing_bad_def)
  ultimately show "oq_step cy_env ?q ?q'" by simp
  show "oq_served ?q' = oq_served ?q @ [(bad_msg, 1, 2)]" by (simp add: dealing_bad_def replicate_append_same)
qed (simp_all add: dealing_bad_def arrived_def queued_def)

lemma bad_reach:
  assumes "0 < m" "m \<le> 10"
  shows "(cy_step hash cy_env er)\<^sup>*\<^sup>* (cy_start 1) (one (dealing_bad m 0) (of_nat m))"
proof -
  let ?q = "queued (replicate m bad_msg)"
  have ne: "replicate m bad_msg \<noteq> []" using assms(1) by simp
  have 0: "(cy_step hash cy_env er)\<^sup>*\<^sup>* (cy_start 1) (one ?q (of_nat m))" using queued_reach [of "replicate m bad_msg"] assms(2) by simp
  have 1: "cy_step hash cy_env er (one ?q d) (one (?q\<lparr>oq_hpc := HTest\<rparr>) d)" for d
    by (rule one_own [where es = "[]"], rule lock) (simp_all add: queued_def new_op_queue_def arrived_def)
  have 2: "cy_step hash cy_env er (one (?q\<lparr>oq_hpc := HTest\<rparr>) d) (one (?q\<lparr>oq_hpc := HBody\<rparr>) d)" for d
    using test [of "?q\<lparr>oq_hpc := HTest\<rparr>" cy_env]
    by (intro one_own [where es = "[]"]) (simp_all add: queued_def new_op_queue_def arrived_def)
  have b: "handler_body (?q\<lparr>oq_hpc := HBody\<rparr>) = dealing_bad 0 m"
    using ne by (simp add: handler_body_def Empty_def dealing_bad_def queued_def new_op_queue_def map_replicate)
  have 3: "cy_step hash cy_env er (one (?q\<lparr>oq_hpc := HBody\<rparr>) d) (one (dealing_bad 0 m) d)" for d
    using body [of "?q\<lparr>oq_hpc := HBody\<rparr>" cy_env] unfolding b
    by (intro one_own [where es = "[]"]) (simp_all add: dealing_bad_def queued_def new_op_queue_def arrived_def)
  have 4: "(cy_step hash cy_env er)\<^sup>*\<^sup>* (one (dealing_bad k j) d) (one (dealing_bad (k + j) 0) d)" for k j d
  proof (induction j arbitrary: k)
    case (Suc j)
    from bad_step [of hash er k j d] Suc [of "Suc k"] show ?case by (simp add: converse_rtranclp_into_rtranclp)
  qed simp
  have "(cy_step hash cy_env er)\<^sup>*\<^sup>* (one ?q (of_nat m)) (one (dealing_bad 0 m) (of_nat m))"
    using 1 2 3 by (meson converse_rtranclp_into_rtranclp r_into_rtranclp)
  with 0 4 [of 0 m] show ?thesis by (metis (no_types, lifting) add_0 rtranclp_trans)
qed

lemma bad_state:
  "handlers (one (dealing_bad 2 0) d) = [(None, GIdle)]" "cy_out (one (dealing_bad 2 0) d) = []" "rejects cy_env (one (dealing_bad 2 0) d) = 2"
  by (simp_all add: handlers_def one_def dealing_bad_def rejects_def queued_def new_op_queue_def bad_rejected numeral_2_eq_2)

section \<open>Properties\<close>

text \<open>
  C6: Every message is answered exactly once. In every run of the whole server, the messages that were accepted are,
  counted with multiplicity and compared by everything but their operations, the replies sent, the messages that a handler or the
  cache has at the moment, those waiting in a queue, and those dropped because of a pool number of more than 32 bits. So no message
  gets two replies, and no reply is sent without a message.
\<close>

theorem server_answers_once:
  assumes "(cy_step hash E er)\<^sup>*\<^sup>* (cy_start n) s" "0 < n" "e_module E"
  shows "image_mset (ident \<circ> fst) (mset (sv_acc (cy_sv s))) =
    image_mset (ident \<circ> fst) (mset (nt_replies (sv_net (cy_sv s)))) + image_mset ident (in_service s) +
    image_mset (ident \<circ> fst) (mset (concat (map oq_pending (sv_queues (cy_sv s))))) + image_mset ident (mset (dropped E s))"
  using all_messages [OF cy_reach_inv [OF assms] assms(2)] .

lemma work_reach: "(cy_work E er)\<^sup>*\<^sup>* s s' \<Longrightarrow> (cy_step hash E er)\<^sup>*\<^sup>* s s'"
  by (induction rule: rtranclp_induct) (auto intro: rtranclp.rtrancl_into_rtrancl work)

lemma demo_roomy: "roomy cy_env 1" "e_module cy_env"
  by (simp_all add: roomy_def cy_env_def default_qos_def no_limits_def)

lemma demo_drained:
  "\<exists>s. (cy_step (\<lambda>_. 0) cy_env (\<lambda>_. []))\<^sup>*\<^sup>* (cy_start 1) s \<and> drained s \<and> live (\<lambda>_. 0) cy_env 1 s \<and> all_arrived s = {#(one_op_msg, 1, 2)#}"
proof -
  let ?s = "one (queued [one_op_msg]) 1"
  obtain s where s: "(cy_work cy_env (\<lambda>_. []))\<^sup>*\<^sup>* ?s s" "live (\<lambda>_. 0) cy_env 1 s" "crank s = 0" "all_arrived s = all_arrived ?s"
    using live_drains [OF demo_live [of "\<lambda>_. 0"] _ demo_roomy(2,1), of "\<lambda>_. []"] by auto
  have "(cy_step (\<lambda>_. 0) cy_env (\<lambda>_. []))\<^sup>*\<^sup>* (cy_start 1) ?s" using queued_reach [of "[one_op_msg]"] by simp
  then have "(cy_step (\<lambda>_. 0) cy_env (\<lambda>_. []))\<^sup>*\<^sup>* (cy_start 1) s" using work_reach [OF s(1)] by (rule rtranclp_trans)
  moreover have "all_arrived ?s = {#(one_op_msg, 1, 2)#}" by (simp add: all_arrived_def one_def arrived_def queued_def new_op_queue_def)
  ultimately show ?thesis using s rank_drained by metis
qed

theorem server_answers_once_witness:
  "\<exists>s. (cy_step (\<lambda>_. 0) cy_env (\<lambda>_. []))\<^sup>*\<^sup>* (cy_start 1) s \<and> in_service s = {#} \<and>
     image_mset (ident \<circ> fst) (mset (nt_replies (sv_net (cy_sv s)))) = {#ident one_op_msg#}"
proof -
  obtain s where s: "(cy_step (\<lambda>_. 0) cy_env (\<lambda>_. []))\<^sup>*\<^sup>* (cy_start 1) s" "drained s" "live (\<lambda>_. 0) cy_env 1 s" "all_arrived s = {#(one_op_msg, 1, 2)#}"
    using demo_drained by blast
  have "dropped cy_env s = []" using live_fits(3) [OF s(3)] by simp
  then show ?thesis
    using server_answers_once [OF s(1) _ demo_roomy(2)] drained_state [OF s(2,3)] s(1,4) by (intro exI [of _ s]) simp
qed

text \<open>
  C9: The five counters are exact, in every run and however the handlers interleave. A counter of a class of requests is the sum over the requests in flight and
  over the handlers that have already taken it, waiting or not; with \<open>saOpThrottle\<close> switched on, the count of operations is too small by
  exactly the number of messages that were answered with \<open>-EINVAL\<close> for a malformed name. The condition is that all messages of the run together
  fit into 64 bits (in units of 1024 bytes).
\<close>

theorem server_counters_exact:
  assumes "(cy_step hash E er)\<^sup>*\<^sup>* (cy_start n) s" "0 < n" "e_module E" "run_fits E s"
  shows "cnt g (cy_counters s) =
    of_nat (sum_list (map (hold E g) (handlers s)) + sum_list (map (use E g) (cy_out s))) -
    (if g = GOp \<and> saOpThrottle (e_qos E) \<noteq> 0 then of_nat (rejects E s) else 0)"
proof -
  have "counters_ok E s" using cy_reach_inv [OF assms(1-3)] assms(4) by (simp add: cy_inv_def)
  then have "cnt g (cy_counters s) + of_nat (drift E g s) = of_nat (in_use E g s)" by (simp only: counters_ok_def)
  then have "cnt g (cy_counters s) = of_nat (in_use E g s) - of_nat (drift E g s)" by (metis add_diff_cancel_right')
  then show ?thesis by (simp add: in_use_def drift_def)
qed

theorem server_counters_exact_witness:
  "(cy_step (\<lambda>_. 0) cy_env (\<lambda>_. []))\<^sup>*\<^sup>* (cy_start 1) (one (dealing_bad 2 0) 2) \<and> lwtCount (cy_counters (one (dealing_bad 2 0) 2)) = - 2"
proof
  show r: "(cy_step (\<lambda>_. 0) cy_env (\<lambda>_. []))\<^sup>*\<^sup>* (cy_start 1) (one (dealing_bad 2 0) 2)" using bad_reach [of 2] by simp
  have f: "run_fits cy_env (one (dealing_bad 2 0) 2)"
    by (simp add: run_fits_def one_def dealing_bad_def queued_def weight_def bad_rejected sum_list_replicate)
  show "lwtCount (cy_counters (one (dealing_bad 2 0) 2)) = - 2"
    using server_counters_exact [OF r _ demo_roomy(2) f, of GOp] bad_state [of 2]
    by (simp add: hold_def cy_env_def default_qos_def)
qed

text \<open>
  C7: A server that is not being stopped can always finish its work. Take any reachable state in which every message received so far has a
  well-formed name and decodes, and limits that the handlers alone cannot exceed: \<open>saOpThrottle\<close> and the limits on write and read operations are
  off or at least the number of queues, those on bandwidth are off. Without any new message the handlers and the cache can go on until all queues are empty and
  all handlers wait; then every message that arrived has its reply, and all counters are 0.
\<close>

theorem server_drains:
  assumes "(cy_step hash E er)\<^sup>*\<^sup>* (cy_start n) s" "0 < n" "e_module E" "roomy E n"
    and "list_all calm (sv_queues (cy_sv s))" "\<forall>e \<in># all_arrived s. accepted E (fst e)"
    and "sum_mset (image_mset (weight E \<circ> fst) (all_arrived s)) < 2 ^ 64"
  shows "\<exists>s'. (cy_work E er)\<^sup>*\<^sup>* s s' \<and> drained s' \<and> cy_counters s' = no_counts \<and>
    image_mset (ident \<circ> fst) (mset (nt_replies (sv_net (cy_sv s')))) = image_mset (ident \<circ> fst) (all_arrived s)"
proof -
  have "live hash E n s" using cy_reach_inv [OF assms(1-3)] assms(5-7) by (simp add: live_def)
  then obtain s' where s': "(cy_work E er)\<^sup>*\<^sup>* s s'" "live hash E n s'" "crank s' = 0" "all_arrived s' = all_arrived s"
    using live_drains [OF _ assms(2-4)] by blast
  have d: "drained s'" by (rule rank_drained [OF s'(3,2)])
  from drained_answers [OF d s'(2) assms(2)] s'(1,4) d show ?thesis by (intro exI [of _ s']) simp
qed

theorem server_drains_witness:
  "\<exists>s'. (cy_work cy_env (\<lambda>_. []))\<^sup>*\<^sup>* (one (queued [one_op_msg]) 1) s' \<and> drained s' \<and> cy_counters s' = no_counts \<and>
     image_mset (ident \<circ> fst) (mset (nt_replies (sv_net (cy_sv s')))) = {#ident one_op_msg#}"
proof -
  let ?s = "one (queued [one_op_msg]) 1"
  have r: "(cy_step (\<lambda>_. 0) cy_env (\<lambda>_. []))\<^sup>*\<^sup>* (cy_start 1) ?s" using queued_reach [of "[one_op_msg]"] by simp
  have a: "all_arrived ?s = {#(one_op_msg, 1, 2)#}" by (simp add: all_arrived_def one_def arrived_def queued_def new_op_queue_def)
  have l: "live (\<lambda>_. 0) cy_env 1 ?s" by (rule demo_live)
  then have "list_all calm (sv_queues (cy_sv ?s))" "\<forall>e \<in># all_arrived ?s. accepted cy_env (fst e)"
    "sum_mset (image_mset (weight cy_env \<circ> fst) (all_arrived ?s)) < 2 ^ 64" by (auto simp: live_def)
  from server_drains [OF r _ demo_roomy(2,1) this] show ?thesis unfolding a by simp
qed

text \<open>
  C8: Malformed names can stop the server for good. Answering a message with a malformed \<open>rbd_data\<close> name decrements the count of operations without having incremented it.
  Once more such messages have been answered than there are queues, at a moment when nothing is in flight and no handler is past the first
  counter, the unsigned count is above every limit whatever the handlers do: in every continuation no request is handed to the cache
  again, and nothing but malformed messages is answered.
\<close>

theorem malformed_standstill:
  assumes "(cy_step hash E er)\<^sup>*\<^sup>* (cy_start n) s" "0 < n" "e_module E" "saOpThrottle (e_qos E) \<noteq> 0"
    and "cy_out s = []" "list_all at_first (handlers s)" "n < rejects E s"
    and "(cy_step hash E er)\<^sup>*\<^sup>* s s'" "fits_limit E s'"
  shows "cy_out s' = [] \<and> cy_done s' = cy_done s \<and> saOpThrottle (e_qos E) < lwtCount (cy_counters s')"
proof -
  have "standstill E n s" using assms(5-7) by (simp add: standstill_def)
  from standstill_reach [OF assms(8) cy_reach_inv [OF assms(1-3)] assms(2,3) this assms(4,9)]
  have "standstill E n s'" "cy_done s' = cy_done s" "cy_inv hash E n s'" by blast+
  then show ?thesis using standstill_count [of hash E n s'] assms(2,4,9) by (simp add: standstill_def)
qed

theorem malformed_standstill_witness:
  "\<exists>s. (cy_step (\<lambda>_. 0) cy_env (\<lambda>_. []))\<^sup>*\<^sup>* (cy_start 1) s \<and> length (sv_acc (cy_sv s)) = 2 \<and>
     (\<forall>s'. (cy_step (\<lambda>_. 0) cy_env (\<lambda>_. []))\<^sup>*\<^sup>* s s' \<longrightarrow> fits_limit cy_env s' \<longrightarrow> cy_out s' = [] \<and> cy_done s' = [])"
proof -
  let ?s = "one (dealing_bad 2 0) 2"
  have r: "(cy_step (\<lambda>_. 0) cy_env (\<lambda>_. []))\<^sup>*\<^sup>* (cy_start 1) ?s" using bad_reach [of 2] by simp
  have t: "saOpThrottle (e_qos cy_env) \<noteq> 0" by (simp add: cy_env_def default_qos_def)
  have "cy_out s' = [] \<and> cy_done s' = []" if "(cy_step (\<lambda>_. 0) cy_env (\<lambda>_. []))\<^sup>*\<^sup>* ?s s'" "fits_limit cy_env s'" for s'
    using malformed_standstill [OF r _ demo_roomy(2) t _ _ _ that] bad_state [of 2] by (simp add: one_def)
  moreover have "length (sv_acc (cy_sv ?s)) = 2" by (simp add: one_def dealing_bad_def queued_def)
  ultimately show ?thesis using r by blast
qed

text \<open>
  C10: The cache gets the operations on an object in the order in which the server accepted them. Over all queues and handlers, the
  well-formed messages on an object that have been handed to the cache are, in this order, a prefix of the well-formed messages on the object
  that were accepted; the next one is at most in the hands of one handler.
\<close>

theorem object_submission_order:
  assumes "(cy_step hash E er)\<^sup>*\<^sup>* (cy_start n) s" "0 < n" "e_module E"
    and q_def: "q = sv_queues (cy_sv s) ! (hash oid mod n)"
  shows "\<exists>later. filter (\<lambda>m. mo_oid m = oid \<and> accepted E m) (map fst (sv_acc (cy_sv s))) =
    filter (\<lambda>m. mo_oid m = oid) (map (the \<circ> ptrMosdop) (oq_submitted q)) @ filter (\<lambda>m. mo_oid m = oid) (carried (oq_hpc q)) @ later"
proof -
  have inv: "cy_inv hash E n s" by (rule cy_reach_inv [OF assms(1-3)])
  let ?i = "hash oid mod n"
  have len: "length (sv_queues (cy_sv s)) = n" using inv by (simp add: cy_inv_def cy_ok_def)
  then have i: "?i < length (sv_queues (cy_sv s))" using assms(2) by simp
  have ok: "queue_ok hash E n (sv_acc (cy_sv s)) (sv_served (cy_sv s)) ?i q"
    using inv i len unfolding q_def by (simp add: cy_inv_def cy_ok_def sv_inv_def)
  have o: "map (the \<circ> ptrMosdop) (oq_submitted q) @ carried (oq_hpc q) = filter (accepted E) (map fst (oq_served q))"
    using cy_reach_order [OF assms(1-3)] i unfolding q_def by (simp add: list_all_length order_ok_def)
  let ?f = "\<lambda>m. mo_oid m = oid \<and> accepted E m"
  have f: "filter ?f (map fst (filter (routed hash n ?i) xs)) = filter ?f (map fst xs)" for xs :: "entry list"
    by (induction xs) (auto simp: routed_def)
  have a: "filter (routed hash n ?i) (sv_acc (cy_sv s)) = oq_served q @ oq_pending q" using ok unfolding queue_ok_def by simp
  have "filter ?f (map fst (sv_acc (cy_sv s))) = filter ?f (map fst (oq_served q @ oq_pending q))"
    using f [of "sv_acc (cy_sv s)"] unfolding a by simp
  also have "\<dots> = filter (\<lambda>m. mo_oid m = oid) (filter (accepted E) (map fst (oq_served q))) @ filter ?f (map fst (oq_pending q))"
    by (simp add: conj_commute)
  finally show ?thesis unfolding o [symmetric] by simp
qed

theorem object_submission_order_witness:
  "\<exists>later. [one_op_msg] = filter (\<lambda>m. mo_oid m = ''obj'') (map (the \<circ> ptrMosdop) (oq_submitted (queued [one_op_msg]))) @
     filter (\<lambda>m. mo_oid m = ''obj'') (carried (oq_hpc (queued [one_op_msg]))) @ later"
proof -
  have "(cy_step (\<lambda>_. 0) cy_env (\<lambda>_. []))\<^sup>*\<^sup>* (cy_start 1) (one (queued [one_op_msg]) 1)" using queued_reach [of "[one_op_msg]"] by simp
  from object_submission_order [OF this _ demo_roomy(2) refl, of "''obj''"] demo_accepts show ?thesis
    by (simp add: one_def queued_def) (simp add: one_op_msg_def)
qed

end
