(* ===== verification/Admission.thy ===== *)
theory Admission
  imports Throttle "HOL-Library.Multiset"
begin

text \<open>
  The waiting half of the \<open>Get...Cas\<close> functions of \<open>server_adaptor/network_module.cpp\<close>, for one counter and all handler threads at
  once. A handler adds its amount with a compare-and-swap, and only then, when the value it replaced was above the limit, sleeps
  and samples the counter until it is at the limit or below. So the counter holds the amounts of the requests in flight and of the
  handlers that wait. \<open>GetlwtCas\<close>/\<open>PutlwtCas\<close> is the instance with amount 1 and an unguarded decrement, the
  operation and bandwidth counters are those with a guarded one. The limit is constant here and not 0.

  A request stays in flight until the cache answers; its handler goes on to the next one, so a handler can have any number in flight.
\<close>

section \<open>The protocol\<close>

datatype apc = AReady | ALoaded u64 u64 | AWait u64

record adm =
  ad_count :: u64
  ad_ts :: "apc list"
  ad_in :: "u64 list"

definition adm_put :: "bool \<Rightarrow> u64 \<Rightarrow> u64 \<Rightarrow> u64" where
  "adm_put guarded c n = (if guarded \<and> n < c then n else n - c)"

text \<open>\<open>A\<close> says which amounts occur.\<close>

inductive adm_step :: "bool \<Rightarrow> u64 \<Rightarrow> (u64 \<Rightarrow> bool) \<Rightarrow> adm \<Rightarrow> adm \<Rightarrow> bool" for guarded T A where
  load: "i < length (ad_ts s) \<Longrightarrow> ad_ts s ! i = AReady \<Longrightarrow> A c \<Longrightarrow>
     adm_step guarded T A s (s\<lparr>ad_ts := (ad_ts s)[i := ALoaded c (ad_count s)]\<rparr>)"
| cas_fail: "i < length (ad_ts s) \<Longrightarrow> ad_ts s ! i = ALoaded c old \<Longrightarrow> ad_count s \<noteq> old \<Longrightarrow>
     adm_step guarded T A s (s\<lparr>ad_ts := (ad_ts s)[i := ALoaded c (ad_count s)]\<rparr>)"
| cas_pass: "i < length (ad_ts s) \<Longrightarrow> ad_ts s ! i = ALoaded c old \<Longrightarrow> ad_count s = old \<Longrightarrow> old \<le> T \<Longrightarrow>
     adm_step guarded T A s (s\<lparr>ad_count := old + c, ad_ts := (ad_ts s)[i := AReady], ad_in := ad_in s @ [c]\<rparr>)"
| cas_wait: "i < length (ad_ts s) \<Longrightarrow> ad_ts s ! i = ALoaded c old \<Longrightarrow> ad_count s = old \<Longrightarrow> T < old \<Longrightarrow>
     adm_step guarded T A s (s\<lparr>ad_count := old + c, ad_ts := (ad_ts s)[i := AWait c]\<rparr>)"
| sample: "i < length (ad_ts s) \<Longrightarrow> ad_ts s ! i = AWait c \<Longrightarrow> ad_count s \<le> T \<Longrightarrow>
     adm_step guarded T A s (s\<lparr>ad_ts := (ad_ts s)[i := AReady], ad_in := ad_in s @ [c]\<rparr>)"
| finish: "ad_in s = xs @ c # ys \<Longrightarrow>
     adm_step guarded T A s (s\<lparr>ad_count := adm_put guarded c (ad_count s), ad_in := xs @ ys\<rparr>)"

definition adm_start :: "nat \<Rightarrow> adm" where
  "adm_start n = \<lparr>ad_count = 0, ad_ts = replicate n AReady, ad_in = []\<rparr>"

text \<open>The amounts in flight and the amounts of the waiting handlers.\<close>

definition in_flight :: "adm \<Rightarrow> nat" where
  "in_flight s = sum_list (map unat (ad_in s))"

fun held :: "apc \<Rightarrow> nat" where
  "held (AWait c) = unat c"
| "held p = 0"

definition waiting :: "adm \<Rightarrow> nat" where
  "waiting s = sum_list (map held (ad_ts s))"

fun waits :: "apc \<Rightarrow> bool" where
  "waits (AWait c) = True"
| "waits p = False"

section \<open>The invariant\<close>

text \<open>Every amount is at most \<open>a\<close>, and everything that can be added at once fits into the counter.\<close>

definition small_amounts :: "(u64 \<Rightarrow> bool) \<Rightarrow> u64 \<Rightarrow> nat \<Rightarrow> nat \<Rightarrow> bool" where
  "small_amounts A T a n \<longleftrightarrow> (\<forall>c. A c \<longrightarrow> unat c \<le> a) \<and> unat T + (n + 1) * a < 2 ^ 64"

fun pc_small :: "nat \<Rightarrow> apc \<Rightarrow> bool" where
  "pc_small a AReady = True"
| "pc_small a (ALoaded c old) = (unat c \<le> a)"
| "pc_small a (AWait c) = (unat c \<le> a)"

definition adm_inv :: "u64 \<Rightarrow> nat \<Rightarrow> nat \<Rightarrow> adm \<Rightarrow> bool" where
  "adm_inv T a n s \<longleftrightarrow> length (ad_ts s) = n \<and> list_all (pc_small a) (ad_ts s) \<and> list_all (\<lambda>c. unat c \<le> a) (ad_in s) \<and>
     unat (ad_count s) = in_flight s + waiting s \<and> in_flight s \<le> unat T + a"

lemma held_le: "pc_small a p \<Longrightarrow> held p \<le> a"
  by (cases p) auto

lemma waiting_le: "list_all (pc_small a) (ad_ts s) \<Longrightarrow> waiting s \<le> length (ad_ts s) * a"
proof -
  assume "list_all (pc_small a) (ad_ts s)"
  then have "sum_list (map held (ad_ts s)) \<le> sum_list (map (\<lambda>_. a) (ad_ts s))"
    by (intro sum_list_mono) (auto simp: list_all_iff intro: held_le)
  then show ?thesis by (simp add: waiting_def sum_list_triv)
qed

lemma waiting_update:
  "i < length (ad_ts s) \<Longrightarrow> sum_list (map held ((ad_ts s)[i := p])) + held (ad_ts s ! i) = waiting s + held p"
  unfolding waiting_def by (rule sum_list_update_nat)

lemma adm_inv_start: "small_amounts A T a n \<Longrightarrow> adm_inv T a n (adm_start n)"
  by (simp add: adm_inv_def adm_start_def in_flight_def waiting_def sum_list_replicate list_all_iff)

lemma unat_plus_small: "unat x + unat y < 2 ^ 64 \<Longrightarrow> unat (x + y :: u64) = unat x + unat y"
  by (simp add: unat_word_ariths)

lemma adm_step_inv:
  assumes "adm_step guarded T A s s'" and inv: "adm_inv T a n s" and sm: "small_amounts A T a n"
  shows "adm_inv T a n s'"
  using assms(1)
proof cases
  case (load i c)
  then show ?thesis
    using inv sm waiting_update [OF load(2), of "ALoaded c (ad_count s)"]
    by (auto simp: adm_inv_def small_amounts_def in_flight_def waiting_def intro!: list_all_upd)
next
  case (cas_fail i c old)
  then have "unat c \<le> a" using inv by (auto simp: adm_inv_def list_all_length)
  then show ?thesis
    using inv cas_fail waiting_update [OF cas_fail(2), of "ALoaded c (ad_count s)"]
    by (auto simp: adm_inv_def in_flight_def waiting_def intro!: list_all_upd)
next
  case (cas_pass i c old)
  then have c: "unat c \<le> a" using inv by (auto simp: adm_inv_def list_all_length)
  have "unat old \<le> unat T" using cas_pass(5) by (simp add: word_le_nat_alt)
  then have "unat (old + c) = unat old + unat c"
    using c sm by (intro unat_plus_small) (simp add: small_amounts_def)
  then show ?thesis
    using inv cas_pass c \<open>unat old \<le> unat T\<close> waiting_update [OF cas_pass(2), of AReady]
    by (auto simp: adm_inv_def in_flight_def waiting_def intro!: list_all_upd)
next
  case (cas_wait i c old)
  then have c: "unat c \<le> a" using inv by (auto simp: adm_inv_def list_all_length)
  have w: "sum_list (map held ((ad_ts s)[i := AWait c])) = waiting s + unat c"
    using waiting_update [OF cas_wait(2), of "AWait c"] cas_wait(3) by simp
  have "list_all (pc_small a) ((ad_ts s)[i := AWait c])"
    using inv c by (intro list_all_upd) (simp_all add: adm_inv_def)
  then have "waiting s + unat c \<le> n * a"
    using waiting_le [of a "s\<lparr>ad_ts := (ad_ts s)[i := AWait c]\<rparr>"] w inv by (simp add: waiting_def adm_inv_def)
  then have "unat (old + c) = unat old + unat c"
    using inv sm cas_wait(4) by (intro unat_plus_small) (simp add: adm_inv_def small_amounts_def)
  then show ?thesis
    using inv cas_wait c w by (auto simp: adm_inv_def in_flight_def waiting_def intro!: list_all_upd)
next
  case (sample i c)
  then have c: "unat c \<le> a" using inv by (auto simp: adm_inv_def list_all_length)
  have "waiting s = sum_list (map held ((ad_ts s)[i := AReady])) + unat c"
    using waiting_update [OF sample(2), of AReady] sample(3) by simp
  moreover have "unat (ad_count s) \<le> unat T" using sample(4) by (simp add: word_le_nat_alt)
  ultimately show ?thesis
    using inv sample c by (auto simp: adm_inv_def in_flight_def waiting_def intro!: list_all_upd)
next
  case (finish xs c ys)
  then have "unat c \<le> unat (ad_count s)" using inv by (simp add: adm_inv_def in_flight_def)
  then have "unat (adm_put guarded c (ad_count s)) = unat (ad_count s) - unat c"
    by (simp add: adm_put_def unat_sub word_le_nat_alt word_less_nat_alt)
  then show ?thesis using inv finish by (simp add: adm_inv_def in_flight_def waiting_def)
qed

lemma adm_reach_inv:
  assumes "(adm_step guarded T A)\<^sup>*\<^sup>* (adm_start n) s" "small_amounts A T a n"
  shows "adm_inv T a n s"
  using assms(1) by (induction rule: rtranclp_induct) (auto intro: adm_inv_start adm_step_inv assms(2))

section \<open>Properties\<close>


section \<open>Stalls\<close>

text \<open>Once the waiting handlers hold more than the limit, none of them is let through, whatever is answered.\<close>

definition still_waits :: "adm \<Rightarrow> adm \<Rightarrow> bool" where
  "still_waits s s' \<longleftrightarrow> length (ad_ts s') = length (ad_ts s) \<and>
     (\<forall>i < length (ad_ts s). waits (ad_ts s ! i) \<longrightarrow> ad_ts s' ! i = ad_ts s ! i) \<and> mset (ad_in s') \<subseteq># mset (ad_in s)"

lemma still_waits_refl [simp]: "still_waits s s"
  by (simp add: still_waits_def)

lemma still_waits_trans: "still_waits s t \<Longrightarrow> still_waits t u \<Longrightarrow> still_waits s u"
  unfolding still_waits_def by (auto dest: subset_mset.trans)

lemma still_waits_update:
  assumes "\<not> waits (ad_ts s ! i)"
  shows "still_waits s (s\<lparr>ad_count := n, ad_ts := (ad_ts s)[i := p]\<rparr>)"
proof -
  have "(ad_ts s)[i := p] ! j = ad_ts s ! j" if "waits (ad_ts s ! j)" for j
    using assms that by (cases "j = i") auto
  then show ?thesis by (simp add: still_waits_def)
qed

lemma stall_step:
  assumes "adm_step guarded T A s s'" and inv: "adm_inv T a n s" and st: "unat T < waiting s"
  shows "still_waits s s' \<and> waiting s \<le> waiting s'"
proof -
  have full: "T < ad_count s" using inv st by (simp add: adm_inv_def word_less_nat_alt)
  from assms(1) show ?thesis
  proof cases
    case (load i c)
    then show ?thesis
      using still_waits_update [where s = s and i = i and n = "ad_count s" and p = "ALoaded c (ad_count s)"] waiting_update [OF load(2), of "ALoaded c (ad_count s)"]
      by (simp add: waiting_def)
  next
    case (cas_fail i c old)
    then show ?thesis
      using still_waits_update [where s = s and i = i and n = "ad_count s" and p = "ALoaded c (ad_count s)"]
        waiting_update [OF cas_fail(2), of "ALoaded c (ad_count s)"] by (simp add: waiting_def)
  next
    case (cas_wait i c old)
    then show ?thesis
      using still_waits_update [where s = s and i = i and n = "old + c" and p = "AWait c"] waiting_update [OF cas_wait(2), of "AWait c"] by (simp add: waiting_def)
  qed (use full in \<open>auto simp: still_waits_def waiting_def\<close>)
qed

lemma stall_reach:
  assumes "(adm_step guarded T A)\<^sup>*\<^sup>* s s'" "adm_inv T a n s" "small_amounts A T a n" "unat T < waiting s"
  shows "still_waits s s' \<and> adm_inv T a n s' \<and> unat T < waiting s'"
  using assms(1)
proof (induction rule: rtranclp_induct)
  case (step y z)
  then show ?case
    using stall_step [OF step.hyps(2)] adm_step_inv [OF step.hyps(2) _ assms(3)] still_waits_trans by fastforce
qed (use assms in simp)

text \<open>
  Handlers that wait count against the limit they wait for. When the waiting handlers together hold more than
  the limit, none of them is ever let through again, and no other request is admitted either, even after
  the cache has answered everything in flight.
\<close>

theorem admission_stall:
  assumes "small_amounts A T a n" "(adm_step guarded T A)\<^sup>*\<^sup>* (adm_start n) s" "unat T < waiting s" "(adm_step guarded T A)\<^sup>*\<^sup>* s s'"
  shows "(\<forall>i < n. waits (ad_ts s ! i) \<longrightarrow> ad_ts s' ! i = ad_ts s ! i) \<and> mset (ad_in s') \<subseteq># mset (ad_in s)"
  using stall_reach [OF assms(4) adm_reach_inv [OF assms(2,1)] assms(1,3)] adm_reach_inv [OF assms(2,1)]
  by (simp add: still_waits_def adm_inv_def)

subsection \<open>A run into a stall\<close>

text \<open>\<open>k\<close> requests in flight and the first \<open>j\<close> of \<open>n\<close> handlers waiting, all with the amount \<open>a\<close>.\<close>

definition crowd :: "nat \<Rightarrow> nat \<Rightarrow> nat \<Rightarrow> nat \<Rightarrow> adm" where
  "crowd a n k j = \<lparr>ad_count = of_nat ((k + j) * a), ad_ts = replicate j (AWait (of_nat a)) @ replicate (n - j) AReady,
     ad_in = replicate k (of_nat a)\<rparr>"

lemma unat_of_nat_le: "unat (of_nat m :: u64) \<le> m"
  by (simp add: unat_of_nat take_bit_eq_mod)

lemma replicate_split: "j < n \<Longrightarrow> replicate (n - j) x = x # replicate (n - Suc j) x"
  by (metis Suc_diff_Suc replicate_Suc)

lemma crowd_update: "j < n \<Longrightarrow> (ad_ts (crowd a n k j))[j := p] = replicate j (AWait (of_nat a)) @ p # replicate (n - Suc j) AReady"
  by (simp add: crowd_def replicate_split list_update_append)

lemma crowd_load:
  assumes "j < n" "A (of_nat a)"
  shows "adm_step guarded T A (crowd a n k j)
    ((crowd a n k j)\<lparr>ad_ts := (ad_ts (crowd a n k j))[j := ALoaded (of_nat a) (of_nat ((k + j) * a))]\<rparr>)"
  using load [of j "crowd a n k j" A "of_nat a" guarded T] assms
  by (simp add: crowd_def replicate_split nth_append)

lemma crowd_enter:
  assumes "0 < n" "A (of_nat a)" "k * a \<le> unat T"
  shows "(adm_step guarded T A)\<^sup>*\<^sup>* (crowd a n k 0) (crowd a n (Suc k) 0)"
proof -
  let ?s = "crowd a n k 0" and ?l = "ALoaded (of_nat a) (of_nat (k * a)) :: apc"
  let ?t = "?s\<lparr>ad_ts := (ad_ts ?s)[0 := ?l]\<rparr>"
  have 1: "adm_step guarded T A ?s ?t" using crowd_load [where j = 0 and A = A and a = a and n = n and k = k] assms(1,2) by simp
  have len: "0 < length (ad_ts ?t)" and at: "ad_ts ?t ! 0 = ?l" using assms(1) by (simp_all add: crowd_def)
  have "(of_nat (k * a) :: u64) \<le> T"
    using assms(3) unat_of_nat_le [of "k * a"] by (simp add: word_le_nat_alt del: of_nat_mult)
  then have "adm_step guarded T A ?t
      (?t\<lparr>ad_count := of_nat (k * a) + of_nat a, ad_ts := (ad_ts ?t)[0 := AReady], ad_in := ad_in ?t @ [of_nat a]\<rparr>)"
    by (intro cas_pass [OF len at]) (simp_all add: crowd_def)
  moreover have "?t\<lparr>ad_count := of_nat (k * a) + of_nat a, ad_ts := (ad_ts ?t)[0 := AReady], ad_in := ad_in ?t @ [of_nat a]\<rparr> =
      crowd a n (Suc k) 0"
    using assms(1) replicate_split [OF assms(1), of AReady]
    by (simp add: crowd_def replicate_append_same add.commute)
  ultimately show ?thesis using 1 by (metis converse_rtranclp_into_rtranclp r_into_rtranclp)
qed

lemma crowd_wait:
  assumes "j < n" "A (of_nat a)" "unat T < (k + j) * a" "(k + j) * a < 2 ^ 64"
  shows "(adm_step guarded T A)\<^sup>*\<^sup>* (crowd a n k j) (crowd a n k (Suc j))"
proof -
  let ?s = "crowd a n k j" and ?l = "ALoaded (of_nat a) (of_nat ((k + j) * a)) :: apc"
  let ?t = "?s\<lparr>ad_ts := (ad_ts ?s)[j := ?l]\<rparr>"
  have 1: "adm_step guarded T A ?s ?t" using crowd_load [where j = j and A = A and a = a and n = n and k = k] assms(1,2) by simp
  have len: "j < length (ad_ts ?t)" and at: "ad_ts ?t ! j = ?l" using assms(1) by (simp_all add: crowd_def)
  have "T < (of_nat ((k + j) * a) :: u64)"
    using assms(3,4) by (simp add: word_less_nat_alt unat_of_nat take_bit_nat_eq_self del: of_nat_mult of_nat_add)
  then have "adm_step guarded T A ?t
      (?t\<lparr>ad_count := of_nat ((k + j) * a) + of_nat a, ad_ts := (ad_ts ?t)[j := AWait (of_nat a)]\<rparr>)"
    by (intro cas_wait [OF len at]) (simp_all add: crowd_def)
  moreover have "?t\<lparr>ad_count := of_nat ((k + j) * a) + of_nat a, ad_ts := (ad_ts ?t)[j := AWait (of_nat a)]\<rparr> = crowd a n k (Suc j)"
    using crowd_update [OF assms(1), of a k "AWait (of_nat a)"]
    by (simp add: crowd_def replicate_app_Cons_same algebra_simps)
  ultimately show ?thesis using 1 by (metis converse_rtranclp_into_rtranclp r_into_rtranclp)
qed

lemma crowd_finish: "adm_step guarded T A (crowd a n (Suc k) j) (crowd a n k j)" if "(Suc k + j) * a < 2 ^ 64"
proof -
  let ?s = "crowd a n (Suc k) j"
  have "unat (of_nat ((Suc k + j) * a) :: u64) = (Suc k + j) * a" "unat (of_nat a :: u64) \<le> a"
    using that by (simp_all add: unat_of_nat take_bit_nat_eq_self take_bit_eq_mod del: of_nat_mult of_nat_add)
  then have "\<not> (of_nat ((Suc k + j) * a) :: u64) < of_nat a"
    by (simp add: word_less_nat_alt del: of_nat_mult of_nat_add)
  then have p: "adm_put guarded (of_nat a) (of_nat ((Suc k + j) * a)) = of_nat ((k + j) * a)"
    by (simp add: adm_put_def algebra_simps)
  have "adm_step guarded T A ?s (?s\<lparr>ad_count := adm_put guarded (of_nat a) (ad_count ?s), ad_in := [] @ replicate k (of_nat a)\<rparr>)"
    by (rule finish) (simp add: crowd_def)
  then show ?thesis using p by (simp add: crowd_def)
qed

lemma crowd_enters:
  assumes "0 < n" "A (of_nat a)" "(k - 1) * a \<le> unat T"
  shows "(adm_step guarded T A)\<^sup>*\<^sup>* (crowd a n 0 0) (crowd a n k 0)"
  using assms(3)
proof (induction k)
  case (Suc k)
  have "(k - 1) * a \<le> unat T" using Suc.prems by (cases k) simp_all
  moreover have "(adm_step guarded T A)\<^sup>*\<^sup>* (crowd a n k 0) (crowd a n (Suc k) 0)"
    using Suc.prems assms(1,2) by (intro crowd_enter) simp_all
  ultimately show ?case using Suc.IH by (metis rtranclp_trans)
qed simp

lemma crowd_waits:
  assumes "j \<le> n" "A (of_nat a)" "unat T < k * a" "(k + n) * a < 2 ^ 64"
  shows "(adm_step guarded T A)\<^sup>*\<^sup>* (crowd a n k 0) (crowd a n k j)"
  using assms(1)
proof (induction j)
  case (Suc j)
  have "(k + j) * a \<le> (k + n) * a" "k * a \<le> (k + j) * a" using Suc.prems by (simp_all add: mult_le_mono1)
  then have "(adm_step guarded T A)\<^sup>*\<^sup>* (crowd a n k j) (crowd a n k (Suc j))"
    using Suc.prems assms(2-4) by (intro crowd_wait) linarith+
  with Suc show ?case by (simp add: rtranclp_trans)
qed simp

lemma crowd_finishes:
  assumes "(k + j) * a < 2 ^ 64"
  shows "(adm_step guarded T A)\<^sup>*\<^sup>* (crowd a n k j) (crowd a n 0 j)"
  using assms
proof (induction k)
  case (Suc k)
  have "(k + j) * a < 2 ^ 64" using Suc.prems by simp
  with Suc.IH crowd_finish [OF Suc.prems, of guarded T A n] show ?case by (simp add: converse_rtranclp_into_rtranclp)
qed simp

lemma crowd_reach:
  assumes "0 < n" "0 < a" "A (of_nat a)" "unat T + (n + 1) * a < 2 ^ 64"
  shows "(adm_step guarded T A)\<^sup>*\<^sup>* (adm_start n) (crowd a n 0 n)"
proof -
  let ?k = "unat T div a + 1"
  have lo: "unat T < ?k * a" using assms(2) by (simp add: dividend_less_div_times add.commute)
  have hi: "(?k - 1) * a \<le> unat T" by simp
  have top: "(?k + n) * a < 2 ^ 64" using assms(4) div_times_less_eq_dividend [of "unat T" a] unfolding distrib_right by linarith
  have "adm_start n = crowd a n 0 0" by (simp add: adm_start_def crowd_def)
  moreover have "(adm_step guarded T A)\<^sup>*\<^sup>* (crowd a n 0 0) (crowd a n ?k 0)" by (rule crowd_enters [where A = A, OF assms(1,3) hi])
  moreover have "(adm_step guarded T A)\<^sup>*\<^sup>* (crowd a n ?k 0) (crowd a n ?k n)"
    by (rule crowd_waits [where A = A, OF le_refl assms(3) lo top])
  moreover have "(adm_step guarded T A)\<^sup>*\<^sup>* (crowd a n ?k n) (crowd a n 0 n)" by (rule crowd_finishes [OF top])
  ultimately show ?thesis by (metis rtranclp_trans)
qed

lemma stall_free_iff:
  assumes small: "small_amounts A T a n" and occurs: "A (of_nat a)" "0 < a"
  shows "(\<forall>s i. (adm_step guarded T A)\<^sup>*\<^sup>* (adm_start n) s \<and> ad_in s = [] \<and> i < n \<and> waits (ad_ts s ! i) \<longrightarrow> ad_count s \<le> T) \<longleftrightarrow>
    n * a \<le> unat T"
    (is "?live \<longleftrightarrow> _")
proof
  assume fits: "n * a \<le> unat T"
  show ?live
  proof (intro allI impI, elim conjE)
    fix s i assume "(adm_step guarded T A)\<^sup>*\<^sup>* (adm_start n) s" "ad_in s = []"
    then show "ad_count s \<le> T"
      using adm_reach_inv [OF _ small, of guarded s] waiting_le [of a s] fits
      by (auto simp: adm_inv_def in_flight_def word_le_nat_alt)
  qed
next
  assume live: ?live
  show "n * a \<le> unat T"
  proof (rule ccontr)
    assume "\<not> n * a \<le> unat T"
    then have over: "unat T < n * a" by simp
    then have n: "0 < n" by (cases n) auto
    have top: "n * a < 2 ^ 64" using small by (simp add: small_amounts_def)
    have "(adm_step guarded T A)\<^sup>*\<^sup>* (adm_start n) (crowd a n 0 n)"
      using small by (intro crowd_reach n occurs) (simp add: small_amounts_def)
    moreover have "ad_in (crowd a n 0 n) = []" "waits (ad_ts (crowd a n 0 n) ! 0)" using n by (simp_all add: crowd_def)
    ultimately have "ad_count (crowd a n 0 n) \<le> T" using live n by blast
    then have "n * a \<le> unat T"
      using top by (simp add: crowd_def word_le_nat_alt unat_of_nat take_bit_nat_eq_self del: of_nat_mult)
    then show False using over by simp
  qed
qed

text \<open>
  Which configurations can stall. Suppose no amount exceeds \<open>a\<close> and \<open>a\<close> occurs. A waiting handler is let through once everything in flight
  has been answered, in every run, if and only if \<open>n\<close> handlers waiting with the amount \<open>a\<close> stay within the limit. So
  the throttle on operations never stalls exactly when there are at most \<open>saOpThrottle\<close> queues, and the
  bandwidth limit can stall even a single handler with a request above the limit.
\<close>

theorem admission_live_iff:
  assumes "small_amounts A T a n" and "A (of_nat a)" "0 < a"
  shows "(\<forall>s i. (adm_step guarded T A)\<^sup>*\<^sup>* (adm_start n) s \<and> ad_in s = [] \<and> i < n \<and> waits (ad_ts s ! i) \<longrightarrow> ad_count s \<le> T) \<longleftrightarrow>
    n * a \<le> unat T"
  using assms by (rule stall_free_iff)

text \<open>Witnesses: a throttle of 2 operations with two and with three handlers, and a bandwidth limit below one request.\<close>

lemma small_one: "unat T + n + 1 < 2 ^ 64 \<Longrightarrow> small_amounts ((=) 1) T 1 n"
  by (auto simp: small_amounts_def)


theorem admission_stall_witness:
  "\<exists>s. (adm_step False 2 ((=) 1))\<^sup>*\<^sup>* (adm_start 3) s \<and> ad_in s = [] \<and>
     (\<forall>s'. (adm_step False 2 ((=) 1))\<^sup>*\<^sup>* s s' \<longrightarrow> ad_ts s' ! 0 = AWait 1 \<and> ad_in s' = [])"
proof -
  let ?s = "crowd 1 3 0 3"
  have r: "(adm_step False 2 ((=) 1))\<^sup>*\<^sup>* (adm_start 3) ?s" by (rule crowd_reach) simp_all
  have w: "unat (2 :: u64) < waiting ?s" "ad_in ?s = []" "ad_ts ?s ! 0 = AWait 1"
    by (simp_all add: waiting_def crowd_def sum_list_replicate)
  have "ad_ts s' ! 0 = AWait 1 \<and> ad_in s' = []" if "(adm_step False 2 ((=) 1))\<^sup>*\<^sup>* ?s s'" for s'
    using admission_stall [OF small_one r w(1) that] w(2,3) by auto
  with r w(2) show ?thesis by blast
qed

theorem admission_live_iff_witness:
  "(\<forall>s i. (adm_step False 2 ((=) 1))\<^sup>*\<^sup>* (adm_start 2) s \<and> ad_in s = [] \<and> i < 2 \<and> waits (ad_ts s ! i) \<longrightarrow> ad_count s \<le> 2) \<and>
   \<not> (\<forall>s i. (adm_step True 4 (\<lambda>c. c \<le> 5))\<^sup>*\<^sup>* (adm_start 1) s \<and> ad_in s = [] \<and> i < 1 \<and> waits (ad_ts s ! i) \<longrightarrow> ad_count s \<le> 4)"
proof -
  have "small_amounts (\<lambda>c. c \<le> 5) 4 5 1" by (auto simp: small_amounts_def word_le_nat_alt)
  from admission_live_iff [OF this, of True] admission_live_iff [OF small_one, of 2 2 False] show ?thesis by simp
qed

end
