(* ===== verification/Diagnostics.thy ===== *)
theory Diagnostics
  imports C_String
begin

text \<open>
  Logging and tracing. The log of the server adaptor (\<open>server_adaptor/salog.cpp\<close>) formats into a fixed buffer and hands the line to the cache's
  exporter; the performance recorder (\<open>msg_perf_record.cc\<close>) counts messages and periodically writes averages; the proxy's log macros are those of
  \<open>CephProxyLog.h\<close>, its counters and trace identifiers those of \<open>CephProxyFtds.cc\<close> and \<open>CephProxyFtds.h\<close>.

  An exporter is a number; what it is given is kept in \<open>sl_lines\<close>. The text that \<open>vsnprintf\<close> would print is an argument, \<open>None\<close>
  when it fails.
\<close>

unbundle bit_operations_syntax

section \<open>The log\<close>

datatype LogLevel = LV_CRITICAL | LV_ERROR | LV_WARNING | LV_INFORMATION | LV_DEBUG

datatype log_entry =
    WriteLog LogLevel string int string string
  | WriteDataLog string int string string
  | WriteLogLimit LogLevel string int string string
  | WriteLogLimit2 LogLevel string int string string

record salog =
  sl_sa :: "nat option"
  sl_lines :: "(nat \<times> log_entry) list"

abbreviation ONE_LOG_MAX_LEN :: nat where "ONE_LOG_MAX_LEN \<equiv> 2048"

definition InitSalog :: "nat \<Rightarrow> salog \<Rightarrow> int \<times> salog" where
  "InitSalog p s = (0, if sl_sa s = None then s\<lparr>sl_sa := Some p\<rparr> else s)"

definition FinishSalog :: "string \<Rightarrow> salog \<Rightarrow> int \<times> salog" where
  "FinishSalog name s = (0, s)"

text \<open>\<open>vsnprintf\<close> keeps one byte of its size for the terminator; the exporter reads up to the first null byte.\<close>

definition log_with :: "(string \<Rightarrow> log_entry) \<Rightarrow> string option \<Rightarrow> salog \<Rightarrow> salog" where
  "log_with f text s =
     (case (sl_sa s, text) of
        (Some p, Some t) \<Rightarrow> s\<lparr>sl_lines := sl_lines s @ [(p, f (c_str (take (ONE_LOG_MAX_LEN - 1) t)))]\<rparr>
      | _ \<Rightarrow> s)"

definition OsaWriteLog :: "LogLevel \<Rightarrow> string \<Rightarrow> int \<Rightarrow> string \<Rightarrow> string option \<Rightarrow> salog \<Rightarrow> salog" where
  "OsaWriteLog lv file_name f_line func_name text s = log_with (WriteLog lv file_name f_line func_name) text s"

definition OsaWriteDataLog :: "string \<Rightarrow> int \<Rightarrow> string \<Rightarrow> string option \<Rightarrow> salog \<Rightarrow> salog" where
  "OsaWriteDataLog file_name f_line func_name text s = log_with (WriteDataLog file_name f_line func_name) text s"

definition OsaWriteLogLimit :: "LogLevel \<Rightarrow> string \<Rightarrow> int \<Rightarrow> string \<Rightarrow> string option \<Rightarrow> salog \<Rightarrow> salog" where
  "OsaWriteLogLimit lv file_name f_line func_name text s = log_with (WriteLogLimit lv file_name f_line func_name) text s"

definition OsaWriteLogLimit2 :: "LogLevel \<Rightarrow> string \<Rightarrow> int \<Rightarrow> string \<Rightarrow> string option \<Rightarrow> salog \<Rightarrow> salog" where
  "OsaWriteLogLimit2 lv file_name f_line func_name text s = log_with (WriteLogLimit2 lv file_name f_line func_name) text s"

datatype log_op = LInit nat | LFinish string | LWrite LogLevel string int string "string option" | LData string int string "string option"
  | LLimit LogLevel string int string "string option" | LLimit2 LogLevel string int string "string option"

fun log_step :: "log_op \<Rightarrow> salog \<Rightarrow> salog" where
  "log_step (LInit p) s = snd (InitSalog p s)"
| "log_step (LFinish n) s = snd (FinishSalog n s)"
| "log_step (LWrite lv f l g t) s = OsaWriteLog lv f l g t s"
| "log_step (LData f l g t) s = OsaWriteDataLog f l g t s"
| "log_step (LLimit lv f l g t) s = OsaWriteLogLimit lv f l g t s"
| "log_step (LLimit2 lv f l g t) s = OsaWriteLogLimit2 lv f l g t s"

fun entry_text :: "log_entry \<Rightarrow> string" where
  "entry_text (WriteLog lv f l g t) = t"
| "entry_text (WriteDataLog f l g t) = t"
| "entry_text (WriteLogLimit lv f l g t) = t"
| "entry_text (WriteLogLimit2 lv f l g t) = t"

definition no_log :: salog where
  "no_log = \<lparr>sl_sa = None, sl_lines = []\<rparr>"

definition log_inv :: "nat option \<Rightarrow> salog \<Rightarrow> bool" where
  "log_inv x s \<longleftrightarrow> sl_sa s = x \<and> list_all (\<lambda>(p, e). x = Some p \<and> length (entry_text e) < ONE_LOG_MAX_LEN) (sl_lines s)"

lemma length_c_str: "length (c_str t) \<le> length t"
  by (simp add: c_str_def length_takeWhile_le)

lemma log_with_inv:
  assumes "log_inv x s" "\<And>t. entry_text (f t) = t"
  shows "log_inv x (log_with f text s)"
proof -
  have "length (c_str (take 2047 t)) < 2048" for t
    using length_c_str [of "take 2047 t"] by simp
  then show ?thesis using assms by (auto simp: log_inv_def log_with_def split: option.splits)
qed

lemma log_step_inv: "log_inv (Some p) s \<Longrightarrow> log_inv (Some p) (log_step op s)"
  by (cases op) (auto simp: OsaWriteLog_def OsaWriteDataLog_def OsaWriteLogLimit_def OsaWriteLogLimit2_def FinishSalog_def InitSalog_def
      intro!: log_with_inv, simp_all add: log_inv_def)

lemma log_fold_inv: "log_inv (Some p) s \<Longrightarrow> log_inv (Some p) (fold log_step ops s)"
  by (induction ops arbitrary: s) (auto intro: log_step_inv)

text \<open>
  The log keeps its first exporter for ever. After the first \<open>InitSalog\<close> every line of every later call, also after \<open>FinishSalog\<close> and
  another \<open>InitSalog\<close> with a different exporter, goes to that first one, and no line has more than 2047 characters. So the
  exporter of the first start has to outlive the process.
\<close>

theorem log_first_exporter:
  assumes "(p', e) \<in> set (sl_lines (fold log_step ops (snd (InitSalog p no_log))))"
  shows "p' = p \<and> length (entry_text e) < 2048"
proof -
  have "log_inv (Some p) (snd (InitSalog p no_log))" by (simp add: log_inv_def InitSalog_def no_log_def)
  from log_fold_inv [OF this, of ops] assms show ?thesis by (auto simp: log_inv_def list_all_iff)
qed

theorem log_first_exporter_witness:
  "let s = fold log_step [LFinish ''sa'', LInit 2, LData ''f'' 1 ''g'' (Some ''x'')] (snd (InitSalog 1 no_log)) in
     sl_lines s = [(1, WriteDataLog ''f'' 1 ''g'' ''x'')] \<and> (\<forall>p e. (p, e) \<in> set (sl_lines s) \<longrightarrow> p = 1)"
  using log_first_exporter [of _ _ "[LFinish ''sa'', LInit 2, LData ''f'' 1 ''g'' (Some ''x'')]" 1]
  by (auto simp: InitSalog_def FinishSalog_def no_log_def OsaWriteDataLog_def log_with_def c_str_def)

section \<open>The log macros of the proxy\<close>

text \<open>
  \<open>CephProxyLog.h\<close>. With \<open>DPAX_LOG\<close> a line goes to the external logger with the process number 882; the \<open>Limit\<close> macros ask
  \<open>PRINT_LIMIT_PERIOD\<close> first, which is the parameter \<open>limit\<close> (level, process, period, frequency). Their first parameter is spelt \<open>peroid\<close> and never
  used: the expansion has the name \<open>period\<close>, that is, whatever the calling function has under this name (\<open>scope\<close>; \<open>None\<close> does not compile).
  Without \<open>DPAX_LOG\<close> a line is printed on \<open>stderr\<close>.
\<close>

datatype proxy_level = PL_CRI | PL_ERROR | PL_WARNING | PL_INFO | PL_DEBUG

abbreviation MY_PID :: nat where "MY_PID \<equiv> 882"

definition ProxyDbgLog :: "proxy_level \<Rightarrow> string \<Rightarrow> nat \<times> proxy_level \<times> string" where
  "ProxyDbgLog lv text = (MY_PID, lv, ''[PROXY]'' @ text)"

definition ProxyDbgLogLimit ::
    "(proxy_level \<Rightarrow> nat \<Rightarrow> nat \<Rightarrow> nat \<Rightarrow> bool) \<Rightarrow> nat option \<Rightarrow> proxy_level \<Rightarrow> nat \<Rightarrow> nat \<Rightarrow> string \<Rightarrow> (nat \<times> proxy_level \<times> string) option option" where
  "ProxyDbgLogLimit limit scope lv peroid frequency text =
     (case scope of
        None \<Rightarrow> None
      | Some period \<Rightarrow> Some (if limit lv MY_PID period frequency then Some (ProxyDbgLog lv text) else None))"

definition ProxyDbgLogWarnLimit1 ::
    "(proxy_level \<Rightarrow> nat \<Rightarrow> nat \<Rightarrow> nat \<Rightarrow> bool) \<Rightarrow> nat \<Rightarrow> string \<Rightarrow> (nat \<times> proxy_level \<times> string) option" where
  "ProxyDbgLogWarnLimit1 limit hz text =
     (if limit PL_WARNING MY_PID (60 * hz) 10 then Some (ProxyDbgLog PL_WARNING text) else None)"

fun level_tag :: "proxy_level \<Rightarrow> string" where
  "level_tag PL_CRI = ''CRI''"
| "level_tag PL_ERROR = ''Err''"
| "level_tag PL_WARNING = ''Warn''"
| "level_tag PL_INFO = ''Info''"
| "level_tag PL_DEBUG = ''Debug''"

definition proxy_stderr_line :: "string \<Rightarrow> nat \<Rightarrow> string \<Rightarrow> proxy_level \<Rightarrow> string \<Rightarrow> string" where
  "proxy_stderr_line file ln func lv text =
     ''['' @ file @ '']['' @ to_string ln @ '']['' @ func @ '']['' @ level_tag lv @ ''][PROXY]['' @ text @ '']'' @ [CHR 0x0A]"

text \<open>A line of one place in the program determines its level and text, and the period that a caller asks for has no effect.\<close>

lemma proxy_line_injective:
  "proxy_stderr_line file ln func lv text = proxy_stderr_line file ln func lv' text' \<Longrightarrow> lv = lv' \<and> text = text'"
  by (cases lv; cases lv') (simp_all add: proxy_stderr_line_def)

lemma limit_period_ignored: "ProxyDbgLogLimit limit scope lv p frequency text = ProxyDbgLogLimit limit scope lv p' frequency text"
  by (simp add: ProxyDbgLogLimit_def)

section \<open>The performance recorder\<close>

record MsgPerfRecord =
  msgRecvTinc :: u64
  msgRecvCount :: u64
  msgRecvCountPre :: u64
  msgSendTinc :: u64
  msgSendCount :: u64
  msgSendCountPre :: u64
  msgTotalTinc :: u64
  msgTotalCount :: u64
  msgTotalCountPre :: u64
  perf_finish :: bool
  perf_threads :: "bool list"
  perf_out :: "(u64 \<times> u64) list list"

definition new_MsgPerfRecord :: MsgPerfRecord where
  "new_MsgPerfRecord = \<lparr>msgRecvTinc = 0, msgRecvCount = 0, msgRecvCountPre = 0, msgSendTinc = 0, msgSendCount = 0, msgSendCountPre = 0,
     msgTotalTinc = 0, msgTotalCount = 0, msgTotalCountPre = 0, perf_finish = False, perf_threads = [], perf_out = []\<rparr>"

definition set_recv :: "u64 \<Rightarrow> MsgPerfRecord \<Rightarrow> MsgPerfRecord" where
  "set_recv t s = s\<lparr>msgRecvCount := msgRecvCount s + 1, msgRecvTinc := msgRecvTinc s + t\<rparr>"

definition set_send :: "u64 \<Rightarrow> MsgPerfRecord \<Rightarrow> MsgPerfRecord" where
  "set_send t s = s\<lparr>msgSendCount := msgSendCount s + 1, msgSendTinc := msgSendTinc s + t\<rparr>"

definition set_Total :: "u64 \<Rightarrow> MsgPerfRecord \<Rightarrow> MsgPerfRecord" where
  "set_Total t s = s\<lparr>msgTotalCount := msgTotalCount s + 1, msgTotalTinc := msgTotalTinc s + t\<rparr>"

definition perf_avg :: "u64 \<Rightarrow> u64 \<Rightarrow> fault + u64 \<times> u64" where
  "perf_avg c t = (if c = 0 then Inl DivByZero else Inr (c, t div c))"

text \<open>One round of the recorder's loop after its sleep, seen as one step: a line of counts and averages per kind.\<close>

definition perf_tick :: "MsgPerfRecord \<Rightarrow> fault + MsgPerfRecord" where
  "perf_tick s =
     (if msgRecvCountPre s = msgRecvCount s \<and> msgSendCountPre s = msgSendCount s \<and> msgTotalCountPre s = msgTotalCount s then Inr s
      else
        let s1 = s\<lparr>msgRecvCountPre := msgRecvCount s, msgSendCountPre := msgSendCount s, msgTotalCountPre := msgTotalCount s\<rparr>
        in case perf_avg (msgRecvCount s1) (msgRecvTinc s1) of
             Inl f \<Rightarrow> Inl f
           | Inr a \<Rightarrow>
               (case perf_avg (msgSendCount s1) (msgSendTinc s1) of
                  Inl f \<Rightarrow> Inl f
                | Inr b \<Rightarrow>
                    (case perf_avg (msgTotalCount s1) (msgTotalTinc s1) of
                       Inl f \<Rightarrow> Inl f
                     | Inr c \<Rightarrow> Inr (s1\<lparr>perf_out := perf_out s1 @ [[a, b, c]]\<rparr>))))"

text \<open>The threads of the recorder, each with whether it can still be joined; joining another one throws.\<close>

definition perf_start :: "MsgPerfRecord \<Rightarrow> MsgPerfRecord" where
  "perf_start s = s\<lparr>perf_threads := perf_threads s @ [True]\<rparr>"

definition perf_stop :: "MsgPerfRecord \<Rightarrow> fault + MsgPerfRecord" where
  "perf_stop s =
     (if list_all id (perf_threads s) then Inr (s\<lparr>perf_finish := True, perf_threads := map (\<lambda>_. False) (perf_threads s)\<rparr>)
      else Inl UncaughtException)"

text \<open>A message is received, later its reply is sent and its total time recorded; the recorder wakes up in between.\<close>

datatype perf_event = PRecv u64 | PReply u64 u64 | PTick

fun perf_run :: "perf_event list \<Rightarrow> MsgPerfRecord \<Rightarrow> fault + MsgPerfRecord" where
  "perf_run [] s = Inr s"
| "perf_run (PRecv t # es) s = perf_run es (set_recv t s)"
| "perf_run (PReply t u # es) s = perf_run es (set_Total u (set_send t s))"
| "perf_run (PTick # es) s = (case perf_tick s of Inl f \<Rightarrow> Inl f | Inr s' \<Rightarrow> perf_run es s')"

lemma perf_tick_ok:
  "msgRecvCount s \<noteq> 0 \<Longrightarrow> msgSendCount s \<noteq> 0 \<Longrightarrow> msgTotalCount s \<noteq> 0 \<Longrightarrow>
   \<exists>s'. perf_tick s = Inr s' \<and> msgRecvCount s' = msgRecvCount s \<and> msgSendCount s' = msgSendCount s \<and> msgTotalCount s' = msgTotalCount s"
  by (simp add: perf_tick_def perf_avg_def Let_def)

fun quiet :: "perf_event \<Rightarrow> bool" where
  "quiet PTick = False"
| "quiet _ = True"

definition recvs :: "perf_event list \<Rightarrow> nat" where
  "recvs es = length (filter (\<lambda>e. case e of PRecv _ \<Rightarrow> True | _ \<Rightarrow> False) es)"

definition replies :: "perf_event list \<Rightarrow> nat" where
  "replies es = length (filter (\<lambda>e. case e of PReply _ _ \<Rightarrow> True | _ \<Rightarrow> False) es)"

lemma perf_quiet_run:
  "list_all quiet es \<Longrightarrow> \<exists>s'. perf_run es s = Inr s' \<and> msgRecvCount s' = msgRecvCount s + of_nat (recvs es) \<and>
     msgSendCount s' = msgSendCount s + of_nat (replies es) \<and> msgTotalCount s' = msgTotalCount s + of_nat (replies es) \<and>
     msgRecvCountPre s' = msgRecvCountPre s \<and> msgSendCountPre s' = msgSendCountPre s \<and> msgTotalCountPre s' = msgTotalCountPre s"
  by (induction es s rule: perf_run.induct)
    (auto simp: set_recv_def set_send_def set_Total_def recvs_def replies_def algebra_simps)

lemma perf_run_append: "perf_run (es @ fs) s = (case perf_run es s of Inl f \<Rightarrow> Inl f | Inr t \<Rightarrow> perf_run fs t)"
  by (induction es s rule: perf_run.induct) (auto split: sum.splits)



section \<open>Counters and trace identifiers of the proxy\<close>

abbreviation PROXY_FTDS_OPS_QUEUE :: nat where "PROXY_FTDS_OPS_QUEUE \<equiv> 100000"
abbreviation PROXY_FTDS_COUNT :: nat where "PROXY_FTDS_COUNT \<equiv> 100022"

record ftds_counter =
  fc_in :: u64
  fc_out :: u64
  fc_fail :: u64

definition new_ftds :: "ftds_counter list" where
  "new_ftds = replicate PROXY_FTDS_COUNT \<lparr>fc_in = 0, fc_out = 0, fc_fail = 0\<rparr>"

definition ftds_at :: "nat \<Rightarrow> (ftds_counter \<Rightarrow> ftds_counter) \<Rightarrow> ftds_counter list \<Rightarrow> fault + ftds_counter list" where
  "ftds_at i f cs = (if i < length cs then Inr (cs[i := f (cs ! i)]) else Inl OutOfBounds)"

definition proxy_ftds_in :: "u32 \<Rightarrow> ftds_counter list \<Rightarrow> fault + ftds_counter list" where
  "proxy_ftds_in i cs = ftds_at (unat i) (\<lambda>c. c\<lparr>fc_in := fc_in c + 1\<rparr>) cs"

definition proxy_ftds_out :: "u32 \<Rightarrow> int \<Rightarrow> ftds_counter list \<Rightarrow> fault + ftds_counter list" where
  "proxy_ftds_out i ret cs =
     ftds_at (unat i) (\<lambda>c. c\<lparr>fc_out := fc_out c + 1, fc_fail := (if ret \<noteq> 0 then fc_fail c + 1 else fc_fail c)\<rparr>) cs"

definition proxy_ftds_counter :: "u32 \<Rightarrow> ftds_counter list \<Rightarrow> fault + ftds_counter list" where
  "proxy_ftds_counter i cs = ftds_at (unat i) (\<lambda>c. c\<lparr>fc_in := fc_in c + 1\<rparr>) cs"

text \<open>\<open>FTDS_ID\<close>, \<open>FTDS_H16B\<close> and the identifier the tracing macros pass on.\<close>

definition FTDS_ID :: "u32 \<Rightarrow> u32" where
  "FTDS_ID i = 400 + i"

definition FTDS_H16B :: "u32 \<Rightarrow> u32" where
  "FTDS_H16B levl = push_bit 24 levl OR push_bit 16 6"

definition FTDS_RET :: "int \<Rightarrow> int" where
  "FTDS_RET ret = (if ret \<noteq> 0 then -1 else 0)"

definition trace_id :: "u32 \<Rightarrow> u32 \<Rightarrow> u32" where
  "trace_id lev i = FTDS_H16B lev OR FTDS_ID i"

text \<open>The module number is bits 16 to 23 of the identifier, as \<open>FTDS_H16B\<close> sets it.\<close>

definition trace_module :: "u32 \<Rightarrow> u32" where
  "trace_module t = drop_bit 16 t AND 255"

definition proxy_ids :: "u32 list" where
  "proxy_ids = map of_nat [PROXY_FTDS_OPS_QUEUE ..< PROXY_FTDS_COUNT]"

lemma proxy_ids_list: "proxy_ids = map (\<lambda>k. 100000 + of_nat k) [0 ..< 22]"
proof -
  have "[PROXY_FTDS_OPS_QUEUE ..< PROXY_FTDS_COUNT] = map (\<lambda>k. k + 100000) [0 ..< 22]"
    using map_add_upt [of 100000 22] by simp
  then show ?thesis by (simp add: proxy_ids_def add.commute)
qed

lemma proxy_id_high: "i \<in> set proxy_ids \<Longrightarrow> drop_bit 16 (FTDS_ID i) = 1"
proof -
  assume "i \<in> set proxy_ids"
  then obtain k where k: "k < 22" "i = 100000 + of_nat k" by (auto simp: proxy_ids_list)
  have "FTDS_ID i = of_nat (100400 + k)" using k(2) by (simp add: FTDS_ID_def)
  then have "unat (FTDS_ID i) = 100400 + k"
    using k(1) by (simp add: unat_of_nat take_bit_nat_eq_self del: of_nat_add)
  then have "unat (drop_bit 16 (FTDS_ID i)) = (100400 + k) div 2 ^ 16"
    by (simp add: drop_bit_eq_div unat_div_distrib)
  also have "\<dots> = 1" using k(1) by (simp add: div_nat_eqI)
  finally have "unat (drop_bit 16 (FTDS_ID i)) = unat (1 :: u32)" by simp
  then show ?thesis by (simp only: unsigned_word_eqI)
qed

text \<open>
  Counting never leaves the array: every identifier of the enumeration is an index of it.
\<close>

lemma proxy_ftds_in_range:
  assumes "i \<in> set proxy_ids" "length cs = PROXY_FTDS_COUNT"
  shows "\<exists>cs'. proxy_ftds_in i cs = Inr cs' \<and> length cs' = PROXY_FTDS_COUNT"
    and "\<exists>cs'. proxy_ftds_out i ret cs = Inr cs' \<and> length cs' = PROXY_FTDS_COUNT"
proof -
  obtain k where k: "k < 22" "i = of_nat (100000 + k)" using assms(1) by (auto simp: proxy_ids_list)
  have "unat i < 100022" using k by (simp add: unat_of_nat take_bit_nat_eq_self del: of_nat_add)
  then show "\<exists>cs'. proxy_ftds_in i cs = Inr cs' \<and> length cs' = PROXY_FTDS_COUNT"
    "\<exists>cs'. proxy_ftds_out i ret cs = Inr cs' \<and> length cs' = PROXY_FTDS_COUNT"
    using assms(2) by (simp_all add: proxy_ftds_in_def proxy_ftds_out_def ftds_at_def)
qed

text \<open>
  The proxy's trace identifiers carry the wrong module. \<open>FTDS_H16B\<close> puts the module number 6 into bits 16 to 23 and leaves the lower 16 bits
  to the identifier, but the identifiers start at 100000, which needs 17 bits: at every level and for every identifier the traced module is 7.
\<close>

theorem trace_module_overlap:
  assumes "i \<in> set proxy_ids"
  shows "trace_module (FTDS_H16B lev) = 6 \<and> trace_module (trace_id lev i) = 7"
proof -
  have h: "drop_bit 16 (FTDS_H16B lev) AND 255 = 6"
  proof -
    have m: "(255 :: u32) = mask 8" by (simp add: mask_eq_exp_minus_1)
    have "take_bit 8 (drop_bit 16 (push_bit 24 lev)) = 0"
      by (rule bit_word_eqI) (auto simp: bit_take_bit_iff bit_drop_bit_eq bit_push_bit_iff)
    then show ?thesis by (simp add: FTDS_H16B_def m drop_bit_or take_bit_or flip: take_bit_eq_mask)
  qed
  have "trace_module (trace_id lev i) = (drop_bit 16 (FTDS_H16B lev) AND 255) OR (drop_bit 16 (FTDS_ID i) AND 255)"
    by (simp add: trace_module_def trace_id_def bit.conj_disj_distrib2)
  then show ?thesis using h proxy_id_high [OF assms] by (simp add: trace_module_def)
qed

theorem trace_module_overlap_witness:
  "trace_module (trace_id 3 100000) = 7"
proof -
  have "100000 \<in> set proxy_ids" by (simp add: proxy_ids_list) (rule image_eqI [of _ _ 0], simp_all)
  from trace_module_overlap [OF this, of 3] show ?thesis by simp
qed

end
