(* ===== verification/Spec2Isabelle.thy ===== *)
theory Spec2Isabelle
  imports Proxy_Interface My_Thread Rbd_Wrapper Net_Module Server_Live Admission Diagnostics
begin

text \<open>
  A verification development for \<open>ceph-global-cache-adaptor\<close>, the adaptor between a global cache and Ceph.

  \<^bold>\<open>The program.\<close> It consists of two libraries that the cache links.
  The \<^emph>\<open>proxy\<close> (\<open>src/src/ceph_proxy\<close>) is the way from the cache down to a Ceph cluster: a C interface over one
  object that owns a librados client, a table of I/O contexts, one worker thread per pool, and a monitor that scans the pools'
  usage. The \<^emph>\<open>server adaptor\<close> (\<open>src/src/server_adaptor\<close>) is the way from Ceph clients up to the cache:
  it receives client messages, puts them into queues, translates them into requests of the cache under admission control, runs object
  classes, and encodes the results into the reply.

  \<^bold>\<open>Theories and sources.\<close>

  \<^item> \<open>Prelude\<close> (machine integers, errno values, faults), \<open>Std_Map\<close> (\<open>std::map\<close> as a sorted list; the locale \<open>ordered_map\<close> is the
    contract its clients use), \<open>C_String\<close> (\<open>strtok\<close>, \<open>strtoull\<close>, \<open>atoi\<close>, \<open>to_string\<close>), \<open>Fifo_Server\<close> (the locale of a queue with a
    server thread, interpreted on the proxy's workers and on the adaptor's queues).
  \<^item> \<open>Rados_Client\<close>: \<open>RadosWrapper.cc\<close>, the client, contexts, pool queries, core binding. \<open>Rados_Op\<close>: the operation half of the same
    file and \<open>CephProxyOp.h\<close>; the locale \<open>cursor\<close> is the contract of the iterators. \<open>Sgl\<close>: scatter-gather lists and the loops over them.
  \<^item> \<open>Ioctx_Table\<close>: \<open>PoolContext.h\<close>. \<open>Proxy_Ctx\<close>: looking up and creating contexts in \<open>CephProxy.cc\<close>; the locale \<open>ctx_provider\<close> is what
    the workers rely on. \<open>Rados_Worker\<close>: one worker of \<open>RadosWorker.h\<close>/\<open>.cc\<close> as a step relation. \<open>Worker_Pool\<close>: all workers
    on the shared table. \<open>Rados_Monitor\<close>: \<open>RadosMonitor.cc\<close>, \<open>CcmAdaptor.cc\<close>. \<open>Ceph_Proxy\<close>: \<open>CephProxy::Init\<close>, \<open>Shutdown\<close> and
    the functions of \<open>CephProxyInterface.cc\<close> on a proxy. \<open>Proxy_Interface\<close>: those on operations. \<open>My_Thread\<close>: \<open>MyThread\<close> of
    \<open>RadosWorker.h\<close> and a worker whose thread was not created. \<open>Rbd_Wrapper\<close>: \<open>RbdWrapper.cc\<close>.
  \<^item> \<open>Config_Read\<close>: \<open>ConfigRead.cc\<close>, \<open>config_read.cpp\<close> and the health probe \<open>ceph_status\<close>.
  \<^item> \<open>Msg_Convert\<close>: \<open>msg_module.cpp\<close>. In \<open>network_module.cpp\<close>: \<open>Throttle\<close> (the counters), \<open>Process_Op\<close>
    (\<open>ProcessOpReq\<close>, \<open>FinishCacheOps\<close>), \<open>Op_Queue\<close> (\<open>EnqueueClientop\<close>, \<open>OpHandlerThread\<close>, \<open>CreateWorkThread\<close>, \<open>StopThread\<close>),
    \<open>Write_Quota\<close> (\<open>LimitWrite\<close>), \<open>Encode_Reply\<close> (\<open>Encode...\<close>). \<open>Class_Handler\<close>: \<open>ClassHandler.cc\<close>. \<open>Class_Api\<close>: \<open>class_api.cc\<close>.
    \<open>Admission\<close>: the waiting of all handlers on one counter. \<open>Server\<close>: \<open>sa_server_dispatcher.cpp\<close> and all queues with the shared
    counters. \<open>Net_Module\<close>: the server thread, its messengers and their end. \<open>Osa\<close>: \<open>osa.cpp\<close> and the start of the network
    module. \<open>Request_Cycle\<close>: the whole way of one message, with the cache as an arbitrary sequence of calls of the entry points.
    \<open>Server_Cycle\<close>: the server of all parts as one step relation, with the dispatcher, every queue and its handler, the five counters
    with the waiting at each of them, and the cache's answers; its invariants. \<open>Server_Live\<close>: runs of that server.
  \<^item> \<open>Diagnostics\<close>: \<open>salog.cpp\<close>, \<open>msg_perf_record.cc\<close>, \<open>CephProxyFtds.cc\<close> and the log macros of \<open>CephProxyLog.h\<close>.

  \<^bold>\<open>State and operations.\<close> A class or structure is a record, an enumeration a datatype, and a method a function on the
  record that keeps the method's name. Unsigned numbers whose width matters are words. A dereference of null, an index outside an array, an uncaught exception, a
  failing assertion, a division by zero and a read of an uninitialised member are values of \<open>fault\<close>, returned on the left of a sum; return
  codes of the program are ordinary results. Contexts are handles in a heap, so that leaks and double
  releases show. Threads are step relations whose steps are the critical sections of the code, with history variables for
  what was accepted, served and submitted.

  \<^bold>\<open>What the theorems show.\<close>

  \<^item> Proxy: after \<open>Shutdown\<close> of an initialised proxy nothing is left open and every accepted request has been handled; a failed \<open>Init\<close>
    leaves the static instance behind; a context lookup keeps the context of a known pool, and clearing the table releases each context
    once; a worker handles its requests in order and once, does not stall while requests are pending, and stopping drains it,
    except for requests accepted in the gap between draining and stopping; a worker without a thread answers nothing and cannot be
    stopped.
  \<^item> Interface: a client that uses a handle only with the functions of its kind never meets a fault, and every call that is not ignored
    records one librados call; one call of the other kind is a wrong cast.
  \<^item> Data path of the proxy: gathering and scattering through scatter-gather lists transfers exactly the described bytes; the iterators return
    every entry once; a scan of the pools publishes its result.
  \<^item> Block-device calls: on every path, errors included, the open contexts, images and users of the client are as before; disk usage follows the chain of
    snapshots; the user count is exact when increments are exclusive and can be too small with the shared lock of the code.
  \<^item> Adaptor: a queue serves in order, no wake-up is lost, a copy-up runs alone; a message is classified and its operations are
    translated; the identity of an RBD object is determined by its name; admission and reply balance the
    counters, and the compare-and-swap loop loses no update; the write quota is within a factor two of its target.
  \<^item> One message from end to end: an accepted message is answered once, with the cache's answer to each of its operations, and leaves the counters as
    they were; the order in which the cache finishes the operations is immaterial.
  \<^item> Classes: loading terminates when the dependencies have no cycle and opens all of them; a reading call leaves the client's message
    alone and returns what the cache holds; a client can run two classes and two built-in calls only.
  \<^item> Codecs: what the adaptor encodes into a reply decodes to the same value, and what a client encodes is what the cache gets.
  \<^item> Start: the accepted parameters exclude every division by zero and index error that depends on them; the
    wait for the server thread ends; a failed start cannot be repeated.
  \<^item> Server as a whole: in every run of all queues, handlers, counters and the cache together, a message is answered exactly once; the
    cache gets the operations on one object in the order in which they were accepted; each counter is what is in flight and what
    waiting handlers have taken, up to the messages with a malformed name; with limits that the handlers alone cannot exceed the server can always
    finish its work, and more malformed names than queues stop it for good. What is in flight is at most the limit and one request; the throttle can bring all handlers to a standstill exactly when there are more
    queues than it allows operations, which accepted configurations include. Taking the network module down deletes everything but the
    queues and the objects of a port that could not be bound, and does not return when the server thread has not bound its first port yet.
  \<^item> Diagnostics: the log keeps its first exporter, the recorder divides by zero between the first message and the first reply, and the
    trace identifiers carry the wrong module.

  \<^bold>\<open>Bounds and fuel.\<close> Loading a class recurses with fuel, since a class that depends on itself does not return;
  \<open>open_class_terminates\<close> shows that \<open>(D + 2) * (rank + 1)\<close> is enough for at most \<open>D\<close> dependencies per class and a rank that
  decreases along them. \<open>cls_log\<close> is a partial function in the option type, shown to return. The loops that wait for another thread or for
  the cache (\<open>quota_loop\<close>, the waiting \<open>Get...\<close> functions) take the sequence of values they will see; an exhausted
  sequence means that the loop still waits. \<open>connect_loop\<close> and \<open>bind_wait\<close> have measures. The step relations
  have no bound; that the server drains is shown with the rank \<open>crank\<close>, which decreases along a continuation. The exactness of the counters needs the amounts of
  the whole run to fit into 64 bits (\<open>run_fits\<close>), since the unsigned counters wrap. The other recursions are structural.

  \<^bold>\<open>Parameters.\<close> Code outside the repository is an argument: librados and librbd (\<open>rados_env\<close>, \<open>rbd_env\<close>), the monitor's answers,
  the configuration library (\<open>cfg_env\<close>, assumed never to write more than the size it is given), Ceph's encoders
  (\<open>codec\<close>, assumed to invert on what was encoded; \<open>le_codec\<close> is a concrete one that does), the dynamic linker (\<open>dl_env\<close>), the
  callbacks of the cache, floating-point operations and the regular expression of a \<open>df\<close> line, clocks, and the order of events of a run.

  \<^bold>\<open>Not modelled.\<close> Ceph's messengers (\<open>Net_Module\<close> records the calls on them), the patches to Ceph, build and service files.
  What the map leaves out of the headers \<open>CephProxyInterface.h\<close>, \<open>RadosWrapper.h\<close>, \<open>objclass.h\<close> and the smaller ones are declarations whose
  definitions are modelled where they are implemented, constants that nothing reads, and comments. The delay by \<open>LimitWrite\<close> inside a receiver's critical section and the exception handlers
  that only log and end the process are not separate steps. Log lines are modelled up to the exporter, and the step relations leave them
  out, with the clock readings that only feed them. \<open>Server_Cycle\<close> takes the limits of the cache
  as fixed during a run (\<open>Throttle\<close> has the functions with limits that change). Memory exhaustion is modelled only where the code tests for it.
\<close>

section \<open>Configuration and admission control\<close>


text \<open>Witness: 5000 queues and a throttle of 2000, both accepted.\<close>

definition crowded_cfg :: SA_ClusterControlCfg where
  "crowded_cfg = sample_cfg\<lparr>sc_queueAmount := 5000, sc_saOpThrottle := 2000\<rparr>"

definition crowded_params :: sa_params where
  "crowded_params = sample_params\<lparr>ap_queueAmount := 5000, ap_qos := (ap_qos sample_params)\<lparr>saOpThrottle := 2000\<rparr>\<rparr>"

lemma crowded_accepted: "osa_check (Some [None, Some (True, Inr ''::1'')]) 8 crowded_cfg = Some crowded_params"
proof -
  have p: "strtok comma ''7880'' = [''7880'']" by (simp add: strtok.simps Let_def)
  have c: "strtok comma ''0,1,2,3'' = [''0'', ''1'', ''2'', ''3'']" by (simp add: strtok.simps Let_def)
  have s: "c_str ''7880'' = ''7880''" "c_str ''0,1,2,3'' = ''0,1,2,3''" "c_str ''::1'' = ''::1''" by (simp_all add: c_str_def)
  have k: "CheckPort ''7880''" by (simp add: CheckPort_def IsDigit_def less_eq_char_def sample_atoi)
  show ?thesis
    by (simp add: osa_check_def crowded_cfg_def sample_cfg_def zero_SaCfg_def p c s k sample_atoi CheckLocalIp_def CheckCoreId_def Let_def
        crowded_params_def sample_params_def GetQueueAmount_def GetQueueMaxCapacity_def GetMsgrAmount_def GetBindCore_def GetBindQueueCore_def
        GetWriteQoS_def GetQuotCyc_def GetMessengerThrottle_def GetSaOpThrottle_def)
qed


end
